(* ===== verification/Prelude.thy ===== *)
theory Prelude
  imports Main
begin

text \<open>
  The vocabulary every component shares.

  \<^item> \<open>c_error\<close> and \<open>'a res\<close>: the outcome of a C function. \<open>Inr\<close> is a normal return.
    \<open>Inl\<close> is a point at which the C standard gives the program no behaviour (a null
    dereference, an access outside an object, a read of an indeterminate value, a write past a
    buffer, a signed overflow, a division by zero, a use of freed memory), or a call of \<open>exit\<close>.
  \<^item> \<open>bindR\<close>, \<open>mapR\<close>, \<open>foldR\<close>: sequencing of such functions, and the loops over arrays.
  \<^item> 32-bit signed \<open>int\<close> arithmetic that reports overflow.
  \<^item> \<open>rd_cell\<close> and \<open>wr_cell\<close>: reads and writes of an array of fixed-size character buffers.
    A buffer that was allocated and never written is \<open>None\<close>.

  The collections \<open>res_simps\<close> and \<open>cell_simps\<close> hold the equations that drive symbolic
  execution of the model.
\<close>

named_theorems res_simps
named_theorems cell_simps

section \<open>Outcomes of a C function\<close>

datatype c_error =
    NullDeref        \<comment> \<open>use of a null pointer\<close>
  | OutOfBounds      \<comment> \<open>access outside an allocated object\<close>
  | BufferOverflow   \<comment> \<open>string write past the end of its buffer\<close>
  | Uninit           \<comment> \<open>read of an indeterminate value\<close>
  | UseAfterFree     \<comment> \<open>access to a freed object\<close>
  | SignedOverflow   \<comment> \<open>signed integer overflow\<close>
  | DivByZero        \<comment> \<open>integer division by zero\<close>
  | Exit nat         \<comment> \<open>the process ends with this status\<close>

type_synonym 'a res = "c_error + 'a"

definition bindR :: "'a res \<Rightarrow> ('a \<Rightarrow> 'b res) \<Rightarrow> 'b res" where
  "bindR m f = (case m of Inl e \<Rightarrow> Inl e | Inr x \<Rightarrow> f x)"

definition checkR :: "bool \<Rightarrow> c_error \<Rightarrow> unit res" where
  "checkR b e = (if b then Inr () else Inl e)"

lemma bindR_Inr [simp, res_simps]: "bindR (Inr x) f = f x"
  by (simp add: bindR_def)

lemma bindR_Inl [simp, res_simps]: "bindR (Inl e) f = Inl e"
  by (simp add: bindR_def)

lemma bindR_Inr_right [simp]: "bindR m Inr = m"
  by (cases m) auto

lemma bindR_Inr_iff: "bindR m f = Inr y \<longleftrightarrow> (\<exists>x. m = Inr x \<and> f x = Inr y)"
  by (cases m) auto

lemma bindR_InrE:
  assumes "bindR m f = Inr y"
  obtains x where "m = Inr x" and "f x = Inr y"
  using assms by (auto simp: bindR_Inr_iff)

lemma bindR_assoc: "bindR (bindR m f) g = bindR m (\<lambda>x. bindR (f x) g)"
  by (cases m) auto

lemma bindR_cong [fundef_cong]:
  "m = m' \<Longrightarrow> (\<And>x. m' = Inr x \<Longrightarrow> f x = f' x) \<Longrightarrow> bindR m f = bindR m' f'"
  by (cases m') auto

lemma checkR_simps [simp, res_simps]: "checkR True e = Inr ()" "checkR False e = Inl e"
  by (simp_all add: checkR_def)

lemma checkR_Inr_iff [simp]: "checkR b e = Inr u \<longleftrightarrow> b"
  by (simp add: checkR_def)

lemma checkR_bind_Inr_iff [simp]: "bindR (checkR b e) f = Inr y \<longleftrightarrow> b \<and> f () = Inr y"
  by (cases b) auto

fun mapR :: "('a \<Rightarrow> 'b res) \<Rightarrow> 'a list \<Rightarrow> 'b list res" where
  "mapR f [] = Inr []"
| "mapR f (x # xs) = bindR (f x) (\<lambda>y. bindR (mapR f xs) (\<lambda>ys. Inr (y # ys)))"

fun foldR :: "('a \<Rightarrow> 'b \<Rightarrow> 'b res) \<Rightarrow> 'a list \<Rightarrow> 'b \<Rightarrow> 'b res" where
  "foldR f [] s = Inr s"
| "foldR f (x # xs) s = bindR (f x s) (foldR f xs)"

lemma mapR_all_Inr: "(\<And>x. x \<in> set xs \<Longrightarrow> f x = Inr (g x)) \<Longrightarrow> mapR f xs = Inr (map g xs)"
  by (induction xs) auto

lemma mapR_append:
  "mapR f (xs @ ys) = bindR (mapR f xs) (\<lambda>us. bindR (mapR f ys) (\<lambda>vs. Inr (us @ vs)))"
  by (induction xs) (auto simp: bindR_assoc)

lemma foldR_single [simp]: "foldR f [x] = f x"
proof
  show "foldR f [x] s = f x s" for s by (cases "f x s") auto
qed

lemma foldR_append: "foldR f (xs @ ys) s = bindR (foldR f xs s) (foldR f ys)"
proof (induction xs arbitrary: s)
  case (Cons x xs)
  then show ?case by (cases "f x s") auto
qed simp

lemma foldR_invariant:
  assumes "foldR f xs s = Inr t" and "P s"
    and "\<And>x s s'. x \<in> set xs \<Longrightarrow> P s \<Longrightarrow> f x s = Inr s' \<Longrightarrow> P s'"
  shows "P t"
  using assms
proof (induction xs arbitrary: s)
  case Nil
  then show ?case by simp
next
  case (Cons x xs)
  from Cons.prems(1) obtain s' where s': "f x s = Inr s'" "foldR f xs s' = Inr t"
    by (auto elim: bindR_InrE)
  have "P s'" using Cons.prems(2,3) s'(1) by auto
  with s'(2) Cons.IH Cons.prems(3) show ?case by (meson list.set_intros(2))
qed

section \<open>Signed 32-bit arithmetic\<close>

definition in_int :: "int \<Rightarrow> bool" where
  "in_int n \<longleftrightarrow> - (2 ^ 31) \<le> n \<and> n < 2 ^ 31"

definition c_int :: "int \<Rightarrow> int res" where
  "c_int n = (if in_int n then Inr n else Inl SignedOverflow)"

lemma c_int_ok: "in_int n \<Longrightarrow> c_int n = Inr n"
  by (simp add: c_int_def)

lemma c_int_Inr_iff: "c_int n = Inr m \<longleftrightarrow> in_int n \<and> m = n"
  by (auto simp: c_int_def)

lemma in_int_small: "0 \<le> n \<Longrightarrow> n \<le> 2000000000 \<Longrightarrow> in_int n"
  by (simp add: in_int_def)

section \<open>Arrays of character buffers\<close>

type_synonym 'a cells = "'a option list"

definition rd_cell :: "'a cells \<Rightarrow> int \<Rightarrow> 'a res" where
  "rd_cell xs i =
     (if i < 0 \<or> int (length xs) \<le> i then Inl OutOfBounds
      else case xs ! nat i of None \<Rightarrow> Inl Uninit | Some x \<Rightarrow> Inr x)"

text \<open>A string of length \<open>n\<close> occupies \<open>n + 1\<close> bytes, the terminating NUL included.\<close>

definition fit :: "nat \<Rightarrow> string \<Rightarrow> string res" where
  "fit cap s = (if length s < cap then Inr s else Inl BufferOverflow)"

definition wr_cell :: "nat \<Rightarrow> string cells \<Rightarrow> int \<Rightarrow> string \<Rightarrow> string cells res" where
  "wr_cell cap xs i s =
     (if i < 0 \<or> int (length xs) \<le> i then Inl OutOfBounds
      else bindR (fit cap s) (\<lambda>s. Inr (xs[nat i := Some s])))"

lemma fit_ok [cell_simps]: "length s < cap \<Longrightarrow> fit cap s = Inr s"
  by (simp add: fit_def)

lemma fit_Inr_iff: "fit cap s = Inr t \<longleftrightarrow> t = s \<and> length s < cap"
  by (auto simp: fit_def)

lemma rd_cell_Inr_iff:
  "rd_cell xs i = Inr x \<longleftrightarrow> 0 \<le> i \<and> i < int (length xs) \<and> xs ! nat i = Some x"
  by (auto simp: rd_cell_def split: option.splits)

lemma rd_cell_map [cell_simps]:
  "i < length xs \<Longrightarrow> rd_cell (map Some xs @ ys) (int i) = Inr (xs ! i)"
  by (simp add: rd_cell_def nth_append)

lemma rd_cell_filled [cell_simps]:
  "i < length xs \<Longrightarrow> rd_cell (map Some xs) (int i) = Inr (xs ! i)"
  by (simp add: rd_cell_def)

lemma wr_cell_Inr_iff:
  "wr_cell cap xs i s = Inr ys \<longleftrightarrow>
     0 \<le> i \<and> i < int (length xs) \<and> length s < cap \<and> ys = xs[nat i := Some s]"
  by (auto simp: wr_cell_def fit_def)

lemma wr_cell_filled [cell_simps]:
  "i < length xs \<Longrightarrow> length s < cap \<Longrightarrow>
   wr_cell cap (map Some xs) (int i) s = Inr (map Some (xs[i := s]))"
  by (simp add: wr_cell_def fit_def map_update)

lemma wr_cell_next [cell_simps]:
  "length xs = n \<Longrightarrow> length s < cap \<Longrightarrow>
   wr_cell cap (map Some xs @ [None]) (int n) s = Inr (map Some (xs @ [s]))"
  by (simp add: wr_cell_def fit_def list_update_append)

lemma rd_cell_outside [cell_simps]: "int (length xs) \<le> i \<Longrightarrow> rd_cell xs i = Inl OutOfBounds"
  by (simp add: rd_cell_def)

lemma wr_cell_outside [cell_simps]: "int (length xs) \<le> i \<Longrightarrow> wr_cell cap xs i s = Inl OutOfBounds"
  by (simp add: wr_cell_def)

text \<open>The loop \<open>for (i = 0; i < n; i++) read xs[i]\<close>.\<close>

definition rd_first :: "'a cells \<Rightarrow> int \<Rightarrow> 'a list res" where
  "rd_first xs n = mapR (rd_cell xs) (map int [0..<nat n])"

lemma rd_first_map [cell_simps]:
  "length xs = nat n \<Longrightarrow> rd_first (map Some xs @ ys) n = Inr xs"
proof -
  assume n: "length xs = nat n"
  have "mapR (rd_cell (map Some xs @ ys)) (map int [0..<nat n])
        = Inr (map (\<lambda>i. xs ! nat i) (map int [0..<nat n]))"
    by (rule mapR_all_Inr) (auto simp: n [symmetric] cell_simps)
  also have "map (\<lambda>i. xs ! nat i) (map int [0..<nat n]) = xs"
    by (simp add: n [symmetric] comp_def map_nth)
  finally show ?thesis by (simp add: rd_first_def)
qed

lemma rd_first_filled [cell_simps]: "length xs = nat n \<Longrightarrow> rd_first (map Some xs) n = Inr xs"
  using rd_first_map [of xs n "[]"] by simp

section \<open>Lists\<close>

lemma takeWhile_stop: "(\<And>x. x \<in> set xs \<Longrightarrow> P x) \<Longrightarrow> \<not> P y \<Longrightarrow> takeWhile P (xs @ y # ys) = xs"
  by (induction xs) auto

lemma dropWhile_stop: "(\<And>x. x \<in> set xs \<Longrightarrow> P x) \<Longrightarrow> \<not> P y \<Longrightarrow> dropWhile P (xs @ y # ys) = y # ys"
  by (induction xs) auto

lemma takeWhile_all: "(\<And>x. x \<in> set xs \<Longrightarrow> P x) \<Longrightarrow> takeWhile P xs = xs"
  by (induction xs) auto

end
