(* ===== verification/CLib.thy ===== *)
theory CLib
  imports Prelude
begin

text \<open>
  The parts of the C standard library the program relies on, as executable functions on strings
  without their terminating NUL: the truncation of a buffer at its first NUL, \<open>strtok\<close>,
  \<open>sprintf\<close> of an \<open>int\<close> with \<open>%d\<close> and \<open>%02i\<close>, \<open>sscanf\<close> as an interpreter of format
  directives, and \<open>fgets\<close>. The lemmas are the printing and scanning round trips the component
  theories use.
\<close>

section \<open>Character classes and NUL-terminated strings\<close>

definition NUL :: char where "NUL = CHR 0x00"

definition newline :: char where "newline = CHR 0x0A"

definition isspace :: "char \<Rightarrow> bool" where
  "isspace c \<longleftrightarrow> c = CHR '' '' \<or> c = CHR 0x09 \<or> c = CHR 0x0A \<or> c = CHR 0x0B \<or> c = CHR 0x0C \<or> c = CHR 0x0D"

text \<open>What a C string function sees of a byte buffer.\<close>

definition cstr :: "string \<Rightarrow> string" where
  "cstr bytes = takeWhile (\<lambda>c. c \<noteq> NUL) bytes"

definition digit_chars :: string where "digit_chars = ''0123456789''"

definition isdigit :: "char \<Rightarrow> bool" where
  "isdigit c \<longleftrightarrow> c \<in> set digit_chars"

fun digit_val :: "char \<Rightarrow> nat" where
  "digit_val c = length (takeWhile (\<lambda>d. d \<noteq> c) digit_chars)"

declare digit_val.simps [simp del]

definition digit_of :: "nat \<Rightarrow> char" where
  "digit_of n = digit_chars ! (n mod 10)"

section \<open>Decimal printing\<close>

fun dec_nat :: "nat \<Rightarrow> string" where
  "dec_nat n = (if n < 10 then [digit_of n] else dec_nat (n div 10) @ [digit_of n])"

declare dec_nat.simps [simp del]

definition dec :: "int \<Rightarrow> string" where
  "dec n = (if n < 0 then CHR ''-'' # dec_nat (nat (- n)) else dec_nat (nat n))"

text \<open>\<open>%02i\<close>: at least two characters, padded with zeros after the sign.\<close>

definition dec02 :: "int \<Rightarrow> string" where
  "dec02 n =
     (if 0 \<le> n \<and> n < 10 then CHR ''0'' # dec n else dec n)"

lemma isdigit_iff: "isdigit c \<longleftrightarrow>
    c = CHR ''0'' \<or> c = CHR ''1'' \<or> c = CHR ''2'' \<or> c = CHR ''3'' \<or> c = CHR ''4'' \<or>
    c = CHR ''5'' \<or> c = CHR ''6'' \<or> c = CHR ''7'' \<or> c = CHR ''8'' \<or> c = CHR ''9''"
  by (simp add: isdigit_def digit_chars_def)

lemma isdigit_not_space: "isdigit c \<Longrightarrow> \<not> isspace c"
  by (auto simp: isdigit_iff isspace_def)

lemma isdigit_not_sign: "isdigit c \<Longrightarrow> c \<noteq> CHR ''-'' \<and> c \<noteq> CHR ''+''"
  by (auto simp: isdigit_iff)

lemma below_ten:
  "(m::nat) < 10 \<Longrightarrow>
   m = 0 \<or> m = 1 \<or> m = 2 \<or> m = 3 \<or> m = 4 \<or> m = 5 \<or> m = 6 \<or> m = 7 \<or> m = 8 \<or> m = 9"
  by arith

lemma digit_char_facts:
  "m < 10 \<Longrightarrow> isdigit (digit_chars ! m) \<and> digit_val (digit_chars ! m) = m"
  by (drule below_ten, elim disjE)
    (simp_all add: isdigit_iff digit_val.simps digit_chars_def)

lemma isdigit_digit_of [simp]: "isdigit (digit_of n)"
  using digit_char_facts [of "n mod 10"] by (simp add: digit_of_def)

lemma digit_val_digit_of [simp]: "digit_val (digit_of n) = n mod 10"
  using digit_char_facts [of "n mod 10"] by (simp add: digit_of_def)

lemma dec_nat_digits: "c \<in> set (dec_nat n) \<Longrightarrow> isdigit c"
proof (induction n rule: dec_nat.induct)
  case (1 n)
  then show ?case by (subst (asm) dec_nat.simps) (auto split: if_splits)
qed

lemma dec_nat_nonempty [simp]: "dec_nat n \<noteq> []"
  by (subst dec_nat.simps) simp

lemma length_dec_nat: "n < 10 ^ k \<Longrightarrow> 0 < k \<Longrightarrow> length (dec_nat n) \<le> k"
proof (induction n arbitrary: k rule: dec_nat.induct)
  case (1 n)
  show ?case
  proof (cases "n < 10")
    case True
    with 1 show ?thesis by (subst dec_nat.simps) simp
  next
    case False
    obtain j where j: "k = Suc j" using "1.prems" by (cases k) auto
    with False "1.prems" have k: "k = Suc j" "0 < j" by (cases j; simp)+
    with "1.prems" have "n div 10 < 10 ^ j" by auto
    with False "1.IH" k have "length (dec_nat (n div 10)) \<le> j" by blast
    with False k show ?thesis by (subst dec_nat.simps) simp
  qed
qed

lemma dec_digits_or_sign: "c \<in> set (dec n) \<Longrightarrow> isdigit c \<or> c = CHR ''-''"
  by (auto simp: dec_def dest: dec_nat_digits split: if_splits)

lemma dec_nonempty [simp]: "dec n \<noteq> []"
  by (simp add: dec_def)

lemma dec_not_space: "c \<in> set (dec n) \<Longrightarrow> \<not> isspace c"
  by (auto dest!: dec_digits_or_sign dest: isdigit_not_space simp: isspace_def)

lemma length_dec: "0 \<le> n \<Longrightarrow> n < 10 ^ k \<Longrightarrow> 0 < k \<Longrightarrow> length (dec n) \<le> k"
  by (auto simp: dec_def intro!: length_dec_nat simp: nat_less_iff)

section \<open>strtok\<close>

text \<open>
  \<open>strtok d s\<close> scans the string its saved pointer designates: it skips delimiters, returns the
  token up to the next delimiter (\<open>None\<close> for NULL when nothing is left) and the string the saved
  pointer designates afterwards.
\<close>

definition strtok :: "string \<Rightarrow> string \<Rightarrow> string option \<times> string" where
  "strtok d s =
     (let s' = dropWhile (\<lambda>c. c \<in> set d) s in
      if s' = [] then (None, [])
      else (Some (takeWhile (\<lambda>c. c \<notin> set d) s'), drop 1 (dropWhile (\<lambda>c. c \<notin> set d) s')))"

lemma strtok_token:
  assumes "tok \<noteq> []" and "\<And>c. c \<in> set tok \<Longrightarrow> c \<notin> set d" and "x \<in> set d"
  shows "strtok d (tok @ x # rest) = (Some tok, rest)"
proof -
  obtain t ts where tok: "tok = t # ts" using assms(1) by (cases tok) auto
  have "t \<notin> set d" using assms(2) tok by simp
  then have "dropWhile (\<lambda>c. c \<in> set d) (tok @ x # rest) = tok @ x # rest"
    by (simp add: tok)
  moreover have "takeWhile (\<lambda>c. c \<notin> set d) (tok @ x # rest) = tok"
    using assms(2,3) by (intro takeWhile_stop) auto
  moreover have "dropWhile (\<lambda>c. c \<notin> set d) (tok @ x # rest) = x # rest"
    using assms(2,3) by (intro dropWhile_stop) auto
  ultimately show ?thesis by (simp add: strtok_def)
qed

lemma strtok_exhausted: "(\<And>c. c \<in> set s \<Longrightarrow> c \<in> set d) \<Longrightarrow> strtok d s = (None, [])"
  by (auto simp: strtok_def Let_def)

lemma strtok_nonempty: "strtok d s = (Some t, r) \<Longrightarrow> t \<noteq> []"
  using hd_dropWhile [of "\<lambda>c. c \<in> set d" s]
  by (auto simp del: dropWhile_eq_Nil_conv simp: strtok_def Let_def takeWhile_eq_Nil_iff split: if_splits)

section \<open>sscanf\<close>

text \<open>
  A format is a list of directives: a literal character, white space, \<open>%[...]\<close> with an optional
  width, \<open>%s\<close> and \<open>%d\<close>. The result lists the values assigned, in order, so its length is the
  count \<open>sscanf\<close> returns (the callers only compare that count with a positive number). A \<open>%d\<close>
  whose value an \<open>int\<close> cannot hold has no defined behaviour.
\<close>

datatype directive =
    Lit char
  | Ws
  | Scanset "nat option" "char \<Rightarrow> bool"
  | StrD
  | IntD

datatype scanned = SStr string | SInt int

definition scan_digits :: "string \<Rightarrow> nat" where
  "scan_digits ds = foldl (\<lambda>n c. 10 * n + digit_val c) 0 ds"

definition scan_int :: "string \<Rightarrow> (int \<times> string) option" where
  "scan_int s =
     (let s1 = dropWhile isspace s;
          (neg, s2) = (case s1 of [] \<Rightarrow> (False, [])
                       | c # cs \<Rightarrow> if c = CHR ''-'' then (True, cs)
                                  else if c = CHR ''+'' then (False, cs) else (False, s1));
          ds = takeWhile isdigit s2
      in if ds = [] then None
         else Some ((if neg then - int (scan_digits ds) else int (scan_digits ds)),
                    drop (length ds) s2))"

definition take_width :: "nat option \<Rightarrow> string \<Rightarrow> string" where
  "take_width w s = (case w of None \<Rightarrow> s | Some n \<Rightarrow> take n s)"

fun sscanf :: "directive list \<Rightarrow> string \<Rightarrow> scanned list res" where
  "sscanf [] s = Inr []"
| "sscanf (Lit c # fs) s =
     (case s of [] \<Rightarrow> Inr [] | x # xs \<Rightarrow> if x = c then sscanf fs xs else Inr [])"
| "sscanf (Ws # fs) s = sscanf fs (dropWhile isspace s)"
| "sscanf (Scanset w P # fs) s =
     (let t = take_width w (takeWhile P s) in
      if t = [] then Inr []
      else bindR (sscanf fs (drop (length t) s)) (\<lambda>vs. Inr (SStr t # vs)))"
| "sscanf (StrD # fs) s =
     (let s' = dropWhile isspace s; t = takeWhile (\<lambda>c. \<not> isspace c) s' in
      if t = [] then Inr []
      else bindR (sscanf fs (drop (length t) s')) (\<lambda>vs. Inr (SStr t # vs)))"
| "sscanf (IntD # fs) s =
     (case scan_int s of None \<Rightarrow> Inr []
      | Some (n, s') \<Rightarrow> bindR (c_int n) (\<lambda>n. bindR (sscanf fs s') (\<lambda>vs. Inr (SInt n # vs))))"

definition lits :: "string \<Rightarrow> directive list" where
  "lits s = map (\<lambda>c. if isspace c then Ws else Lit c) s"

lemma scan_digits_snoc: "scan_digits (ds @ [c]) = 10 * scan_digits ds + digit_val c"
  by (simp add: scan_digits_def)

lemma scan_digits_dec_nat: "scan_digits (dec_nat n) = n"
proof (induction n rule: dec_nat.induct)
  case (1 n)
  show ?case
  proof (cases "n < 10")
    case True
    then show ?thesis by (subst dec_nat.simps) (simp add: scan_digits_def)
  next
    case False
    with "1.IH" have "scan_digits (dec_nat (n div 10)) = n div 10" by simp
    with False show ?thesis by (subst dec_nat.simps) (simp add: scan_digits_snoc)
  qed
qed

lemma takeWhile_digits:
  assumes "\<And>c. c \<in> set ds \<Longrightarrow> isdigit c" and "r = [] \<or> \<not> isdigit (hd r)"
  shows "takeWhile isdigit (ds @ r) = ds"
  using assms by (cases r) (auto intro: takeWhile_stop takeWhile_all)

lemma scan_int_dec:
  assumes "r = [] \<or> \<not> isdigit (hd r)"
  shows "scan_int (dec n @ r) = Some (n, r)"
proof (cases "n < 0")
  case True
  have "takeWhile isdigit (dec_nat (nat (- n)) @ r) = dec_nat (nat (- n))"
    by (rule takeWhile_digits [OF dec_nat_digits assms])
  with True show ?thesis
    by (simp add: scan_int_def dec_def isspace_def scan_digits_dec_nat)
next
  case False
  let ?ds = "dec_nat (nat n)"
  obtain d ds where ds: "?ds = d # ds" by (cases ?ds) auto
  have d: "isdigit d" using dec_nat_digits [of d "nat n"] ds by simp
  have "takeWhile isdigit (?ds @ r) = ?ds"
    by (rule takeWhile_digits [OF dec_nat_digits assms])
  with False d ds show ?thesis
    using scan_digits_dec_nat [of "nat n"]
    by (simp add: scan_int_def dec_def isdigit_not_space isdigit_not_sign)
qed

lemma scan_int_space: "isspace c \<Longrightarrow> scan_int (c # s) = scan_int s"
  by (simp add: scan_int_def)

lemma sscanf_int:
  assumes "in_int n" and "r = [] \<or> \<not> isdigit (hd r)"
  shows "sscanf (IntD # fs) (dec n @ r) = bindR (sscanf fs r) (\<lambda>vs. Inr (SInt n # vs))"
  using assms by (simp add: scan_int_dec c_int_ok)

lemma sscanf_space_dec: "sscanf (Ws # fs) (CHR '' '' # dec n @ r) = sscanf fs (dec n @ r)"
proof -
  obtain d ds where ds: "dec n = d # ds" by (cases "dec n") auto
  have "\<not> isspace d" using dec_not_space [of d n] ds by simp
  then show ?thesis by (simp add: ds isspace_def)
qed

lemma set_strtok: "strtok d s = (x, r) \<Longrightarrow> set r \<subseteq> set s \<and> (\<forall>t. x = Some t \<longrightarrow> set t \<subseteq> set s)"
  by (auto simp: strtok_def Let_def split: if_splits dest: in_set_dropD set_dropWhileD set_takeWhileD)

lemma strtok_no_delim: "strtok d s = (Some t, r) \<Longrightarrow> c \<in> set d \<Longrightarrow> c \<notin> set t"
  by (auto simp: strtok_def Let_def split: if_splits dest: set_takeWhileD)

text \<open>
  A format of literals, white space and \<open>%n[...]\<close> only never fails, and assigns strings within
  the widths it gives, in order.
\<close>

fun widths :: "directive list \<Rightarrow> nat list" where
  "widths [] = []"
| "widths (Scanset (Some n) P # fs) = n # widths fs"
| "widths (f # fs) = widths fs"

fun bounded_fmt :: "directive list \<Rightarrow> bool" where
  "bounded_fmt [] = True"
| "bounded_fmt (Lit c # fs) = bounded_fmt fs"
| "bounded_fmt (Ws # fs) = bounded_fmt fs"
| "bounded_fmt (Scanset w P # fs) = (w \<noteq> None \<and> bounded_fmt fs)"
| "bounded_fmt (f # fs) = False"

fun within :: "nat list \<Rightarrow> scanned list \<Rightarrow> bool" where
  "within ns [] = True"
| "within (n # ns) (SStr x # vs) = (length x \<le> n \<and> within ns vs)"
| "within ns vs = False"

lemma sscanf_bounded: "bounded_fmt fs \<Longrightarrow> \<exists>vs. sscanf fs s = Inr vs \<and> within (widths fs) vs"
proof (induction fs s rule: sscanf.induct)
  case (2 c fs s)
  then show ?case by (cases s) auto
next
  case (4 w P fs s)
  then obtain n where w: "w = Some n" by auto
  show ?case
  proof (cases "take_width w (takeWhile P s) = []")
    case True
    then show ?thesis by simp
  next
    case False
    with 4 obtain vs where
      "sscanf fs (drop (length (take_width w (takeWhile P s))) s) = Inr vs" "within (widths fs) vs"
      by auto
    with False w show ?thesis by (auto simp: take_width_def Let_def)
  qed
qed auto

lemma within_Nil: "within [] vs \<longleftrightarrow> vs = []"
  by (cases vs) auto

lemma within_Cons:
  "within (n # ns) vs \<longleftrightarrow>
     vs = [] \<or> (\<exists>x us. vs = SStr x # us \<and> length x \<le> n \<and> within ns us)"
  by (cases "(n # ns, vs)" rule: within.cases) auto

lemmas within_cases = within_Nil within_Cons

lemma sscanf_field:
  assumes "t \<noteq> []" and "length t \<le> n" and "list_all P t" and "\<not> P c"
  shows "sscanf (Scanset (Some n) P # fs) (t @ c # r)
         = bindR (sscanf fs (c # r)) (\<lambda>vs. Inr (SStr t # vs))"
proof -
  have "takeWhile P (t @ c # r) = t"
    using assms(3,4) by (intro takeWhile_stop) (auto simp: list_all_iff)
  with assms(1,2) show ?thesis by (simp add: take_width_def)
qed

section \<open>fgets\<close>

text \<open>
  \<open>fgets\<close> with a buffer of \<open>n\<close> bytes: up to \<open>n - 1\<close> characters, ending after a newline. The
  caller reads the line as a C string, so a NUL byte in the file ends it early.
\<close>

definition fgets_len :: "nat \<Rightarrow> string \<Rightarrow> nat" where
  "fgets_len n s = min (n - 1) (length (takeWhile (\<lambda>c. c \<noteq> newline) s) + 1)"

function fgets_lines :: "nat \<Rightarrow> string \<Rightarrow> string list" where
  "fgets_lines n s =
     (if s = [] \<or> n < 2 then []
      else cstr (take (fgets_len n s) s) # fgets_lines n (drop (fgets_len n s) s))"
  by pat_completeness auto
termination
  by (relation "measure (\<lambda>(n, s). length s)") (auto simp: fgets_len_def)

declare fgets_lines.simps [simp del]

lemma cstr_id: "NUL \<notin> set s \<Longrightarrow> cstr s = s"
  unfolding cstr_def by (rule takeWhile_all) auto

lemma NUL_cstr [simp]: "NUL \<notin> set (cstr s)"
  by (auto simp: cstr_def dest: set_takeWhileD)

lemma fgets_lines_Nil [simp]: "fgets_lines n [] = []"
  by (simp add: fgets_lines.simps)

lemma fgets_lines_line:
  assumes "newline \<notin> set l" and "NUL \<notin> set l" and "length l + 1 < n"
  shows "fgets_lines n (l @ newline # r) = (l @ [newline]) # fgets_lines n r"
proof -
  have tw: "takeWhile (\<lambda>c. c \<noteq> newline) (l @ newline # r) = l"
    using assms(1) by (intro takeWhile_stop) auto
  have len: "fgets_len n (l @ newline # r) = length l + 1"
    using assms(3) tw by (simp add: fgets_len_def)
  have "cstr (l @ [newline]) = l @ [newline]"
    using assms(2) by (intro cstr_id) (auto simp: newline_def NUL_def)
  then show ?thesis using assms(3) by (subst fgets_lines.simps) (simp add: len)
qed

end
