(* ===== verification/Macros.thy ===== *)
theory Macros
  imports CLib
begin

text \<open>
  The sizes of \<open>src/macros/macros.h\<close> and the two address-string sizes of
  \<open><netinet/in.h>\<close> that the buffers of the program are declared with, and the addresses
  \<open>ip:port\<close> that fit these buffers.
\<close>

definition MAX_BUFFER :: nat where [simp]: "MAX_BUFFER = 256"
definition MAX_NAME_LENGTH :: nat where [simp]: "MAX_NAME_LENGTH = 61"
definition MAX_COORDINATE :: nat where [simp]: "MAX_COORDINATE = 11"
definition MAX_TIMESTRING :: nat where [simp]: "MAX_TIMESTRING = 6"
definition MAX_PORT :: nat where [simp]: "MAX_PORT = 8"
definition BACKLOG :: nat where [simp]: "BACKLOG = 10"
definition MAXDATASIZE :: nat where [simp]: "MAXDATASIZE = 1024"
definition INET6_ADDRSTRLEN :: nat where [simp]: "INET6_ADDRSTRLEN = 46"
definition INET_ADDRSTRLEN :: nat where [simp]: "INET_ADDRSTRLEN = 16"

text \<open>The buffer of one address of a payload (\<open>payload.c\<close>): \<open>ip:port\<close> and its NUL.\<close>

definition ADDRESS_LENGTH :: nat where
  [simp]: "ADDRESS_LENGTH = MAX_PORT + INET6_ADDRSTRLEN + 1"

text \<open>An address \<open>ip:port\<close> whose parts fit the buffers of the caller.\<close>

definition ip_ok :: "string \<Rightarrow> bool" where
  "ip_ok ip \<longleftrightarrow> ip \<noteq> [] \<and> length ip < INET6_ADDRSTRLEN \<and> CHR '':'' \<notin> set ip \<and> list_all (\<lambda>c. \<not> isspace c) ip"

definition port_ok :: "string \<Rightarrow> bool" where
  "port_ok port \<longleftrightarrow> port \<noteq> [] \<and> length port < MAX_PORT \<and> list_all (\<lambda>c. \<not> isspace c) port"

lemma takeWhile_colon:
  "CHR '':'' \<notin> set ip \<Longrightarrow> takeWhile (\<lambda>c. c \<noteq> CHR '':'') (ip @ CHR '':'' # r) = ip"
  by (intro takeWhile_stop) auto

lemma skip_nonspace: "list_all (\<lambda>c. \<not> isspace c) s \<Longrightarrow> dropWhile isspace s = s"
  by (cases s) auto

lemma take_nonspace: "list_all (\<lambda>c. \<not> isspace c) s \<Longrightarrow> takeWhile (\<lambda>c. \<not> isspace c) s = s"
  by (auto simp: list_all_iff intro: takeWhile_all)

end
