(* ===== verification/Payload.thy ===== *)
theory Payload
  imports Macros
begin

text \<open>
  \<open>src/payload/payload.h\<close> and \<open>payload.c\<close>: the message the stations exchange, as the C structure
  with its four heap-allocated arrays (\<open>payload\<close>), and the operations on it.

  \<^item> \<open>craft_payload\<close> prints the structure into a buffer whose size the code computes from \<open>hops\<close>;
    \<open>load_payload\<close> parses a datagram back; \<open>get_ip_port\<close> splits one address; \<open>print_payload\<close> is
    the dump on the terminal.
  \<^item> \<open>msg\<close> is the abstract message: the same data with plain lists of strings and no memory.
    \<open>denotes p m\<close> says that the structure \<open>p\<close> holds the message \<open>m\<close>; \<open>wire m\<close> is its text.
  \<^item> The locale \<open>payload_codec\<close> is what the stations rely on: a crafted message is the text of what
    it denotes, and loading the text of a well-formed message gives it back. It is interpreted on
    \<open>craft_payload\<close> and \<open>load_payload\<close>.

  Assumed of the environment: \<open>malloc\<close> of a non-negative size succeeds, and of a negative
  \<open>int\<close>, a huge \<open>size_t\<close>, returns NULL.
\<close>

section \<open>The structure\<close>

record payload =
  found :: int
  hops :: int
  current :: "int option"      \<comment> \<open>\<open>None\<close> while the field has not been assigned\<close>
  stations :: "string cells"
  address :: "string cells"
  routes :: "string cells"
  time :: "string cells"
  destination :: string
  source :: string
  start_time :: string

definition rd_current :: "payload \<Rightarrow> int res" where
  "rd_current p = (case current p of None \<Rightarrow> Inl Uninit | Some c \<Rightarrow> Inr c)"

section \<open>craft\_payload\<close>

text \<open>The size passed to \<open>malloc\<close>, computed in \<open>int\<close>.\<close>

definition hop_alloc :: int where
  "hop_alloc = int (MAX_NAME_LENGTH + MAX_PORT + INET6_ADDRSTRLEN + 1 + MAX_TIMESTRING + MAX_NAME_LENGTH)"

definition craft_alloc :: "int \<Rightarrow> int" where
  "craft_alloc h = h * hop_alloc + 2 * int MAX_NAME_LENGTH + int MAX_TIMESTRING"

text \<open>One of the four loops: \<open>strcat(payload, " "); strcat(payload, xs[i]);\<close>.\<close>

definition strcat_field :: "nat \<Rightarrow> string cells \<Rightarrow> int \<Rightarrow> string \<Rightarrow> string res" where
  "strcat_field cap xs i b =
     bindR (fit cap (b @ '' '')) (\<lambda>b. bindR (rd_cell xs i) (\<lambda>x. fit cap (b @ x)))"

definition strcat_fields :: "nat \<Rightarrow> string cells \<Rightarrow> int \<Rightarrow> string \<Rightarrow> string res" where
  "strcat_fields cap xs n b = foldR (strcat_field cap xs) (map int [0..<nat n]) b"

definition strcat_last :: "nat \<Rightarrow> string \<Rightarrow> string \<Rightarrow> string res" where
  "strcat_last cap x b = bindR (fit cap (b @ '' '')) (\<lambda>b. fit cap (b @ x))"

definition craft_payload :: "payload \<Rightarrow> string res" where
  "craft_payload p =
     bindR (c_int (hops p * hop_alloc)) (\<lambda>_.
     bindR (c_int (craft_alloc (hops p))) (\<lambda>n.
     bindR (checkR (0 \<le> n) NullDeref) (\<lambda>_.
     let cap = nat n in
     bindR (rd_current p) (\<lambda>cur.
     bindR (fit cap (dec (found p) @ '' '' @ dec (hops p) @ '' '' @ dec cur)) (\<lambda>b.
     bindR (strcat_fields cap (stations p) (hops p) b) (\<lambda>b.
     bindR (strcat_fields cap (address p) (hops p) b) (\<lambda>b.
     bindR (strcat_fields cap (routes p) (hops p) b) (\<lambda>b.
     bindR (strcat_fields cap (time p) (hops p) b) (\<lambda>b.
     bindR (strcat_last cap (destination p) b) (\<lambda>b.
     bindR (strcat_last cap (source p) b) (\<lambda>b.
     bindR (strcat_last cap (start_time p) b) (\<lambda>b.
     fit cap (b @ '';'')))))))))))))"

section \<open>load\_payload\<close>

text \<open>\<open>token = strtok(NULL, d); strcpy(dest, token);\<close>: a null token is dereferenced.\<close>

definition next_token :: "string \<Rightarrow> string \<Rightarrow> (string \<times> string) res" where
  "next_token d rest =
     (case strtok d rest of (None, _) \<Rightarrow> Inl NullDeref | (Some t, r) \<Rightarrow> Inr (t, r))"

definition load_field :: "nat \<Rightarrow> int \<Rightarrow> string cells \<times> string \<Rightarrow> (string cells \<times> string) res" where
  "load_field cap i st =
     bindR (next_token '' '' (snd st)) (\<lambda>(t, r).
     bindR (wr_cell cap (fst st) i t) (\<lambda>xs. Inr (xs, r)))"

definition load_fields :: "nat \<Rightarrow> int \<Rightarrow> string cells \<times> string \<Rightarrow> (string cells \<times> string) res" where
  "load_fields cap n st = foldR (load_field cap) (map int [0..<nat n]) st"

definition load_last :: "nat \<Rightarrow> string \<Rightarrow> string \<Rightarrow> (string \<times> string) res" where
  "load_last cap d rest =
     bindR (next_token d rest) (\<lambda>(t, r). bindR (fit cap t) (\<lambda>t. Inr (t, r)))"

text \<open>\<open>sscanf(payload_copy, "%d %d %d", \<dots>)\<close>: the code reads \<open>found\<close> and \<open>hops\<close> at once.\<close>

definition load_header :: "string \<Rightarrow> (int \<times> int \<times> int option) res" where
  "load_header s =
     bindR (sscanf [IntD, Ws, IntD, Ws, IntD] s) (\<lambda>vs.
     case vs of
       [SInt f, SInt h] \<Rightarrow> Inr (f, h, None)
     | [SInt f, SInt h, SInt c] \<Rightarrow> Inr (f, h, Some c)
     | _ \<Rightarrow> Inl Uninit)"

definition load_payload :: "string \<Rightarrow> payload res" where
  "load_payload s =
     bindR (load_header s) (\<lambda>(f, h, c).
     bindR (if f = 0 then c_int (h + 1) else Inr h) (\<lambda>n.
     let fresh = replicate (nat n) None;
         rest = snd (strtok '' '' (snd (strtok '' '' (snd (strtok '' '' s))))) in
     bindR (load_fields MAX_NAME_LENGTH h (fresh, rest)) (\<lambda>(sts, rest).
     bindR (load_fields ADDRESS_LENGTH h (fresh, rest)) (\<lambda>(ads, rest).
     bindR (load_fields MAX_NAME_LENGTH h (fresh, rest)) (\<lambda>(rts, rest).
     bindR (load_fields MAX_TIMESTRING h (fresh, rest)) (\<lambda>(tms, rest).
     bindR (load_last MAX_NAME_LENGTH '' '' rest) (\<lambda>(dst, rest).
     bindR (load_last MAX_NAME_LENGTH '' '' rest) (\<lambda>(src, rest).
     bindR (load_last MAX_TIMESTRING '';'' rest) (\<lambda>(st, rest).
     Inr \<lparr>found = f, hops = h, current = c, stations = sts, address = ads, routes = rts,
          time = tms, destination = dst, source = src, start_time = st\<rparr>)))))))))"

section \<open>get\_ip\_port and print\_payload\<close>

text \<open>
  The two output buffers are the caller's: a component the scan did not reach stays unassigned
  (\<open>None\<close>).
\<close>

definition get_ip_port :: "payload \<Rightarrow> int \<Rightarrow> (string option \<times> string option) res" where
  "get_ip_port p which =
     bindR (c_int (which - 1)) (\<lambda>i.
     bindR (rd_cell (address p) i) (\<lambda>a.
     bindR (sscanf [Scanset (Some 45) (\<lambda>c. c \<noteq> CHR '':''), Lit CHR '':'', StrD] a) (\<lambda>vs.
     case vs of
       [SStr ip] \<Rightarrow> bindR (fit INET6_ADDRSTRLEN ip) (\<lambda>ip. Inr (Some ip, None))
     | [SStr ip, SStr port] \<Rightarrow>
         bindR (fit INET6_ADDRSTRLEN ip) (\<lambda>ip.
         bindR (fit MAX_PORT port) (\<lambda>port. Inr (Some ip, Some port)))
     | _ \<Rightarrow> Inr (None, None))))"

definition print_hop :: "payload \<Rightarrow> int \<Rightarrow> string \<Rightarrow> string res" where
  "print_hop p i out =
     bindR (rd_cell (stations p) i) (\<lambda>s.
     bindR (rd_cell (address p) i) (\<lambda>a.
     bindR (rd_cell (routes p) i) (\<lambda>r.
     bindR (rd_cell (time p) i) (\<lambda>t.
     Inr (out @ s @ '' '' @ a @ '' '' @ r @ '' '' @ t @ '' '' @ [newline])))))"

definition print_payload :: "payload \<Rightarrow> string res" where
  "print_payload p =
     bindR (rd_current p) (\<lambda>cur.
     bindR (foldR (print_hop p) (map int [0..<nat (hops p)])
              (''Found: '' @ dec (found p) @ [newline] @ ''Current: '' @ dec cur @ [newline]
               @ ''Number of stations traversed: '' @ dec (hops p) @ [newline])) (\<lambda>out.
     Inr (out @ ''Destination: '' @ destination p @ [newline] @ ''Source: '' @ source p @ [newline]
          @ ''Starting time: '' @ start_time p @ [newline, newline])))"

section \<open>Abstract messages\<close>

record msg =
  m_found :: int
  m_current :: int
  m_stations :: "string list"
  m_address :: "string list"
  m_routes :: "string list"
  m_time :: "string list"
  m_destination :: string
  m_source :: string
  m_start_time :: string

definition m_hops :: "msg \<Rightarrow> nat" where
  "m_hops m = length (m_stations m)"

text \<open>A token \<open>strtok\<close> reads back, and the capacity of each buffer.\<close>

definition token :: "nat \<Rightarrow> string \<Rightarrow> bool" where
  "token cap t \<longleftrightarrow> t \<noteq> [] \<and> length t < cap \<and> CHR '' '' \<notin> set t \<and> NUL \<notin> set t"

definition tokens :: "nat \<Rightarrow> nat \<Rightarrow> string list \<Rightarrow> bool" where
  "tokens cap n ts \<longleftrightarrow> length ts = n \<and> list_all (token cap) ts"

definition wf_msg :: "msg \<Rightarrow> bool" where
  "wf_msg m \<longleftrightarrow>
     in_int (m_found m) \<and> in_int (m_current m) \<and> in_int (int (m_hops m)) \<and>
     (m_found m = 0 \<longrightarrow> in_int (int (m_hops m) + 1)) \<and>
     tokens MAX_NAME_LENGTH (m_hops m) (m_stations m) \<and>
     tokens ADDRESS_LENGTH (m_hops m) (m_address m) \<and>
     tokens MAX_NAME_LENGTH (m_hops m) (m_routes m) \<and>
     tokens MAX_TIMESTRING (m_hops m) (m_time m) \<and>
     token MAX_NAME_LENGTH (m_destination m) \<and> token MAX_NAME_LENGTH (m_source m) \<and>
     m_start_time m \<noteq> [] \<and> length (m_start_time m) < MAX_TIMESTRING \<and>
     CHR '';'' \<notin> set (m_start_time m) \<and> NUL \<notin> set (m_start_time m)"

definition spaced :: "string list \<Rightarrow> string" where
  "spaced ts = concat (map (\<lambda>t. '' '' @ t) ts)"

definition wire :: "msg \<Rightarrow> string" where
  "wire m = dec (m_found m) @ '' '' @ dec (int (m_hops m)) @ '' '' @ dec (m_current m) @
     spaced (m_stations m) @ spaced (m_address m) @ spaced (m_routes m) @ spaced (m_time m) @
     spaced [m_destination m, m_source m, m_start_time m] @ '';''"

text \<open>The structure \<open>p\<close> holds the message \<open>m\<close>: its arrays begin with the strings of \<open>m\<close>.\<close>

definition holds :: "string cells \<Rightarrow> string list \<Rightarrow> bool" where
  "holds xs ts \<longleftrightarrow> take (length ts) xs = map Some ts"

definition denotes :: "payload \<Rightarrow> msg \<Rightarrow> bool" where
  "denotes p m \<longleftrightarrow>
     found p = m_found m \<and> hops p = int (m_hops m) \<and> current p = Some (m_current m) \<and>
     length (m_address m) = m_hops m \<and> length (m_routes m) = m_hops m \<and>
     length (m_time m) = m_hops m \<and>
     holds (stations p) (m_stations m) \<and> holds (address p) (m_address m) \<and>
     holds (routes p) (m_routes m) \<and> holds (time p) (m_time m) \<and>
     destination p = m_destination m \<and> source p = m_source m \<and> start_time p = m_start_time m"

text \<open>
  \<open>mem e m\<close>: the structure that holds \<open>m\<close> with the cells \<open>e\<close> beyond its hops; \<open>struct_of m\<close> is
  what \<open>load_payload\<close> builds, one spare cell while the destination is not found.
\<close>

definition mem :: "string cells \<Rightarrow> msg \<Rightarrow> payload" where
  "mem e m =
     \<lparr>found = m_found m, hops = int (m_hops m), current = Some (m_current m),
      stations = map Some (m_stations m) @ e, address = map Some (m_address m) @ e,
      routes = map Some (m_routes m) @ e, time = map Some (m_time m) @ e,
      destination = m_destination m, source = m_source m, start_time = m_start_time m\<rparr>"

definition spare :: "int \<Rightarrow> string cells" where
  "spare f = (if f = 0 then [None] else [])"

definition struct_of :: "msg \<Rightarrow> payload" where
  "struct_of m = mem (spare (m_found m)) m"

lemma holds_append [simp]: "holds (map Some ts @ e) ts"
  by (simp add: holds_def)

lemma holds_exact [simp]: "holds (map Some ts) ts"
  by (simp add: holds_def)

lemma holdsE:
  assumes "holds xs ts"
  obtains e where "xs = map Some ts @ e"
  using assms unfolding holds_def by (metis append_take_drop_id)

lemma holds_unique: "holds xs ts \<Longrightarrow> holds xs us \<Longrightarrow> length ts = length us \<Longrightarrow> ts = us"
  unfolding holds_def by (metis list.inj_map_strong option.inject)

lemma denotes_struct_of:
  "wf_msg m \<Longrightarrow> denotes (struct_of m) m"
  by (simp add: denotes_def struct_of_def mem_def wf_msg_def tokens_def)

lemma denotes_unique:
  assumes "denotes p m" and "denotes p m'"
  shows "m = m'"
proof -
  have n: "m_hops m = m_hops m'" using assms by (simp add: denotes_def)
  then have "m_stations m = m_stations m'" "m_address m = m_address m'"
    "m_routes m = m_routes m'" "m_time m = m_time m'"
    using assms by (auto simp: denotes_def m_hops_def intro: holds_unique)
  with assms show ?thesis by (simp add: denotes_def)
qed

section \<open>Crafting prints the wire text, exactly when it fits\<close>

lemma length_spaced: "length (spaced ts) = length (concat ts) + length ts"
  by (induction ts) (auto simp: spaced_def)

lemma spaced_Nil [simp]: "spaced [] = []"
  by (simp add: spaced_def)

lemma spaced_Cons: "spaced (t # ts) = CHR '' '' # t @ spaced ts"
  by (simp add: spaced_def)

lemma spaced_append: "spaced (ts @ us) = spaced ts @ spaced us"
  by (simp add: spaced_def)

text \<open>
  Every append of \<open>craft_payload\<close> is \<open>append_fit\<close>: extend the string, provided it still fits. A
  run of them is a single one.
\<close>

definition append_fit :: "nat \<Rightarrow> string \<Rightarrow> string \<Rightarrow> string res" where
  "append_fit cap r b = fit cap (b @ r)"

lemma append_fit_bind:
  assumes "\<And>b. length b < cap \<Longrightarrow> g b = append_fit cap r' b"
  shows "bindR (append_fit cap r b) g = append_fit cap (r @ r') b"
  using assms by (auto simp: append_fit_def fit_def)

lemma append_fit_step:
  assumes "\<And>b. length b < cap \<Longrightarrow> g b = append_fit cap r' b"
  shows "bindR (append_fit cap r b) (\<lambda>b. bindR (g b) K) = bindR (append_fit cap (r @ r') b) K"
  using append_fit_bind [OF assms, of r b] by (simp add: bindR_assoc [symmetric])

lemma strcat_field_eq:
  assumes "k < length ts"
  shows "strcat_field cap (map Some ts @ e) (int k) b = append_fit cap (spaced [ts ! k]) b"
  using assms by (auto simp: strcat_field_def append_fit_def rd_cell_map fit_def spaced_Cons)

lemma strcat_fields_prefix:
  assumes xs: "xs = map Some ts @ e" and "k \<le> length ts" and b: "length b < cap"
  shows "foldR (strcat_field cap xs) (map int [0..<k]) b = append_fit cap (spaced (take k ts)) b"
  using assms(2)
proof (induction k)
  case 0
  then show ?case using b by (simp add: append_fit_def fit_def)
next
  case (Suc k)
  then have k: "k < length ts" and IH: "foldR (strcat_field cap xs) (map int [0..<k]) b
      = append_fit cap (spaced (take k ts)) b" by simp_all
  have "foldR (strcat_field cap xs) (map int [0..<Suc k]) b
        = bindR (append_fit cap (spaced (take k ts)) b) (strcat_field cap xs (int k))"
    by (simp add: foldR_append IH)
  also have "\<dots> = append_fit cap (spaced (take k ts) @ spaced [ts ! k]) b"
    by (rule append_fit_bind) (simp add: xs strcat_field_eq k)
  finally show ?case using k by (simp add: take_Suc_conv_app_nth spaced_append)
qed

lemma strcat_fields_eq:
  assumes "holds xs ts" and "n = int (length ts)" and "length b < cap"
  shows "strcat_fields cap xs n b = append_fit cap (spaced ts) b"
  using assms strcat_fields_prefix [of _ ts _ "length ts" b cap]
  by (auto simp: strcat_fields_def elim: holdsE)

lemma strcat_last_eq: "strcat_last cap x b = append_fit cap (spaced [x]) b"
  by (auto simp: strcat_last_def append_fit_def fit_def spaced_Cons)

lemma craft_alloc_eq: "craft_alloc h = 183 * h + 128" "hop_alloc = 183"
  by (simp_all add: craft_alloc_def hop_alloc_def)

lemma craft_payload_fit:
  assumes d: "denotes p m" and a: "in_int (craft_alloc (int (m_hops m)))"
  shows "craft_payload p = fit (nat (craft_alloc (int (m_hops m)))) (wire m)"
proof -
  define cap where "cap = nat (craft_alloc (int (m_hops m)))"
  have h: "hops p = int (m_hops m)" using d by (simp add: denotes_def)
  have c: "c_int (int (m_hops m) * hop_alloc) = Inr (int (m_hops m) * hop_alloc)"
    "c_int (craft_alloc (int (m_hops m))) = Inr (craft_alloc (int (m_hops m)))"
    "0 \<le> craft_alloc (int (m_hops m))"
    using a by (simp_all add: c_int_def in_int_def craft_alloc_eq)
  have cur: "rd_current p = Inr (m_current m)" using d by (simp add: rd_current_def denotes_def)
  have loops:
    "length b < cap \<Longrightarrow> strcat_fields cap (stations p) (int (m_hops m)) b = append_fit cap (spaced (m_stations m)) b"
    "length b < cap \<Longrightarrow> strcat_fields cap (address p) (int (m_hops m)) b = append_fit cap (spaced (m_address m)) b"
    "length b < cap \<Longrightarrow> strcat_fields cap (routes p) (int (m_hops m)) b = append_fit cap (spaced (m_routes m)) b"
    "length b < cap \<Longrightarrow> strcat_fields cap (time p) (int (m_hops m)) b = append_fit cap (spaced (m_time m)) b" for b
    using d by (simp_all add: strcat_fields_eq denotes_def m_hops_def)
  have start: "fit cap s = append_fit cap s []" and stop: "fit cap (b @ '';'') = append_fit cap '';'' b" for s b
    by (simp_all add: append_fit_def)
  have strs: "destination p = m_destination m" "source p = m_source m" "start_time p = m_start_time m"
    "found p = m_found m"
    using d by (simp_all add: denotes_def)
  have "craft_payload p = append_fit cap (wire m) []"
    unfolding craft_payload_def h c cur strs strcat_last_eq Let_def bindR_Inr
    unfolding cap_def [symmetric] stop
    by (simp add: c start append_fit_step [OF loops(1)] append_fit_step [OF loops(2)]
        append_fit_step [OF loops(3)] append_fit_step [OF loops(4)] append_fit_step [OF refl]
        append_fit_bind [OF refl] wire_def spaced_Cons)
  then show ?thesis by (simp add: append_fit_def cap_def)
qed

lemma craft_payload_Inr_iff:
  assumes "denotes p m" and "in_int (craft_alloc (int (m_hops m)))"
  shows "craft_payload p = Inr s \<longleftrightarrow>
           s = wire m \<and> int (length (wire m)) < craft_alloc (int (m_hops m))"
  using craft_payload_fit [OF assms] by (auto simp: fit_Inr_iff)

section \<open>Loading the wire text of a well-formed message\<close>

definition trailing :: "string list \<Rightarrow> string" where
  "trailing ts = concat (map (\<lambda>t. t @ '' '') ts)"

lemma spaced_trailing: "spaced ts @ CHR '' '' # r = CHR '' '' # trailing ts @ r"
  by (induction ts) (auto simp: trailing_def spaced_Cons)

lemma next_token_ok: "token cap t \<Longrightarrow> next_token '' '' (t @ CHR '' '' # r) = Inr (t, r)"
  unfolding next_token_def by (subst strtok_token) (auto simp: token_def)

lemma load_fields_prefix:
  assumes "tokens cap n ts" and "k \<le> n"
  shows "foldR (load_field cap) (map int [0..<k]) (replicate n None @ e, trailing (take k ts) @ r)
         = Inr (map Some (take k ts) @ replicate (n - k) None @ e, r)"
  using assms(2)
proof (induction k arbitrary: r)
  case 0
  then show ?case by (simp add: trailing_def)
next
  case (Suc k)
  let ?t = "ts ! k" and ?xs = "map Some (take k ts) @ replicate (n - k) None @ e"
  have k: "k < n" "length ts = n" and t: "token cap ?t"
    using Suc.prems assms(1) by (auto simp: tokens_def list_all_length)
  have split: "trailing (take (Suc k) ts) @ r = trailing (take k ts) @ (?t @ CHR '' '' # r)"
    using k by (simp add: take_Suc_conv_app_nth trailing_def)
  have upd: "?xs[k := Some ?t] = map Some (take (Suc k) ts) @ replicate (n - Suc k) None @ e"
    using k by (simp add: list_update_append take_Suc_conv_app_nth Suc_diff_Suc [symmetric])
  have "load_field cap (int k) (?xs, ?t @ CHR '' '' # r) = Inr (?xs[k := Some ?t], r)"
    using k t by (simp add: load_field_def next_token_ok [OF t] wr_cell_def fit_def token_def)
  moreover have "foldR (load_field cap) (map int [0..<k])
      (replicate n None @ e, trailing (take (Suc k) ts) @ r) = Inr (?xs, ?t @ CHR '' '' # r)"
    unfolding split using Suc by simp
  ultimately show ?case by (simp add: foldR_append upd)
qed

lemma load_fields_ok:
  assumes "tokens cap n ts"
  shows "load_fields cap (int n) (replicate n None @ e, trailing ts @ r) = Inr (map Some ts @ e, r)"
  using load_fields_prefix [OF assms, of n e r] assms by (simp add: load_fields_def tokens_def)

lemma load_last_ok:
  assumes "token cap t"
  shows "load_last cap '' '' (t @ CHR '' '' # r) = Inr (t, r)"
  using assms by (simp add: load_last_def next_token_ok [OF assms] fit_def token_def)

lemma load_last_end:
  assumes "t \<noteq> []" and "length t < cap" and "CHR '';'' \<notin> set t"
  shows "load_last cap '';'' (t @ '';'') = Inr (t, [])"
proof -
  have "strtok '';'' (t @ CHR '';'' # []) = (Some t, [])"
    using assms by (intro strtok_token) auto
  with assms show ?thesis by (simp add: load_last_def next_token_def fit_def)
qed

definition wire_body :: "msg \<Rightarrow> string" where
  "wire_body m = trailing (m_stations m) @ trailing (m_address m) @ trailing (m_routes m) @
     trailing (m_time m) @ m_destination m @ '' '' @ m_source m @ '' '' @ m_start_time m @ '';''"

lemma wire_split:
  "wire m = dec (m_found m) @ CHR '' '' # dec (int (m_hops m)) @ CHR '' '' # dec (m_current m) @
     CHR '' '' # wire_body m"
  by (simp add: wire_def wire_body_def spaced_trailing spaced_Cons)

lemma load_header_wire:
  assumes "wf_msg m"
  shows "load_header (wire m) = Inr (m_found m, int (m_hops m), Some (m_current m))"
proof -
  have nd: "\<not> isdigit CHR '' ''" by (simp add: isdigit_iff)
  show ?thesis using assms
    by (simp add: load_header_def wire_split sscanf_int sscanf_space_dec nd wf_msg_def
        del: sscanf.simps(3-6))
qed

lemma skip_number: "snd (strtok '' '' (dec n @ CHR '' '' # r)) = r"
  by (subst strtok_token) (auto dest: dec_not_space simp: isspace_def)

lemma load_wire:
  assumes wf: "wf_msg m"
  shows "load_payload (wire m) = Inr (struct_of m)"
proof -
  let ?n = "m_hops m" and ?f = "m_found m"
  let ?fresh = "replicate ?n None @ spare ?f"
  have rest: "snd (strtok '' '' (snd (strtok '' '' (snd (strtok '' '' (wire m)))))) = wire_body m"
    by (simp add: wire_split skip_number)
  have alloc: "(if ?f = 0 then c_int (int ?n + 1) else Inr (int ?n)) = Inr (int ?n + (if ?f = 0 then 1 else 0))"
    using wf by (simp add: wf_msg_def c_int_ok)
  have fresh: "replicate (nat (int ?n + (if ?f = 0 then 1 else 0))) None = ?fresh"
    by (auto simp: spare_def nat_add_distrib replicate_append_same)
  have fields:
    "load_fields MAX_NAME_LENGTH (int ?n) (?fresh, trailing (m_stations m) @ r) = Inr (map Some (m_stations m) @ spare ?f, r)"
    "load_fields ADDRESS_LENGTH (int ?n) (?fresh, trailing (m_address m) @ r) = Inr (map Some (m_address m) @ spare ?f, r)"
    "load_fields MAX_NAME_LENGTH (int ?n) (?fresh, trailing (m_routes m) @ r) = Inr (map Some (m_routes m) @ spare ?f, r)"
    "load_fields MAX_TIMESTRING (int ?n) (?fresh, trailing (m_time m) @ r) = Inr (map Some (m_time m) @ spare ?f, r)" for r
    using wf unfolding wf_msg_def by (blast intro: load_fields_ok)+
  have lasts:
    "load_last MAX_NAME_LENGTH '' '' (m_destination m @ CHR '' '' # r) = Inr (m_destination m, r)"
    "load_last MAX_NAME_LENGTH '' '' (m_source m @ CHR '' '' # r) = Inr (m_source m, r)"
    "load_last MAX_TIMESTRING '';'' (m_start_time m @ '';'') = Inr (m_start_time m, [])" for r
    using wf unfolding wf_msg_def by (blast intro: load_last_ok load_last_end)+
  show ?thesis
    unfolding load_payload_def load_header_wire [OF wf] bindR_Inr prod.case alloc rest Let_def fresh
    by (simp add: wire_body_def fields lasts struct_of_def mem_def del: MAX_NAME_LENGTH_def ADDRESS_LENGTH_def
        MAX_TIMESTRING_def)
qed

section \<open>Everything load\_payload returns is a well-formed message\<close>

lemma next_token_Inr:
  assumes "next_token d rest = Inr (t, r)"
  shows "t \<noteq> []" and "set t \<subseteq> set rest" and "set r \<subseteq> set rest" and "c \<in> set d \<Longrightarrow> c \<notin> set t"
  using assms set_strtok [of d rest] strtok_nonempty [of d rest] strtok_no_delim [of d rest]
  by (auto simp: next_token_def split: prod.splits option.splits)

lemma load_field_Inr:
  assumes "load_field cap i (xs, rest) = Inr (ys, r)" and "NUL \<notin> set rest"
  obtains t where "token cap t" and "0 \<le> i" and "i < int (length xs)"
    and "ys = xs[nat i := Some t]" and "set r \<subseteq> set rest"
proof -
  from assms(1) obtain t where t: "next_token '' '' rest = Inr (t, r)"
    and w: "wr_cell cap xs i t = Inr ys"
    by (auto simp: load_field_def elim!: bindR_InrE)
  have "t \<noteq> []" "CHR '' '' \<notin> set t" "NUL \<notin> set t" "set r \<subseteq> set rest"
    using next_token_Inr [OF t] next_token_Inr(4) [OF t, of "CHR '' ''"] assms(2) by auto
  with w that show ?thesis by (auto simp: wr_cell_Inr_iff token_def)
qed

lemma load_fields_Inr_prefix:
  assumes "foldR (load_field cap) (map int [0..<k]) (replicate n None, rest) = Inr (xs, r)"
    and "NUL \<notin> set rest"
  shows "k \<le> n \<and> (\<exists>ts. tokens cap k ts \<and> xs = map Some ts @ replicate (n - k) None) \<and> set r \<subseteq> set rest"
  using assms(1)
proof (induction k arbitrary: xs r)
  case 0
  then show ?case by (simp add: tokens_def)
next
  case (Suc k)
  from Suc.prems obtain ys r' where
    1: "foldR (load_field cap) (map int [0..<k]) (replicate n None, rest) = Inr (ys, r')" and
    2: "load_field cap (int k) (ys, r') = Inr (xs, r)"
    by (auto simp: foldR_append bindR_Inr_iff)
  from Suc.IH [OF 1] obtain ts where
    ts: "tokens cap k ts" "ys = map Some ts @ replicate (n - k) None" and k: "k \<le> n" "set r' \<subseteq> set rest"
    by auto
  have "NUL \<notin> set r'" using k(2) assms(2) by auto
  with 2 obtain t where t: "token cap t" "int k < int (length ys)" "xs = ys[k := Some t]" "set r \<subseteq> set r'"
    by (auto elim!: load_field_Inr)
  have len: "length ts = k" "k < n" using ts t(2) k(1) by (auto simp: tokens_def)
  have "xs = map Some (ts @ [t]) @ replicate (n - Suc k) None"
    using t(3) len by (simp add: ts(2) list_update_append Suc_diff_Suc [symmetric])
  moreover have "tokens cap (Suc k) (ts @ [t])" using ts(1) t(1) by (simp add: tokens_def)
  ultimately show ?case
    using len t(4) k(2) by (intro conjI exI [of _ "ts @ [t]"]) auto
qed

lemma load_fields_Inr:
  assumes "load_fields cap h (replicate n None, rest) = Inr (xs, r)" and "NUL \<notin> set rest"
  obtains ts where "tokens cap (nat h) ts" and "xs = map Some ts @ replicate (n - nat h) None"
    and "NUL \<notin> set r"
  using load_fields_Inr_prefix [of cap "nat h" n rest xs r] assms by (auto simp: load_fields_def)

lemma load_last_Inr:
  assumes "load_last cap d rest = Inr (t, r)" and "NUL \<notin> set rest"
  shows "t \<noteq> []" and "length t < cap" and "NUL \<notin> set t" and "NUL \<notin> set r"
    and "c \<in> set d \<Longrightarrow> c \<notin> set t"
proof -
  from assms(1) have n: "next_token d rest = Inr (t, r)" and "length t < cap"
    by (auto simp: load_last_def fit_Inr_iff elim!: bindR_InrE)
  then show "t \<noteq> []" "length t < cap" "NUL \<notin> set t" "NUL \<notin> set r" "c \<in> set d \<Longrightarrow> c \<notin> set t"
    using next_token_Inr [OF n] assms(2) by auto
qed

lemma load_header_in_int:
  assumes "load_header s = Inr (f, h, c)"
  shows "in_int f" and "in_int h" and "c = Some k \<Longrightarrow> in_int k"
  using assms unfolding load_header_def
  by (auto elim!: bindR_InrE simp: c_int_Inr_iff
      split: option.splits prod.splits list.splits scanned.splits)

lemma NUL_strtok: "NUL \<notin> set s \<Longrightarrow> NUL \<notin> set (snd (strtok d s))"
  using set_strtok [of d s "fst (strtok d s)" "snd (strtok d s)"] by auto

lemma load_payload_InrE:
  assumes "load_payload s = Inr p"
  obtains n sts r1 ads r2 rts r3 tms r4 r5 r6 r7 where
    "load_header s = Inr (found p, hops p, current p)" and
    "(if found p = 0 then c_int (hops p + 1) else Inr (hops p)) = Inr n" and
    "load_fields MAX_NAME_LENGTH (hops p) (replicate (nat n) None,
       snd (strtok '' '' (snd (strtok '' '' (snd (strtok '' '' s)))))) = Inr (stations p, r1)" and
    "load_fields ADDRESS_LENGTH (hops p) (replicate (nat n) None, r1) = Inr (address p, r2)" and
    "load_fields MAX_NAME_LENGTH (hops p) (replicate (nat n) None, r2) = Inr (routes p, r3)" and
    "load_fields MAX_TIMESTRING (hops p) (replicate (nat n) None, r3) = Inr (time p, r4)" and
    "load_last MAX_NAME_LENGTH '' '' r4 = Inr (destination p, r5)" and
    "load_last MAX_NAME_LENGTH '' '' r5 = Inr (source p, r6)" and
    "load_last MAX_TIMESTRING '';'' r6 = Inr (start_time p, r7)"
proof -
  from assms obtain f h c n sts r1 ads r2 rts r3 tms r4 dst r5 src r6 st r7 where
    "load_header s = Inr (f, h, c)" "(if f = 0 then c_int (h + 1) else Inr h) = Inr n"
    "load_fields MAX_NAME_LENGTH h (replicate (nat n) None,
       snd (strtok '' '' (snd (strtok '' '' (snd (strtok '' '' s)))))) = Inr (sts, r1)"
    "load_fields ADDRESS_LENGTH h (replicate (nat n) None, r1) = Inr (ads, r2)"
    "load_fields MAX_NAME_LENGTH h (replicate (nat n) None, r2) = Inr (rts, r3)"
    "load_fields MAX_TIMESTRING h (replicate (nat n) None, r3) = Inr (tms, r4)"
    "load_last MAX_NAME_LENGTH '' '' r4 = Inr (dst, r5)"
    "load_last MAX_NAME_LENGTH '' '' r5 = Inr (src, r6)"
    "load_last MAX_TIMESTRING '';'' r6 = Inr (st, r7)"
    "p = \<lparr>found = f, hops = h, current = c, stations = sts, address = ads, routes = rts,
          time = tms, destination = dst, source = src, start_time = st\<rparr>"
    unfolding load_payload_def Let_def
    by (auto simp del: MAX_NAME_LENGTH_def ADDRESS_LENGTH_def MAX_TIMESTRING_def elim!: bindR_InrE)
  then show thesis by (intro that) (simp_all split: if_splits)
qed

text \<open>One array, its spare cell included.\<close>

lemma load_array_Inr:
  assumes "load_fields cap h (replicate (nat n) None, rest) = Inr (xs, r)" and "NUL \<notin> set rest"
    and "(if f = 0 then c_int (h + 1) else Inr h) = Inr n" and "0 \<le> h"
  obtains ts where "tokens cap (nat h) ts" and "xs = map Some ts @ spare f" and "NUL \<notin> set r"
proof -
  have "replicate (nat n - nat h) None = spare f"
    using assms(3,4) by (auto simp: spare_def c_int_Inr_iff nat_add_distrib split: if_splits)
  with load_fields_Inr [OF assms(1,2)] that show ?thesis by metis
qed

lemma length_strtok: "length (snd (strtok d s)) \<le> length s"
  using length_dropWhile_le [of "\<lambda>c. c \<in> set d" s]
    length_dropWhile_le [of "\<lambda>c. c \<notin> set d" "dropWhile (\<lambda>c. c \<in> set d) s"]
  by (auto simp: strtok_def Let_def)

lemma next_token_length:
  assumes "next_token d rest = Inr (t, r)"
  shows "length r < length rest"
proof -
  let ?s = "dropWhile (\<lambda>c. c \<in> set d) rest"
  have s: "?s \<noteq> []" and t: "t = takeWhile (\<lambda>c. c \<notin> set d) ?s" and r: "r = drop 1 (dropWhile (\<lambda>c. c \<notin> set d) ?s)"
    using assms by (auto simp: next_token_def strtok_def Let_def split: if_splits)
  have "t \<noteq> []" using next_token_Inr(1) [OF assms] .
  moreover have "length t + length (dropWhile (\<lambda>c. c \<notin> set d) ?s) = length ?s"
    unfolding t by (metis length_append takeWhile_dropWhile_id)
  moreover have "length ?s \<le> length rest" by (rule length_dropWhile_le)
  ultimately show ?thesis unfolding r length_drop by (cases t) auto
qed

lemma load_fields_length:
  assumes "load_fields cap h (xs, rest) = Inr (ys, r)"
  shows "length r + nat h \<le> length rest"
proof -
  have "foldR (load_field cap) (map int ks) (xs, rest) = Inr (ys, r) \<Longrightarrow> length r + length ks \<le> length rest" for ks
  proof (induction ks arbitrary: xs rest)
    case (Cons k ks)
    then obtain zs r' where st: "load_field cap (int k) (xs, rest) = Inr (zs, r')"
      "foldR (load_field cap) (map int ks) (zs, r') = Inr (ys, r)"
      by (auto elim!: bindR_InrE)
    then obtain t where "next_token '' '' rest = Inr (t, r')"
      by (auto simp: load_field_def elim!: bindR_InrE)
    with st(2) Cons.IH [of zs r'] next_token_length [of "'' ''" rest t r'] show ?case by simp
  qed simp
  from this [of "[0..<nat h]"] assms show ?thesis by (simp add: load_fields_def)
qed

lemma load_payload_cells:
  assumes load: "load_payload s = Inr p" and nul: "NUL \<notin> set s" and h: "0 \<le> hops p"
  obtains m where "wf_msg m" and "p = (struct_of m)\<lparr>current := current p\<rparr>"
    and "\<And>c. current p = Some c \<Longrightarrow> m_current m = c"
  using load
proof (rule load_payload_InrE)
  fix n sts r1 ads r2 rts r3 tms r4 r5 r6 r7
  assume hd: "load_header s = Inr (found p, hops p, current p)" and
    n: "(if found p = 0 then c_int (hops p + 1) else Inr (hops p)) = Inr n" and
    l1: "load_fields MAX_NAME_LENGTH (hops p) (replicate (nat n) None,
       snd (strtok '' '' (snd (strtok '' '' (snd (strtok '' '' s)))))) = Inr (stations p, r1)" and
    l2: "load_fields ADDRESS_LENGTH (hops p) (replicate (nat n) None, r1) = Inr (address p, r2)" and
    l3: "load_fields MAX_NAME_LENGTH (hops p) (replicate (nat n) None, r2) = Inr (routes p, r3)" and
    l4: "load_fields MAX_TIMESTRING (hops p) (replicate (nat n) None, r3) = Inr (time p, r4)" and
    l5: "load_last MAX_NAME_LENGTH '' '' r4 = Inr (destination p, r5)" and
    l6: "load_last MAX_NAME_LENGTH '' '' r5 = Inr (source p, r6)" and
    l7: "load_last MAX_TIMESTRING '';'' r6 = Inr (start_time p, r7)"
  from nul have n0: "NUL \<notin> set (snd (strtok '' '' (snd (strtok '' '' (snd (strtok '' '' s))))))"
    by (intro NUL_strtok)
  obtain t1 where t1: "tokens MAX_NAME_LENGTH (nat (hops p)) t1" "stations p = map Some t1 @ spare (found p)"
    and n1: "NUL \<notin> set r1" using l1 n0 n h by (rule load_array_Inr)
  obtain t2 where t2: "tokens ADDRESS_LENGTH (nat (hops p)) t2" "address p = map Some t2 @ spare (found p)"
    and n2: "NUL \<notin> set r2" using l2 n1 n h by (rule load_array_Inr)
  obtain t3 where t3: "tokens MAX_NAME_LENGTH (nat (hops p)) t3" "routes p = map Some t3 @ spare (found p)"
    and n3: "NUL \<notin> set r3" using l3 n2 n h by (rule load_array_Inr)
  obtain t4 where t4: "tokens MAX_TIMESTRING (nat (hops p)) t4" "time p = map Some t4 @ spare (found p)"
    and n4: "NUL \<notin> set r4" using l4 n3 n h by (rule load_array_Inr)
  note d = load_last_Inr [OF l5 n4]
  note s = load_last_Inr [OF l6 d(4)]
  note e = load_last_Inr [OF l7 s(4)]
  define c where "c = (case current p of None \<Rightarrow> 0 | Some c \<Rightarrow> c)"
  have c: "in_int c" using load_header_in_int [OF hd] by (auto simp: c_def in_int_def split: option.splits)
  define m where "m = \<lparr>m_found = found p, m_current = c, m_stations = t1, m_address = t2,
    m_routes = t3, m_time = t4, m_destination = destination p, m_source = source p,
    m_start_time = start_time p\<rparr>"
  have hops: "int (m_hops m) = hops p" using t1(1) h by (simp add: m_def m_hops_def tokens_def)
  have "p = (struct_of m)\<lparr>current := current p\<rparr>"
    using t1 t2 t3 t4 hops by (simp add: m_def struct_of_def mem_def)
  moreover have "wf_msg m"
    using t1 t2 t3 t4 d s e hops n c load_header_in_int [OF hd]
      d(5) [of "CHR '' ''"] s(5) [of "CHR '' ''"] e(5) [of "CHR '';''"]
    by (auto simp: m_def wf_msg_def m_hops_def token_def tokens_def c_int_Inr_iff split: if_splits)
  ultimately show thesis using that by (auto simp: m_def c_def)
qed

lemma load_payload_Inr:
  assumes "load_payload s = Inr p" and "NUL \<notin> set s" and "0 \<le> hops p" and "current p = Some c"
  obtains m where "wf_msg m" and "p = struct_of m"
proof -
  obtain m where m: "wf_msg m" "p = (struct_of m)\<lparr>current := current p\<rparr>" "m_current m = c"
    using load_payload_cells [OF assms(1-3)] assms(4) by metis
  then have "p = struct_of m" using assms(4) by (simp add: struct_of_def mem_def)
  with m(1) that show thesis by blast
qed

lemma load_payload_hops: 
  assumes "load_payload s = Inr p"
  shows "hops p \<le> int (length s)"
proof -
  obtain n r1 where "load_fields MAX_NAME_LENGTH (hops p) (replicate (nat n) None,
       snd (strtok '' '' (snd (strtok '' '' (snd (strtok '' '' s)))))) = Inr (stations p, r1)"
    using load_payload_InrE [OF assms] by blast
  from load_fields_length [OF this] show ?thesis
    using length_strtok [of "'' ''" s] length_strtok [of "'' ''" "snd (strtok '' '' s)"]
      length_strtok [of "'' ''" "snd (strtok '' '' (snd (strtok '' '' s)))"] by linarith
qed

lemma load_payload_negative:
  assumes "load_payload s = Inr p" and "hops p < 0"
  shows "stations p = []" and "address p = []" and "routes p = []" and "time p = []"
proof -
  obtain n r0 r1 r2 r3 r4 where n: "(if found p = 0 then c_int (hops p + 1) else Inr (hops p)) = Inr n"
    and l: "load_fields MAX_NAME_LENGTH (hops p) (replicate (nat n) None, r0) = Inr (stations p, r1)"
      "load_fields ADDRESS_LENGTH (hops p) (replicate (nat n) None, r1) = Inr (address p, r2)"
      "load_fields MAX_NAME_LENGTH (hops p) (replicate (nat n) None, r2) = Inr (routes p, r3)"
      "load_fields MAX_TIMESTRING (hops p) (replicate (nat n) None, r3) = Inr (time p, r4)"
    using load_payload_InrE [OF assms(1)] by metis
  have "nat n = 0" using n assms(2) by (auto simp: c_int_Inr_iff split: if_splits)
  with l assms(2) show "stations p = []" "address p = []" "routes p = []" "time p = []"
    by (auto simp: load_fields_def)
qed

text \<open>The three strings at the end are tokens within their buffers, whatever \<open>hops\<close> is.\<close>

definition ends_ok :: "payload \<Rightarrow> bool" where
  "ends_ok p \<longleftrightarrow> token MAX_NAME_LENGTH (destination p) \<and> token MAX_NAME_LENGTH (source p) \<and>
     start_time p \<noteq> [] \<and> length (start_time p) < MAX_TIMESTRING \<and>
     CHR '';'' \<notin> set (start_time p) \<and> NUL \<notin> set (start_time p)"

lemma load_fields_NUL:
  "load_fields cap h (replicate n None, rest) = Inr (xs, r) \<Longrightarrow> NUL \<notin> set rest \<Longrightarrow> NUL \<notin> set r"
  by (erule load_fields_Inr)

lemma load_payload_ends:
  assumes "load_payload s = Inr p" and "NUL \<notin> set s"
  shows "ends_ok p"
  using assms(1)
proof (rule load_payload_InrE)
  fix n sts r1 ads r2 rts r3 tms r4 r5 r6 r7
  assume l: "load_fields MAX_NAME_LENGTH (hops p) (replicate (nat n) None,
       snd (strtok '' '' (snd (strtok '' '' (snd (strtok '' '' s)))))) = Inr (stations p, r1)"
    "load_fields ADDRESS_LENGTH (hops p) (replicate (nat n) None, r1) = Inr (address p, r2)"
    "load_fields MAX_NAME_LENGTH (hops p) (replicate (nat n) None, r2) = Inr (routes p, r3)"
    "load_fields MAX_TIMESTRING (hops p) (replicate (nat n) None, r3) = Inr (time p, r4)"
    and e: "load_last MAX_NAME_LENGTH '' '' r4 = Inr (destination p, r5)"
      "load_last MAX_NAME_LENGTH '' '' r5 = Inr (source p, r6)"
      "load_last MAX_TIMESTRING '';'' r6 = Inr (start_time p, r7)"
  have "NUL \<notin> set (snd (strtok '' '' (snd (strtok '' '' (snd (strtok '' '' s))))))"
    using assms(2) by (intro NUL_strtok)
  from load_fields_NUL [OF l(1) this] have n4: "NUL \<notin> set r4"
    using load_fields_NUL [OF l(2)] load_fields_NUL [OF l(3)] load_fields_NUL [OF l(4)] by blast
  note d = load_last_Inr [OF e(1) n4]
  note s = load_last_Inr [OF e(2) d(4)]
  note t = load_last_Inr [OF e(3) s(4)]
  show ?thesis
    using d s t d(5) [of "CHR '' ''"] s(5) [of "CHR '' ''"] t(5) [of "CHR '';''"] by (simp add: ends_ok_def token_def)
qed

section \<open>The codec interface\<close>

text \<open>
  What a station relies on when it sends a message it holds and another station loads the
  datagram. \<open>denotes\<close> relates a structure to the message it holds.
\<close>

locale payload_codec =
  fixes craft :: "'p \<Rightarrow> string res"
    and load :: "string \<Rightarrow> 'p res"
    and den :: "'p \<Rightarrow> 'm \<Rightarrow> bool"
    and text_of :: "'m \<Rightarrow> string"
    and wf :: "'m \<Rightarrow> bool"
  assumes den_functional: "den p m \<Longrightarrow> den p m' \<Longrightarrow> m = m'"
    and craft_text: "den p m \<Longrightarrow> craft p = Inr s \<Longrightarrow> s = text_of m"
    and load_text: "wf m \<Longrightarrow> \<exists>p. load (text_of m) = Inr p \<and> den p m"
begin

lemma transfer:
  assumes "den p m" and "wf m" and "craft p = Inr s"
  shows "\<exists>q. load s = Inr q \<and> den q m"
  using craft_text [OF assms(1,3)] load_text [OF assms(2)] by simp

lemma text_injective:
  assumes "wf m" and "wf m'" and "text_of m = text_of m'"
  shows "m = m'"
  using load_text [OF assms(1)] load_text [OF assms(2)] assms(3) den_functional by auto

lemma recraft:
  assumes "den p m" and "wf m" and "craft p = Inr s" and "load s = Inr q" and "craft q = Inr s'"
  shows "s' = s"
proof -
  from transfer [OF assms(1-3)] assms(4) have "den q m" by auto
  with assms(5) craft_text [OF assms(1,3)] show ?thesis by (simp add: craft_text)
qed

end

lemma craft_payload_Inr_in_int:
  assumes "craft_payload p = Inr s"
  shows "in_int (craft_alloc (hops p))"
  using assms by (auto simp: craft_payload_def c_int_Inr_iff elim!: bindR_InrE)

lemma craft_payload_wire: "denotes p m \<Longrightarrow> craft_payload p = Inr s \<Longrightarrow> s = wire m"
  using craft_payload_Inr_in_int [of p s] craft_payload_Inr_iff [of p m s] by (auto simp: denotes_def)

interpretation codec: payload_codec craft_payload load_payload denotes wire wf_msg
proof
  show "denotes p m \<Longrightarrow> denotes p m' \<Longrightarrow> m = m'" for p m m' by (rule denotes_unique)
  show "denotes p m \<Longrightarrow> craft_payload p = Inr s \<Longrightarrow> s = wire m" for p m s
    by (rule craft_payload_wire)
  show "wf_msg m \<Longrightarrow> \<exists>p. load_payload (wire m) = Inr p \<and> denotes p m" for m
    using load_wire denotes_struct_of by blast
qed

section \<open>Sizes and addresses\<close>

lemma length_wire:
  "length (wire m) =
     length (dec (m_found m)) + length (dec (int (m_hops m))) + length (dec (m_current m)) + 2 +
     length (spaced (m_stations m)) + length (spaced (m_address m)) + length (spaced (m_routes m)) +
     length (spaced (m_time m)) + length (m_destination m) + length (m_source m) +
     length (m_start_time m) + 4"
  by (simp add: wire_def spaced_Cons)

lemma length_spaced_tokens: "tokens (Suc cap) n ts \<Longrightarrow> length (spaced ts) \<le> n * (cap + 1)"
proof (induction ts arbitrary: n)
  case Nil
  then show ?case by simp
next
  case (Cons t ts)
  then obtain k where n: "n = Suc k" by (auto simp: tokens_def)
  with Cons have "length (spaced ts) \<le> k * (cap + 1)" "length t \<le> cap"
    by (auto simp: tokens_def token_def)
  with n show ?case by (simp add: spaced_Cons)
qed

lemma length_wire_bound:
  assumes "wf_msg m"
  shows "length (wire m) \<le> 183 * m_hops m + length (dec (m_found m)) + length (dec (int (m_hops m)))
     + length (dec (m_current m)) + length (m_destination m) + length (m_source m)
     + length (m_start_time m) + 6"
  using assms length_spaced_tokens [of 60 "m_hops m" "m_stations m"]
    length_spaced_tokens [of 54 "m_hops m" "m_address m"]
    length_spaced_tokens [of 60 "m_hops m" "m_routes m"]
    length_spaced_tokens [of 5 "m_hops m" "m_time m"]
  by (simp add: length_wire wf_msg_def)

lemma get_ip_port_split:
  assumes "rd_cell (address p) (which - 1) = Inr (ip @ '':'' @ port)" and "in_int (which - 1)"
    and "ip_ok ip" and "port_ok port"
  shows "get_ip_port p which = Inr (Some ip, Some port)"
  using assms
  by (simp add: get_ip_port_def c_int_ok ip_ok_def port_ok_def takeWhile_colon take_width_def
      skip_nonspace take_nonspace fit_def)

section \<open>Properties\<close>

text \<open>C19. Round trip: whatever message a structure holds, loading the text \<open>craft_payload\<close> prints
  for it rebuilds the structure with exactly that message (and the spare cell the destination
  search needs while \<open>found\<close> is 0).\<close>

theorem payload_roundtrip:
  assumes "denotes p m" and "wf_msg m" and "craft_payload p = Inr s"
  shows "load_payload s = Inr (struct_of m)"
  using codec.craft_text [OF assms(1,3)] load_wire [OF assms(2)] by simp

definition demo_msg :: msg where
  "demo_msg = \<lparr>m_found = 1, m_current = 2, m_stations = [''StationA'', ''TerminalB''],
     m_address = [''127.0.0.1:4002'', ''127.0.0.1:4004''], m_routes = [''...'', ''busB_A''],
     m_time = [''...'', ''10:45''], m_destination = ''TerminalB'', m_source = ''StationA'',
     m_start_time = ''09:30''\<rparr>"

lemma demo_wf: "wf_msg demo_msg"
  by (simp add: demo_msg_def wf_msg_def m_hops_def token_def tokens_def in_int_def NUL_def)

theorem payload_roundtrip_witness:
  "load_payload ''1 2 2 StationA TerminalB 127.0.0.1:4002 127.0.0.1:4004 ... busB_A ... 10:45 TerminalB StationA 09:30;''
   = Inr (struct_of demo_msg)"
proof -
  have "craft_payload (struct_of demo_msg)
    = Inr ''1 2 2 StationA TerminalB 127.0.0.1:4002 127.0.0.1:4004 ... busB_A ... 10:45 TerminalB StationA 09:30;''"
    by code_simp
  then show ?thesis by (rule payload_roundtrip [OF denotes_struct_of [OF demo_wf] demo_wf])
qed

text \<open>C31. The allocation of \<open>craft_payload\<close>, exactly: with \<open>183 * hops + 128\<close> bytes the message is
  printed in full when its text and the final NUL fit, and otherwise the \<open>strcat\<close>s write past the
  end of the buffer. There is no other outcome for a structure that holds a message.\<close>

theorem craft_payload_exact:
  assumes "denotes p m" and "in_int (183 * int (m_hops m) + 128)"
  shows "craft_payload p =
    (if length (wire m) < 183 * m_hops m + 128 then Inr (wire m) else Inl BufferOverflow)"
proof -
  have "nat (craft_alloc (int (m_hops m))) = 183 * m_hops m + 128"
    by (simp add: craft_alloc_eq nat_add_distrib nat_mult_distrib)
  with craft_payload_fit [of p m] assms show ?thesis by (simp add: fit_def craft_alloc_eq)
qed

theorem craft_payload_exact_witness:
  "craft_payload (struct_of demo_msg) = Inr (wire demo_msg)"
proof -
  have "length (wire demo_msg) < 183 * m_hops demo_msg + 128" by code_simp
  moreover have "in_int (183 * int (m_hops demo_msg) + 128)" by code_simp
  ultimately show ?thesis
    using craft_payload_exact [OF denotes_struct_of [OF demo_wf]] by simp
qed

text \<open>The allocation is enough for every message whose destination, source, start time and
  three numbers take at most 121 characters together, whatever its hops hold.\<close>

lemma craft_payload_fits:
  assumes "denotes p m" and "wf_msg m" and "m_hops m < 10000000"
    and "length (dec (m_found m)) + length (dec (int (m_hops m))) + length (dec (m_current m))
         + length (m_destination m) + length (m_source m) + length (m_start_time m) \<le> 121"
  shows "craft_payload p = Inr (wire m)"
proof -
  have "in_int (craft_alloc (int (m_hops m)))"
    using assms(3) by (simp add: in_int_def craft_alloc_eq)
  moreover have "length (wire m) < 183 * m_hops m + 128"
    using length_wire_bound [OF assms(2)] assms(4) by linarith
  moreover have "nat (craft_alloc (int (m_hops m))) = 183 * m_hops m + 128"
    by (simp add: craft_alloc_eq nat_add_distrib nat_mult_distrib)
  ultimately show ?thesis using craft_payload_fit [OF assms(1)] by (simp add: fit_def)
qed

text \<open>The allocation is not enough in general: a well-formed message every field of which is
  within its own buffer overflows it.\<close>

lemma craft_payload_undersized:
  "\<exists>p m. wf_msg m \<and> denotes p m \<and> craft_payload p = Inl BufferOverflow"
proof -
  let ?n = "replicate 60 CHR ''A''" and ?a = "replicate 54 CHR ''A''" and ?t = "replicate 5 CHR ''1''"
  define m where "m = \<lparr>m_found = 1, m_current = 1, m_stations = [?n], m_address = [?a],
    m_routes = [?n], m_time = [?t], m_destination = ?n, m_source = ?n, m_start_time = ?t\<rparr>"
  have wf: "wf_msg m"
    by (simp add: m_def wf_msg_def m_hops_def token_def tokens_def in_int_def NUL_def)
  have "length (dec 1) = 1" by code_simp
  then have len: "length (wire m) = 317"
    by (simp add: length_wire m_def m_hops_def spaced_Cons)
  have "craft_payload (struct_of m) = Inl BufferOverflow"
    using craft_payload_fit [OF denotes_struct_of [OF wf]] len
    by (simp add: fit_def craft_alloc_eq in_int_def m_def m_hops_def)
  with wf denotes_struct_of [OF wf] show ?thesis by blast
qed

text \<open>C32. Type of the parser: whatever text \<open>load_payload\<close> accepts, destination, source and start time are
  tokens within their buffers. When \<open>hops\<close> is not negative the structure is that of a well-formed
  message: every cell below \<open>hops\<close> is initialised with a token within its buffer, and there is one spare
  cell exactly when \<open>found\<close> is 0; only \<open>current\<close> may be left unassigned, when the text has no third
  number. A negative \<open>hops\<close> is accepted as well, and leaves four empty arrays.\<close>

theorem load_payload_type:
  assumes "load_payload s = Inr p" and "NUL \<notin> set s"
  shows "ends_ok p \<and>
    (if 0 \<le> hops p
     then \<exists>m. wf_msg m \<and> (p = struct_of m \<or> p = (struct_of m)\<lparr>current := None\<rparr>)
     else stations p = [] \<and> address p = [] \<and> routes p = [] \<and> time p = [])"
proof -
  have "\<exists>m. wf_msg m \<and> (p = struct_of m \<or> p = (struct_of m)\<lparr>current := None\<rparr>)" if h: "0 \<le> hops p"
  proof -
    obtain m where m: "wf_msg m" "p = (struct_of m)\<lparr>current := current p\<rparr>" "\<And>c. current p = Some c \<Longrightarrow> m_current m = c"
      using load_payload_cells [OF assms h] by metis
    show ?thesis
    proof (cases "current p")
      case None
      with m(1,2) show ?thesis by (intro exI [of _ m]) simp
    next
      case (Some c)
      with m(2,3) have "p = struct_of m" by (simp add: struct_of_def mem_def)
      with m(1) show ?thesis by blast
    qed
  qed
  with load_payload_ends [OF assms] load_payload_negative [OF assms(1)] show ?thesis by simp
qed

theorem load_payload_type_witness:
  "(\<exists>p. load_payload ''0 -1 0 A B 09:00;'' = Inr p \<and> ends_ok p \<and> hops p = - 1 \<and> stations p = [] \<and> routes p = []) \<and>
   (\<exists>p m. load_payload (wire demo_msg) = Inr p \<and> hops p = 2 \<and> wf_msg m \<and> p = struct_of m)"
proof
  let ?s = "''0 -1 0 A B 09:00;''"
  have "(case load_payload ?s of Inr p \<Rightarrow> hops p = - 1 | Inl e \<Rightarrow> False)" "NUL \<notin> set ?s" by code_simp+
  then obtain p where p: "load_payload ?s = Inr p" "hops p = - 1" "NUL \<notin> set ?s" by (auto split: sum.splits)
  with load_payload_type [OF p(1,3)]
  show "\<exists>p. load_payload ?s = Inr p \<and> ends_ok p \<and> hops p = - 1 \<and> stations p = [] \<and> routes p = []" by auto
next
  have nul: "NUL \<notin> set (wire demo_msg)" by code_simp
  have load: "load_payload (wire demo_msg) = Inr (struct_of demo_msg)" by (rule load_wire [OF demo_wf])
  have "hops (struct_of demo_msg) = 2" "current (struct_of demo_msg) \<noteq> None" by code_simp+
  with load_payload_type [OF load nul] load
  show "\<exists>p m. load_payload (wire demo_msg) = Inr p \<and> hops p = 2 \<and> wf_msg m \<and> p = struct_of m"
    by auto
qed

text \<open>The message text the README gives as its example, which has no start time, is not
  accepted: the last \<open>strtok\<close> returns NULL and \<open>strcpy\<close> reads through it.\<close>

lemma load_readme_example:
  "load_payload (''1 5 5 StationA StationB StationC StationD StationE localhost:1002 localhost:1003 ''
     @ ''localhost:1004 localhost:1005 localhost:1006 BASE A_B B_C C_D D_E 10:45 11:45 12:45 13:45 ''
     @ ''14:45 StationX StationA;'') = Inl NullDeref"
  by code_simp

text \<open>\<open>get_ip_port\<close> splits the address a station recorded back into its two parts.\<close>

lemma get_ip_port_roundtrip:
  assumes "holds (address p) as" and "i < length as" and "as ! i = ip @ '':'' @ port"
    and "ip_ok ip" and "port_ok port" and "in_int (int i)"
  shows "get_ip_port p (int i + 1) = Inr (Some ip, Some port)"
proof (rule get_ip_port_split)
  from assms(1) obtain e where "address p = map Some as @ e" by (rule holdsE)
  with assms(2,3) show "rd_cell (address p) (int i + 1 - 1) = Inr (ip @ '':'' @ port)"
    by (simp add: rd_cell_map)
qed (use assms in simp_all)

end
