(* ===== verification/Timetable.thy ===== *)
theory Timetable
  imports Macros
begin

text \<open>
  \<open>src/timetable/timetable.h\<close> and \<open>timetable.c\<close>: reading a station's timetable file and its
  neighbours, and searching the timetable.

  \<^item> A row of the \<open>TIMETABLE\<close> array is \<open>tt_row\<close>, each buffer \<open>None\<close> until written; the array
    pointer is \<open>None\<close> for NULL. \<open>tt_array\<close> is the growing array of \<open>readtimetable\<close>.
  \<^item> \<open>entry\<close> is a timetable line as plain strings; \<open>shows_table\<close> relates the array to a list of
    entries.
  \<^item> The locale \<open>departure_search\<close> is the contract the routing code uses; it is interpreted on
    \<open>search_timetable\<close>.

  The file is an argument: \<open>None\<close> when \<open>fopen\<close> fails, else its bytes. \<open>malloc\<close> and
  \<open>realloc\<close> are assumed to succeed.
\<close>

section \<open>Structures\<close>

record station =
  station_name :: string
  longitude :: string
  latitude :: string

record neighbour =
  ip_addr :: string
  udp_port :: string
  addr_and_port :: string

record tt_row =
  departure_time :: "string option"
  route_name :: "string option"
  departing_from :: "string option"
  arrival_time :: "string option"
  arrival_station :: "string option"

definition blank_row :: tt_row where
  "blank_row = \<lparr>departure_time = None, route_name = None, departing_from = None,
     arrival_time = None, arrival_station = None\<rparr>"

definition rd_str :: "string option \<Rightarrow> string res" where
  "rd_str x = (case x of None \<Rightarrow> Inl Uninit | Some s \<Rightarrow> Inr s)"

type_synonym table = "tt_row list option"

definition tt_at :: "table \<Rightarrow> int \<Rightarrow> tt_row res" where
  "tt_at tt i =
     (case tt of None \<Rightarrow> Inl NullDeref
      | Some rows \<Rightarrow> if i < 0 \<or> int (length rows) \<le> i then Inl OutOfBounds else Inr (rows ! nat i))"

section \<open>readtimetable\<close>

definition not_comma :: "char \<Rightarrow> bool" where "not_comma c \<longleftrightarrow> c \<noteq> CHR '',''"

definition not_newline :: "char \<Rightarrow> bool" where "not_newline c \<longleftrightarrow> c \<noteq> newline"

definition fmt_station :: "directive list" where
  "fmt_station =
     [Scanset (Some 60) not_comma, Lit CHR '','', Scanset (Some 10) not_comma, Lit CHR '','',
      Scanset (Some 10) not_newline, Ws]"

definition fmt_row :: "directive list" where
  "fmt_row =
     [Scanset (Some 5) not_comma, Lit CHR '','', Scanset (Some 60) not_comma, Lit CHR '','',
      Scanset (Some 60) not_comma, Lit CHR '','', Scanset (Some 5) not_comma, Lit CHR '','',
      Scanset (Some 60) not_newline, Ws]"

definition is_comment :: "string \<Rightarrow> bool" where
  "is_comment l \<longleftrightarrow> l \<noteq> [] \<and> hd l = CHR ''#''"

text \<open>\<open>sscanf\<close> stores the values it assigned, in order, each into its buffer.\<close>

definition store :: "nat \<Rightarrow> scanned list \<Rightarrow> nat \<Rightarrow> (string \<Rightarrow> 's \<Rightarrow> 's) \<Rightarrow> 's \<Rightarrow> 's res" where
  "store cap vs k upd s =
     (if k < length vs
      then case vs ! k of SStr x \<Rightarrow> bindR (fit cap x) (\<lambda>x. Inr (upd x s)) | SInt _ \<Rightarrow> Inr s
      else Inr s)"

definition assign_station :: "scanned list \<Rightarrow> station \<Rightarrow> station res" where
  "assign_station vs st =
     bindR (store MAX_NAME_LENGTH vs 0 (\<lambda>x s. s\<lparr>station_name := x\<rparr>) st) (\<lambda>st.
     bindR (store MAX_COORDINATE vs 1 (\<lambda>x s. s\<lparr>longitude := x\<rparr>) st) (\<lambda>st.
     store MAX_COORDINATE vs 2 (\<lambda>x s. s\<lparr>latitude := x\<rparr>) st))"

fun read_header :: "string list \<Rightarrow> station \<Rightarrow> (station \<times> string list) res" where
  "read_header [] st = Inr (st, [])"
| "read_header (line # lines) st =
     (if is_comment line then read_header lines st
      else bindR (sscanf fmt_station line) (\<lambda>vs.
           bindR (assign_station vs st) (\<lambda>st.
           if length vs = 3 then Inr (st, lines) else read_header lines st)))"

definition assign_row :: "scanned list \<Rightarrow> tt_row \<Rightarrow> tt_row res" where
  "assign_row vs r =
     bindR (store MAX_TIMESTRING vs 0 (\<lambda>x r. r\<lparr>departure_time := Some x\<rparr>) r) (\<lambda>r.
     bindR (store MAX_NAME_LENGTH vs 1 (\<lambda>x r. r\<lparr>route_name := Some x\<rparr>) r) (\<lambda>r.
     bindR (store MAX_NAME_LENGTH vs 2 (\<lambda>x r. r\<lparr>departing_from := Some x\<rparr>) r) (\<lambda>r.
     bindR (store MAX_TIMESTRING vs 3 (\<lambda>x r. r\<lparr>arrival_time := Some x\<rparr>) r) (\<lambda>r.
     store MAX_NAME_LENGTH vs 4 (\<lambda>x r. r\<lparr>arrival_station := Some x\<rparr>) r))))"

text \<open>The growing array: \<open>size\<close> is the length of \<open>rows\<close>.\<close>

record tt_array =
  rows :: "tt_row list"
  count :: nat

definition grow :: "tt_array \<Rightarrow> tt_array" where
  "grow a = (if count a = length (rows a)
     then a\<lparr>rows := rows a @ replicate (length (rows a)) blank_row\<rparr> else a)"

definition read_row :: "string \<Rightarrow> tt_array \<Rightarrow> tt_array res" where
  "read_row line a =
     (if is_comment line then Inr a
      else bindR (sscanf fmt_row line) (\<lambda>vs.
           bindR (checkR (count a < length (rows a)) OutOfBounds) (\<lambda>_.
           bindR (assign_row vs (rows a ! count a)) (\<lambda>r.
           let a = a\<lparr>rows := (rows a)[count a := r]\<rparr> in
           Inr (if length vs = 5 then grow (a\<lparr>count := count a + 1\<rparr>) else a)))))"

text \<open>
  The result: the returned count, the \<open>STATION\<close> and the \<open>TIMETABLE\<close> pointer. When the file
  cannot be opened the function returns 1 and touches neither.
\<close>

definition readtimetable :: "string option \<Rightarrow> station \<Rightarrow> table \<Rightarrow> (int \<times> station \<times> table) res" where
  "readtimetable file st tt =
     (case file of
        None \<Rightarrow> Inr (1, st, tt)
      | Some bytes \<Rightarrow>
          bindR (read_header (fgets_lines MAX_BUFFER bytes) st) (\<lambda>(st, lines).
          bindR (foldR read_row lines \<lparr>rows = [blank_row], count = 0\<rparr>) (\<lambda>a.
          Inr (int (count a), st, Some (rows a)))))"

section \<open>readneighbours\<close>

definition not_colon :: "char \<Rightarrow> bool" where "not_colon c \<longleftrightarrow> c \<noteq> CHR '':''"

definition read_neighbour :: "string \<Rightarrow> neighbour list \<times> nat \<Rightarrow> (neighbour list \<times> nat) res" where
  "read_neighbour arg nsz =
     (let (ns, size) = nsz in
      bindR (checkR (length ns < size) OutOfBounds) (\<lambda>_.
      bindR (sscanf [Scanset (Some 60) not_colon, Lit CHR '':'', StrD] arg) (\<lambda>vs.
      case vs of
        [SStr ip, SStr port] \<Rightarrow>
          bindR (fit INET6_ADDRSTRLEN ip) (\<lambda>ip.
          bindR (fit MAX_PORT port) (\<lambda>port.
          bindR (fit (INET6_ADDRSTRLEN + MAX_PORT + 1) (ip @ '':'' @ port)) (\<lambda>ap.
          let ns = ns @ [\<lparr>ip_addr = ip, udp_port = port, addr_and_port = ap\<rparr>] in
          Inr (ns, if size = length ns then size * 2 else size))))
      | [SStr ip] \<Rightarrow> bindR (fit INET6_ADDRSTRLEN ip) (\<lambda>_. Inl Uninit)
      | _ \<Rightarrow> Inl Uninit)))"

definition readneighbours :: "string list \<Rightarrow> (int \<times> neighbour list) res" where
  "readneighbours argv =
     bindR (foldR read_neighbour (drop 4 argv) ([], 1)) (\<lambda>(ns, _). Inr (int (length ns), ns))"

section \<open>Printing\<close>

definition print_row :: "table \<Rightarrow> int \<Rightarrow> string \<Rightarrow> string res" where
  "print_row tt i out =
     bindR (tt_at tt i) (\<lambda>r.
     bindR (rd_str (departure_time r)) (\<lambda>d.
     bindR (rd_str (route_name r)) (\<lambda>n.
     bindR (rd_str (departing_from r)) (\<lambda>f.
     bindR (rd_str (arrival_time r)) (\<lambda>a.
     bindR (rd_str (arrival_station r)) (\<lambda>s.
     Inr (out @ d @ '', '' @ n @ '', '' @ f @ '', '' @ a @ '', '' @ s @ [newline])))))))"

definition print_timetable :: "table \<Rightarrow> int \<Rightarrow> string res" where
  "print_timetable tt n = foldR (print_row tt) (map int [0..<nat n]) []"

definition print_neighbours :: "neighbour list \<Rightarrow> string" where
  "print_neighbours ns = concat (map (\<lambda>n. addr_and_port n @ [newline]) ns)"

section \<open>timeToMinutes and search\_timetable\<close>

definition timeToMinutes :: "string \<Rightarrow> int res" where
  "timeToMinutes s =
     bindR (sscanf [IntD, Lit CHR '':'', IntD] s) (\<lambda>vs.
     case vs of
       [SInt hours, SInt minutes] \<Rightarrow>
         bindR (c_int (hours * 60)) (\<lambda>x. c_int (x + minutes))
     | _ \<Rightarrow> Inl Uninit)"

fun search_loop :: "table \<Rightarrow> string \<Rightarrow> string \<Rightarrow> nat list \<Rightarrow> int res" where
  "search_loop tt starting_time station_to_go [] = Inr (- 1)"
| "search_loop tt starting_time station_to_go (i # is) =
     bindR (timeToMinutes starting_time) (\<lambda>s.
     bindR (tt_at tt (int i)) (\<lambda>r.
     bindR (rd_str (departure_time r)) (\<lambda>d.
     bindR (timeToMinutes d) (\<lambda>dm.
     if dm < s then search_loop tt starting_time station_to_go is
     else bindR (rd_str (arrival_station r)) (\<lambda>a.
          if station_to_go = a then Inr (int i)
          else search_loop tt starting_time station_to_go is)))))"

definition search_timetable :: "table \<Rightarrow> int \<Rightarrow> string \<Rightarrow> string \<Rightarrow> int res" where
  "search_timetable tt num starting_time station_to_go =
     search_loop tt starting_time station_to_go [0..<nat (num - 1)]"

section \<open>check\_update\_timetable\<close>

definition get_file_mtime :: "int option \<Rightarrow> int" where
  "get_file_mtime stat = (case stat of None \<Rightarrow> - 1 | Some t \<Rightarrow> t)"

text \<open>The count \<open>readtimetable\<close> returns is dropped.\<close>

definition check_update_timetable ::
  "int option \<Rightarrow> string option \<Rightarrow> int \<Rightarrow> station \<Rightarrow> table \<Rightarrow> (station \<times> table) res" where
  "check_update_timetable stat file latest st tt =
     (if get_file_mtime stat - latest > 0
      then bindR (readtimetable file st tt) (\<lambda>(_, st, tt). Inr (st, tt))
      else Inr (st, tt))"

section \<open>Memory safety of readtimetable\<close>

definition complete :: "tt_row \<Rightarrow> bool" where
  "complete r \<longleftrightarrow> departure_time r \<noteq> None \<and> route_name r \<noteq> None \<and> departing_from r \<noteq> None \<and>
     arrival_time r \<noteq> None \<and> arrival_station r \<noteq> None"

definition array_ok :: "tt_array \<Rightarrow> bool" where
  "array_ok a \<longleftrightarrow> count a < length (rows a) \<and> list_all complete (take (count a) (rows a)) \<and>
     (\<exists>k. length (rows a) = 2 ^ k)"

lemma fmt_row_ok: "bounded_fmt fmt_row" "widths fmt_row = [5, 60, 60, 5, 60]"
  by (simp_all add: fmt_row_def)

lemma fmt_station_ok: "bounded_fmt fmt_station" "widths fmt_station = [60, 10, 10]"
  by (simp_all add: fmt_station_def)

lemma assign_row_ok:
  assumes "within [5, 60, 60, 5, 60] vs"
  shows "\<exists>r'. assign_row vs r = Inr r' \<and> (length vs = 5 \<longrightarrow> complete r')"
  using assms by (auto simp: within_cases assign_row_def store_def fit_def complete_def)

lemma assign_station_ok:
  assumes "within [60, 10, 10] vs"
  shows "\<exists>st'. assign_station vs st = Inr st'"
  using assms by (auto simp: within_cases assign_station_def store_def fit_def)

lemma read_header_ok: "\<exists>st' lines'. read_header lines st = Inr (st', lines')"
proof (induction lines st rule: read_header.induct)
  case (2 line lines st)
  obtain vs where vs: "sscanf fmt_station line = Inr vs" "within [60, 10, 10] vs"
    using sscanf_bounded [OF fmt_station_ok(1), of line] fmt_station_ok(2) by auto
  obtain st' where st': "assign_station vs st = Inr st'"
    using assign_station_ok [OF vs(2)] by blast
  with 2 vs show ?case by (cases "is_comment line"; cases "length vs = 3") auto
qed simp

lemma read_row_ok:
  assumes "array_ok a"
  shows "\<exists>a'. read_row line a = Inr a' \<and> array_ok a'"
proof (cases "is_comment line")
  case True
  with assms show ?thesis by (simp add: read_row_def)
next
  case False
  obtain vs where vs: "sscanf fmt_row line = Inr vs" "within [5, 60, 60, 5, 60] vs"
    using sscanf_bounded [OF fmt_row_ok(1), of line] fmt_row_ok(2) by auto
  obtain r where r: "assign_row vs (rows a ! count a) = Inr r" "length vs = 5 \<longrightarrow> complete r"
    using assign_row_ok [OF vs(2)] by blast
  let ?b = "a\<lparr>rows := (rows a)[count a := r]\<rparr>"
  have ok: "count a < length (rows a)" "list_all complete (take (count a) (rows a))"
    "\<exists>k. length (rows a) = 2 ^ k"
    using assms by (auto simp: array_ok_def)
  have "read_row line a = Inr (if length vs = 5 then grow (?b\<lparr>count := count a + 1\<rparr>) else ?b)"
    using False ok(1) by (simp add: read_row_def vs(1) r(1) Let_def)
  moreover have "array_ok ?b" using ok by (simp add: array_ok_def)
  moreover have "array_ok (grow (?b\<lparr>count := count a + 1\<rparr>))" if "length vs = 5"
  proof -
    have "list_all complete (take (count a + 1) ((rows a)[count a := r]))"
      using ok r(2) that by (simp add: take_Suc_conv_app_nth)
    moreover obtain k where "length (rows a) = 2 ^ k" using ok(3) by blast
    moreover from this have "length (rows a) + length (rows a) = 2 ^ Suc k" by simp
    ultimately show ?thesis using ok(1) unfolding array_ok_def grow_def by (auto simp del: power_Suc)
  qed
  ultimately show ?thesis by auto
qed

lemma read_rows_ok:
  "array_ok a \<Longrightarrow> \<exists>a'. foldR read_row lines a = Inr a' \<and> array_ok a'"
proof (induction lines arbitrary: a)
  case (Cons line lines)
  then show ?case using read_row_ok [of a line] by auto
qed simp

lemma array_ok_start: "array_ok \<lparr>rows = [blank_row], count = 0\<rparr>"
  by (auto simp: array_ok_def intro: exI [of _ 0])

section \<open>Entries\<close>

record entry =
  e_departure :: string
  e_route :: string
  e_from :: string
  e_arrival :: string
  e_to :: string

definition row_of :: "entry \<Rightarrow> tt_row" where
  "row_of e = \<lparr>departure_time = Some (e_departure e), route_name = Some (e_route e),
     departing_from = Some (e_from e), arrival_time = Some (e_arrival e),
     arrival_station = Some (e_to e)\<rparr>"

text \<open>The array begins with these entries.\<close>

definition shows_table :: "table \<Rightarrow> entry list \<Rightarrow> bool" where
  "shows_table tt es \<longleftrightarrow>
     (case tt of None \<Rightarrow> False | Some rs \<Rightarrow> take (length es) rs = map row_of es)"

definition is_time :: "string \<Rightarrow> bool" where
  "is_time s = (case timeToMinutes s of Inl _ \<Rightarrow> False | Inr _ \<Rightarrow> True)"

definition minutes :: "string \<Rightarrow> int" where
  "minutes s = (case timeToMinutes s of Inl _ \<Rightarrow> 0 | Inr n \<Rightarrow> n)"

lemma timeToMinutes_minutes: "is_time s \<Longrightarrow> timeToMinutes s = Inr (minutes s)"
  by (simp add: is_time_def minutes_def split: sum.splits)

lemma shows_table_at:
  assumes "shows_table tt es" and "i < length es"
  shows "tt_at tt (int i) = Inr (row_of (es ! i))"
proof -
  obtain rs where rs: "tt = Some rs" "take (length es) rs = map row_of es"
    using assms(1) by (auto simp: shows_table_def split: option.splits)
  then have "length es \<le> length rs"
    by (metis length_map length_take min.cobounded1)
  moreover have "rs ! i = row_of (es ! i)"
    using rs(2) assms(2) by (metis nth_map nth_take)
  ultimately show ?thesis using rs(1) assms(2) by (simp add: tt_at_def)
qed

lemma rd_str_row [cell_simps]:
  "rd_str (departure_time (row_of e)) = Inr (e_departure e)"
  "rd_str (route_name (row_of e)) = Inr (e_route e)"
  "rd_str (departing_from (row_of e)) = Inr (e_from e)"
  "rd_str (arrival_time (row_of e)) = Inr (e_arrival e)"
  "rd_str (arrival_station (row_of e)) = Inr (e_to e)"
  by (simp_all add: rd_str_def row_of_def)

section \<open>The search, functionally\<close>

definition serves :: "entry list \<Rightarrow> string \<Rightarrow> string \<Rightarrow> nat \<Rightarrow> bool" where
  "serves es starting_time station_to_go i \<longleftrightarrow>
     minutes starting_time \<le> minutes (e_departure (es ! i)) \<and> e_to (es ! i) = station_to_go"

text \<open>All rows but the last are searched: the loop bound is \<open>NUM_TIMETABLES - 1\<close>.\<close>

definition first_departure :: "entry list \<Rightarrow> string \<Rightarrow> string \<Rightarrow> int" where
  "first_departure es starting_time station_to_go =
     (case find (serves es starting_time station_to_go) [0..<length es - 1] of
        None \<Rightarrow> - 1 | Some i \<Rightarrow> int i)"

lemma search_loop_find:
  assumes "shows_table tt es" and "list_all (\<lambda>e. is_time (e_departure e)) es"
    and "is_time st" and "\<forall>i\<in>set is. i < length es"
  shows "search_loop tt st go is
    = Inr (case find (serves es st go) is of None \<Rightarrow> - 1 | Some i \<Rightarrow> int i)"
  using assms(4)
proof (induction "is")
  case (Cons i "is")
  then have i: "i < length es" by simp
  with assms(2) have "is_time (e_departure (es ! i))" by (simp add: list_all_length)
  with Cons i assms show ?case
    by (auto simp: shows_table_at cell_simps timeToMinutes_minutes serves_def)
qed simp

lemma search_timetable_find:
  assumes "shows_table tt es" and "list_all (\<lambda>e. is_time (e_departure e)) es" and "is_time st"
  shows "search_timetable tt (int (length es)) st go = Inr (first_departure es st go)"
proof -
  have n: "nat (int (length es) - 1) = length es - 1" by simp
  show ?thesis
    unfolding search_timetable_def first_departure_def n
    by (rule search_loop_find [OF assms]) auto
qed

lemma find_upt_Some:
  "find P [0..<n] = Some i \<longleftrightarrow> i < n \<and> P i \<and> (\<forall>j<i. \<not> P j)"
  by (auto simp: find_Some_iff)

lemma first_departure_found:
  "first_departure es st go = int i \<longleftrightarrow>
     i < length es - 1 \<and> serves es st go i \<and> (\<forall>j<i. \<not> serves es st go j)"
  unfolding first_departure_def
  using find_upt_Some [of "serves es st go" "length es - 1" i]
  by (auto split: option.splits)

lemma first_departure_none:
  "first_departure es st go = - 1 \<longleftrightarrow> (\<forall>i<length es - 1. \<not> serves es st go i)"
  by (auto simp: first_departure_def find_None_iff split: option.splits)
     (metis find_upt_Some)

lemma first_departure_cases:
  obtains (none) "first_departure es st go = - 1" | (row) i where "first_departure es st go = int i"
  by (cases "find (serves es st go) [0..<length es - 1]") (auto simp: first_departure_def)

section \<open>The search contract\<close>

text \<open>
  What the routing code relies on. \<open>serves es st go i\<close>: row \<open>i\<close> leaves for \<open>go\<close> no earlier than
  \<open>st\<close>; \<open>valid es st\<close>: the times involved parse.
\<close>

locale departure_search =
  fixes search :: "'tt \<Rightarrow> int \<Rightarrow> string \<Rightarrow> string \<Rightarrow> int res"
    and represents :: "'tt \<Rightarrow> 'e list \<Rightarrow> bool"
    and valid :: "'e list \<Rightarrow> string \<Rightarrow> bool"
    and good :: "'e list \<Rightarrow> string \<Rightarrow> string \<Rightarrow> nat \<Rightarrow> bool"
    and leaves :: "'e list \<Rightarrow> nat \<Rightarrow> int"
    and mins :: "string \<Rightarrow> int"
  assumes total: "represents tt es \<Longrightarrow> valid es st \<Longrightarrow>
      search tt (int (length es)) st go = Inr (- 1) \<or> (\<exists>i. search tt (int (length es)) st go = Inr (int i))"
    and hit: "represents tt es \<Longrightarrow> valid es st \<Longrightarrow>
      search tt (int (length es)) st go = Inr (int i) \<longleftrightarrow>
      i < length es - 1 \<and> good es st go i \<and> (\<forall>j<i. \<not> good es st go j)"
    and good_leaves: "good es st go i \<Longrightarrow> mins st \<le> leaves es i"
    and good_earlier: "good es st go i \<Longrightarrow> mins st' \<le> leaves es i \<Longrightarrow> good es st' go i"
begin

lemma miss:
  assumes "represents tt es" and "valid es st"
  shows "search tt (int (length es)) st go = Inr (- 1) \<longleftrightarrow> (\<forall>i<length es - 1. \<not> good es st go i)"
proof
  assume none: "search tt (int (length es)) st go = Inr (- 1)"
  show "\<forall>i<length es - 1. \<not> good es st go i"
  proof (rule ccontr)
    assume "\<not> ?thesis"
    then have "\<exists>i. i < length es - 1 \<and> good es st go i" by blast
    then obtain i where i: "i < length es - 1 \<and> good es st go i"
      and least: "\<forall>j<i. \<not> (j < length es - 1 \<and> good es st go j)"
      using exists_least_iff [of "\<lambda>i. i < length es - 1 \<and> good es st go i"] by blast
    then have "search tt (int (length es)) st go = Inr (int i)"
      using hit [OF assms] by auto
    with none show False by simp
  qed
next
  assume "\<forall>i<length es - 1. \<not> good es st go i"
  then have "search tt (int (length es)) st go \<noteq> Inr (int i)" for i
    using hit [OF assms] by auto
  with total [OF assms] show "search tt (int (length es)) st go = Inr (- 1)" by blast
qed

text \<open>Being there earlier never finds a later row, and never loses the connection.\<close>

lemma earlier:
  assumes "represents tt es" and "valid es st" and "valid es st'" and "mins st' \<le> mins st"
    and "search tt (int (length es)) st go = Inr (int i)"
  shows "\<exists>j\<le>i. search tt (int (length es)) st' go = Inr (int j)"
proof -
  have i: "i < length es - 1" "good es st go i" using hit [OF assms(1,2)] assms(5) by auto
  then have g: "good es st' go i"
    using good_leaves [OF i(2)] good_earlier [OF i(2), of st'] assms(4) by linarith
  then have "search tt (int (length es)) st' go \<noteq> Inr (- 1)"
    using miss [OF assms(1,3)] i(1) by auto
  then obtain j where j: "search tt (int (length es)) st' go = Inr (int j)"
    using total [OF assms(1,3)] by blast
  then have "\<not> i < j" using hit [OF assms(1,3)] g by auto
  with j show ?thesis by auto
qed

text \<open>In a timetable sorted by departure the row found is the earliest possible departure.\<close>

lemma earliest:
  assumes "represents tt es" and "valid es st"
    and "search tt (int (length es)) st go = Inr (int i)"
    and "\<And>a b. a \<le> b \<Longrightarrow> b < length es \<Longrightarrow> leaves es a \<le> leaves es b"
    and "j < length es" and "good es st go j"
  shows "leaves es i \<le> leaves es j"
proof -
  have "\<forall>k<i. \<not> good es st go k" using hit [OF assms(1,2)] assms(3) by auto
  then have "i \<le> j" using assms(6) by (meson not_less)
  then show ?thesis using assms(4,5) by blast
qed

end

definition valid_times :: "entry list \<Rightarrow> string \<Rightarrow> bool" where
  "valid_times es st \<longleftrightarrow> list_all (\<lambda>e. is_time (e_departure e)) es \<and> is_time st"

definition departs_at :: "entry list \<Rightarrow> nat \<Rightarrow> int" where
  "departs_at es i = minutes (e_departure (es ! i))"

lemma search_valid:
  "shows_table tt es \<Longrightarrow> valid_times es st \<Longrightarrow>
   search_timetable tt (int (length es)) st go = Inr (first_departure es st go)"
  by (simp add: valid_times_def search_timetable_find)

interpretation board: departure_search search_timetable shows_table valid_times serves departs_at minutes
proof
  fix tt es st go and i :: nat and st' :: string
  show "search_timetable tt (int (length es)) st go = Inr (- 1) \<or>
      (\<exists>i. search_timetable tt (int (length es)) st go = Inr (int i))"
    if "shows_table tt es" "valid_times es st"
    using search_valid [OF that] by (cases rule: first_departure_cases [of es st go]) auto
  show "search_timetable tt (int (length es)) st go = Inr (int i) \<longleftrightarrow>
      i < length es - 1 \<and> serves es st go i \<and> (\<forall>j<i. \<not> serves es st go j)"
    if "shows_table tt es" "valid_times es st"
    using search_valid [OF that] by (simp add: first_departure_found)
  show "minutes st \<le> departs_at es i" if "serves es st go i"
    using that by (simp add: serves_def departs_at_def)
  show "serves es st' go i" if "serves es st go i" "minutes st' \<le> departs_at es i"
    using that by (simp add: serves_def departs_at_def)
qed

section \<open>Times\<close>

lemma dec02_digits: "0 \<le> n \<Longrightarrow> c \<in> set (dec02 n) \<Longrightarrow> isdigit c"
  by (auto simp: dec02_def dec_def isdigit_iff dest!: dec_nat_digits split: if_splits)

lemma scan_int_digits:
  assumes "ds \<noteq> []" and "\<And>c. c \<in> set ds \<Longrightarrow> isdigit c" and "r = [] \<or> \<not> isdigit (hd r)"
  shows "scan_int (ds @ r) = Some (int (scan_digits ds), r)"
proof -
  obtain d es where ds: "ds = d # es" using assms(1) by (cases ds) auto
  have d: "isdigit d" using assms(2) ds by simp
  have "takeWhile isdigit (ds @ r) = ds" by (rule takeWhile_digits [OF assms(2,3)])
  with ds d show ?thesis by (simp add: scan_int_def isdigit_not_space isdigit_not_sign)
qed

lemma scan_digits_dec02: "0 \<le> n \<Longrightarrow> scan_digits (dec02 n) = nat n"
proof -
  assume n: "0 \<le> n"
  have "digit_val CHR ''0'' = 0" by (simp add: digit_val.simps digit_chars_def)
  then have "scan_digits (CHR ''0'' # ds) = scan_digits ds" for ds
    by (simp add: scan_digits_def)
  with n show ?thesis by (simp add: dec02_def dec_def scan_digits_dec_nat)
qed

lemma dec02_nonempty [simp]: "dec02 n \<noteq> []"
  by (simp add: dec02_def)

lemma scan_int_dec02:
  "0 \<le> n \<Longrightarrow> r = [] \<or> \<not> isdigit (hd r) \<Longrightarrow> scan_int (dec02 n @ r) = Some (n, r)"
  by (subst scan_int_digits) (auto simp: scan_digits_dec02 dest: dec02_digits)

text \<open>The clock text \<open>%02i:%02i\<close> of a minute count, as the timetable builder prints it.\<close>

definition clock :: "int \<Rightarrow> string" where
  "clock m = dec02 (m div 60) @ '':'' @ dec02 (m mod 60)"

lemma timeToMinutes_clock:
  assumes "0 \<le> m" and "in_int m"
  shows "timeToMinutes (clock m) = Inr m"
proof -
  have nd: "\<not> isdigit CHR '':''" by (simp add: isdigit_iff)
  have r: "in_int (m div 60)" "in_int (m mod 60)" "in_int (m div 60 * 60)"
    using assms by (auto simp: in_int_def)
  have h: "scan_int (dec02 (m div 60) @ CHR '':'' # dec02 (m mod 60))
      = Some (m div 60, CHR '':'' # dec02 (m mod 60))"
    using assms(1) nd by (intro scan_int_dec02) auto
  have mm: "scan_int (dec02 (m mod 60)) = Some (m mod 60, [])"
    using scan_int_dec02 [of "m mod 60" "[]"] assms(1) by simp
  show ?thesis
    using r assms by (simp add: timeToMinutes_def clock_def h mm c_int_ok)
qed

lemma clock_ok: "0 \<le> m \<Longrightarrow> in_int m \<Longrightarrow> is_time (clock m) \<and> minutes (clock m) = m"
  by (simp add: is_time_def minutes_def timeToMinutes_clock)

section \<open>Reading back a timetable file\<close>

definition field :: "nat \<Rightarrow> string \<Rightarrow> bool" where
  "field n s \<longleftrightarrow> s \<noteq> [] \<and> length s \<le> n \<and> CHR '','' \<notin> set s \<and> newline \<notin> set s \<and> NUL \<notin> set s"

definition wf_entry :: "entry \<Rightarrow> bool" where
  "wf_entry e \<longleftrightarrow> field 5 (e_departure e) \<and> field 60 (e_route e) \<and> field 60 (e_from e) \<and>
     field 5 (e_arrival e) \<and> field 60 (e_to e) \<and> hd (e_departure e) \<noteq> CHR ''#''"

definition wf_station :: "station \<Rightarrow> bool" where
  "wf_station st \<longleftrightarrow> field 60 (station_name st) \<and> field 10 (longitude st) \<and> field 10 (latitude st) \<and>
     hd (station_name st) \<noteq> CHR ''#''"

definition station_line :: "station \<Rightarrow> string" where
  "station_line st = station_name st @ '','' @ longitude st @ '','' @ latitude st"

definition entry_line :: "entry \<Rightarrow> string" where
  "entry_line e = e_departure e @ '','' @ e_route e @ '','' @ e_from e @ '','' @ e_arrival e @ '','' @ e_to e"

text \<open>The layout of the files under \<open>src/files\<close>: a comment, the station, a comment, the rows.\<close>

definition file_text :: "string \<Rightarrow> station \<Rightarrow> string \<Rightarrow> entry list \<Rightarrow> string" where
  "file_text c1 st c2 es =
     (CHR ''#'' # c1) @ [newline] @ station_line st @ [newline] @ (CHR ''#'' # c2) @ [newline] @
     concat (map (\<lambda>e. entry_line e @ [newline]) es)"

definition comment_ok :: "string \<Rightarrow> bool" where
  "comment_ok c \<longleftrightarrow> length c < 250 \<and> newline \<notin> set c \<and> NUL \<notin> set c"

lemma field_sets:
  assumes "field n s"
  shows "list_all not_comma s" and "list_all not_newline s"
  using assms by (auto simp: field_def list_all_iff not_comma_def not_newline_def)

lemma comma_not_nn: "\<not> not_comma CHR '',''" "\<not> not_newline newline" "newline \<noteq> CHR '',''"
  by (simp_all add: not_comma_def not_newline_def newline_def)

lemma sscanf_comma_field:
  "field n s \<Longrightarrow> sscanf (Scanset (Some n) not_comma # fs) (s @ CHR '','' # r)
     = bindR (sscanf fs (CHR '','' # r)) (\<lambda>vs. Inr (SStr s # vs))"
  by (rule sscanf_field) (auto simp: field_sets comma_not_nn field_def)

lemma sscanf_last_field:
  "field n s \<Longrightarrow> sscanf [Scanset (Some n) not_newline, Ws] (s @ [newline]) = Inr [SStr s]"
  by (subst sscanf_field) (auto simp: field_sets comma_not_nn field_def)

lemma sscanf_station_line:
  "wf_station st \<Longrightarrow> sscanf fmt_station (station_line st @ [newline])
     = Inr [SStr (station_name st), SStr (longitude st), SStr (latitude st)]"
  by (simp add: fmt_station_def station_line_def wf_station_def sscanf_comma_field
      sscanf_last_field del: sscanf.simps(4))

lemma sscanf_entry_line:
  "wf_entry e \<Longrightarrow> sscanf fmt_row (entry_line e @ [newline])
     = Inr [SStr (e_departure e), SStr (e_route e), SStr (e_from e), SStr (e_arrival e), SStr (e_to e)]"
  by (simp add: fmt_row_def entry_line_def wf_entry_def sscanf_comma_field
      sscanf_last_field del: sscanf.simps(4))

lemma fgets_comment:
  "comment_ok c \<Longrightarrow> fgets_lines 256 (CHR ''#'' # c @ newline # r) = (CHR ''#'' # c @ [newline]) # fgets_lines 256 r"
  using fgets_lines_line [of "CHR ''#'' # c" 256 r]
  by (simp add: comment_ok_def newline_def NUL_def)

lemma fgets_station:
  "wf_station st \<Longrightarrow> fgets_lines 256 (station_line st @ newline # r)
     = (station_line st @ [newline]) # fgets_lines 256 r"
  by (rule fgets_lines_line) (auto simp: station_line_def wf_station_def field_def newline_def NUL_def)

lemma fgets_entry:
  "wf_entry e \<Longrightarrow> fgets_lines 256 (entry_line e @ newline # r)
     = (entry_line e @ [newline]) # fgets_lines 256 r"
  by (rule fgets_lines_line) (auto simp: entry_line_def wf_entry_def field_def newline_def NUL_def)

lemma fgets_entries:
  "list_all wf_entry es \<Longrightarrow> fgets_lines 256 (concat (map (\<lambda>e. entry_line e @ [newline]) es))
     = map (\<lambda>e. entry_line e @ [newline]) es"
  by (induction es) (auto simp: fgets_entry)

lemma is_comment_line:
  "wf_entry e \<Longrightarrow> \<not> is_comment (entry_line e @ [newline])"
  "wf_station st \<Longrightarrow> \<not> is_comment (station_line st @ [newline])"
  by (auto simp: is_comment_def entry_line_def station_line_def wf_entry_def wf_station_def field_def)

lemma assign_full_row:
  assumes "wf_entry e"
  shows "assign_row [SStr (e_departure e), SStr (e_route e), SStr (e_from e), SStr (e_arrival e),
     SStr (e_to e)] r = Inr (row_of e)"
  using assms by (simp add: assign_row_def store_def fit_def wf_entry_def field_def row_of_def)

lemma grow_rows: "take (count a) (rows (grow a)) = take (count a) (rows a) \<and> count (grow a) = count a"
  by (simp add: grow_def)

lemma read_entry:
  assumes "wf_entry e" and "array_ok a" and "rows a = map row_of es @ rs" and "count a = length es"
  shows "\<exists>a' rs'. read_row (entry_line e @ [newline]) a = Inr a' \<and> array_ok a' \<and>
     rows a' = map row_of (es @ [e]) @ rs' \<and> count a' = length (es @ [e])"
proof -
  obtain a' where a': "read_row (entry_line e @ [newline]) a = Inr a'" "array_ok a'"
    using read_row_ok [OF assms(2)] by blast
  obtain r rs2 where rs: "rs = r # rs2"
    using assms(2-4) by (cases rs) (auto simp: array_ok_def)
  have "a' = grow (a\<lparr>rows := map row_of es @ row_of e # rs2, count := Suc (length es)\<rparr>)"
    using a'(1) assms rs
    by (simp add: read_row_def is_comment_line sscanf_entry_line assign_full_row
        list_update_append Let_def)
  then have "\<exists>rs'. rows a' = map row_of (es @ [e]) @ rs'" "count a' = length (es @ [e])"
    by (auto simp: grow_def)
  with a' show ?thesis by blast
qed

lemma read_entries:
  assumes "list_all wf_entry fs" and "array_ok a" and "rows a = map row_of es @ rs" and "count a = length es"
  shows "\<exists>a' rs'. foldR read_row (map (\<lambda>e. entry_line e @ [newline]) fs) a = Inr a' \<and>
     rows a' = map row_of (es @ fs) @ rs' \<and> count a' = length (es @ fs)"
  using assms
proof (induction fs arbitrary: a es rs)
  case (Cons e fs)
  then obtain a1 rs1 where a1: "read_row (entry_line e @ [newline]) a = Inr a1" "array_ok a1"
    "rows a1 = map row_of (es @ [e]) @ rs1" "count a1 = length (es @ [e])"
    using read_entry [of e a es rs] by auto
  with Cons.IH [of a1 "es @ [e]" rs1] Cons.prems(1) show ?case by auto
qed auto

lemma read_header_file:
  assumes "wf_station st"
  shows "read_header ((CHR ''#'' # c1) # (station_line st @ [newline]) # lines) st0 = Inr (st, lines)"
proof -
  have "is_comment (CHR ''#'' # c1)" by (simp add: is_comment_def)
  moreover have "assign_station [SStr (station_name st), SStr (longitude st), SStr (latitude st)] st0
    = Inr st" using assms
    by (simp add: assign_station_def store_def fit_def wf_station_def field_def)
  ultimately show ?thesis using assms
    by (simp add: is_comment_line sscanf_station_line)
qed

lemma fgets_file:
  assumes "wf_station st" and "list_all wf_entry es" and "comment_ok c1" and "comment_ok c2"
  shows "fgets_lines 256 (file_text c1 st c2 es) =
    (CHR ''#'' # c1 @ [newline]) # (station_line st @ [newline]) # (CHR ''#'' # c2 @ [newline]) #
    map (\<lambda>e. entry_line e @ [newline]) es"
  using assms by (simp add: file_text_def fgets_comment fgets_station fgets_entries)

lemma read_file_text:
  assumes "wf_station st" and "list_all wf_entry es" and "comment_ok c1" and "comment_ok c2"
  shows "\<exists>tt'. readtimetable (Some (file_text c1 st c2 es)) st0 tt = Inr (int (length es), st, tt') \<and>
     shows_table tt' es"
proof -
  have "read_row (CHR ''#'' # c2 @ [newline]) \<lparr>rows = [blank_row], count = 0\<rparr>
      = Inr \<lparr>rows = [blank_row], count = 0\<rparr>"
    by (simp add: read_row_def is_comment_def)
  moreover obtain a rs where "foldR read_row (map (\<lambda>e. entry_line e @ [newline]) es)
      \<lparr>rows = [blank_row], count = 0\<rparr> = Inr a" "rows a = map row_of es @ rs" "count a = length es"
    using read_entries [OF assms(2) array_ok_start, of "[]"] by auto
  ultimately show ?thesis
    using read_header_file [OF assms(1), of "c1 @ [newline]"]
    by (simp add: readtimetable_def fgets_file [OF assms] shows_table_def)
qed

section \<open>Neighbour arguments\<close>

definition nb :: "string \<times> string \<Rightarrow> neighbour" where
  "nb x = \<lparr>ip_addr = fst x, udp_port = snd x, addr_and_port = fst x @ '':'' @ snd x\<rparr>"

definition nb_arg :: "string \<times> string \<Rightarrow> string" where
  "nb_arg x = fst x @ '':'' @ snd x"

lemma sscanf_nb_arg:
  assumes "ip_ok ip" and "port_ok port"
  shows "sscanf [Scanset (Some 60) not_colon, Lit CHR '':'', StrD] (ip @ CHR '':'' # port)
    = Inr [SStr ip, SStr port]"
proof -
  have "list_all not_colon ip" using assms(1) by (auto simp: ip_ok_def not_colon_def list_all_iff)
  then have "sscanf (Scanset (Some 60) not_colon # [Lit CHR '':'', StrD]) (ip @ CHR '':'' # port)
     = bindR (sscanf [Lit CHR '':'', StrD] (CHR '':'' # port)) (\<lambda>vs. Inr (SStr ip # vs))"
    using assms(1) by (intro sscanf_field) (auto simp: ip_ok_def not_colon_def)
  with assms(2) show ?thesis
    by (simp add: port_ok_def skip_nonspace take_nonspace del: sscanf.simps(4))
qed

lemma read_neighbour_ok:
  assumes "ip_ok (fst x)" and "port_ok (snd x)" and "length ns < sz"
  shows "read_neighbour (nb_arg x) (ns, sz)
    = Inr (ns @ [nb x], if sz = length ns + 1 then sz * 2 else sz)"
  using assms
  by (simp add: read_neighbour_def nb_arg_def sscanf_nb_arg nb_def fit_def ip_ok_def
      port_ok_def Let_def del: sscanf.simps)

lemma read_neighbours_ok:
  assumes "list_all (\<lambda>x. ip_ok (fst x) \<and> port_ok (snd x)) xs" and "length ns < sz"
  shows "\<exists>sz'. foldR read_neighbour (map nb_arg xs) (ns, sz) = Inr (ns @ map nb xs, sz') \<and>
    length ns + length xs < sz'"
  using assms
proof (induction xs arbitrary: ns sz)
  case (Cons x xs)
  then have s: "read_neighbour (nb_arg x) (ns, sz)
      = Inr (ns @ [nb x], if sz = length ns + 1 then sz * 2 else sz)"
    by (intro read_neighbour_ok) auto
  have "length (ns @ [nb x]) < (if sz = length ns + 1 then sz * 2 else sz)"
    using Cons.prems(2) by auto
  from Cons.IH [OF _ this] Cons.prems(1) s show ?case by simp
qed simp

section \<open>Properties\<close>

definition demo_entries :: "entry list" where
  "demo_entries =
     [\<lparr>e_departure = ''06:02'', e_route = ''busC_R'', e_from = ''stopC'', e_arrival = ''06:13'', e_to = ''TerminalR''\<rparr>,
      \<lparr>e_departure = ''07:11'', e_route = ''busC_F'', e_from = ''stopC'', e_arrival = ''07:30'', e_to = ''TerminalF''\<rparr>,
      \<lparr>e_departure = ''07:45'', e_route = ''busC_R'', e_from = ''stopC'', e_arrival = ''07:55'', e_to = ''TerminalR''\<rparr>,
      \<lparr>e_departure = ''08:17'', e_route = ''busC_F'', e_from = ''stopC'', e_arrival = ''08:37'', e_to = ''TerminalF''\<rparr>]"

definition demo_table :: table where
  "demo_table = Some (map row_of demo_entries)"

lemma demo_shows: "shows_table demo_table demo_entries"
  by (simp add: demo_table_def shows_table_def)

lemma demo_length: "length demo_entries = 4"
  by (simp add: demo_entries_def)

lemma demo_valid: "valid_times demo_entries ''07:30'' \<and> valid_times demo_entries ''07:00''
    \<and> valid_times demo_entries ''07:50''"
  by code_simp

text \<open>C24. The search returns row \<open>i\<close> exactly when \<open>i\<close> is the first row, among all rows but the
  last, that goes to the station and leaves no earlier than the given time.\<close>

theorem search_timetable_first:
  assumes "shows_table tt es" and "valid_times es st"
  shows "search_timetable tt (int (length es)) st go = Inr (int i) \<longleftrightarrow>
    i < length es - 1 \<and> minutes st \<le> minutes (e_departure (es ! i)) \<and> e_to (es ! i) = go \<and>
    (\<forall>j<i. \<not> (minutes st \<le> minutes (e_departure (es ! j)) \<and> e_to (es ! j) = go))"
  using board.hit [OF assms] by (simp add: serves_def)

theorem search_timetable_first_witness:
  "search_timetable demo_table 4 ''07:30'' ''TerminalR'' = Inr 2"
proof -
  have "\<forall>j<2. \<not> (minutes ''07:30'' \<le> minutes (e_departure (demo_entries ! j)) \<and>
      e_to (demo_entries ! j) = ''TerminalR'')" by code_simp
  moreover have "minutes ''07:30'' \<le> minutes (e_departure (demo_entries ! 2))"
    "e_to (demo_entries ! 2) = ''TerminalR''" by code_simp+
  ultimately show ?thesis
    using search_timetable_first [OF demo_shows, of "''07:30''" "''TerminalR''" 2] demo_valid
    by (simp add: demo_length)
qed

text \<open>The last row of the timetable is never considered: if no earlier row serves the request,
  the search answers -1, even when the last row does serve it.\<close>

lemma search_skips_last_row:
  assumes "shows_table tt (es @ [e])" and "valid_times (es @ [e]) st"
    and "\<forall>i<length es. \<not> (minutes st \<le> minutes (e_departure (es ! i)) \<and> e_to (es ! i) = go)"
  shows "search_timetable tt (int (length (es @ [e]))) st go = Inr (- 1)"
  using assms(3) by (subst board.miss [OF assms(1,2)]) (auto simp: serves_def nth_append)

text \<open>Reaching the station earlier is never worse: if a connection is found for a time, one is
  found for every earlier time, in the same row or an earlier one.\<close>

lemma search_timetable_earlier:
  assumes "shows_table tt es" and "valid_times es st" and "valid_times es st'"
    and "minutes st' \<le> minutes st" and "search_timetable tt (int (length es)) st go = Inr (int i)"
  shows "\<exists>j\<le>i. search_timetable tt (int (length es)) st' go = Inr (int j)"
  by (rule board.earlier [OF assms])

text \<open>In a timetable whose rows are sorted by departure time, the row found is the earliest
  departure to that station that can still be caught.\<close>

lemma search_timetable_earliest:
  assumes "shows_table tt es" and "valid_times es st"
    and "\<And>a b. a \<le> b \<Longrightarrow> b < length es \<Longrightarrow> departs_at es a \<le> departs_at es b"
    and "search_timetable tt (int (length es)) st go = Inr (int i)"
    and "j < length es" and "minutes st \<le> departs_at es j" and "e_to (es ! j) = go"
  shows "departs_at es i \<le> departs_at es j"
  using board.earliest [OF assms(1,2,4,3,5)] assms(6,7) by (simp add: serves_def departs_at_def)

text \<open>C25. Reading a timetable is memory safe on every file: whatever the bytes, no buffer
  overflows, the growing array is never indexed outside its allocation, and every row below the
  returned count is completely initialised. (A file that cannot be opened is reported as count 1
  with the table left as it was.)\<close>

theorem readtimetable_safe:
  "\<exists>st' n rs. readtimetable (Some bytes) st tt = Inr (int n, st', Some rs) \<and>
     n < length rs \<and> list_all complete (take n rs) \<and>
     readtimetable None st tt = Inr (1, st, tt)"
proof -
  obtain st' ls where h: "read_header (fgets_lines MAX_BUFFER bytes) st = Inr (st', ls)"
    using read_header_ok by blast
  obtain a where a: "foldR read_row ls \<lparr>rows = [blank_row], count = 0\<rparr> = Inr a" "array_ok a"
    using read_rows_ok [OF array_ok_start] by blast
  then show ?thesis using h by (simp add: readtimetable_def array_ok_def)
qed

text \<open>C26. A timetable file in the layout the builders write is read back row by row.\<close>

theorem readtimetable_roundtrip:
  assumes "wf_station st" and "list_all wf_entry es" and "comment_ok c1" and "comment_ok c2"
  shows "\<exists>tt'. readtimetable (Some (file_text c1 st c2 es)) st0 tt = Inr (int (length es), st, tt') \<and>
     shows_table tt' es"
  by (rule read_file_text [OF assms])

definition demo_station :: station where
  "demo_station = \<lparr>station_name = ''JunctionC'', longitude = ''116.0400'', latitude = ''-31.6400''\<rparr>"

theorem readtimetable_roundtrip_witness:
  "\<exists>tt'. readtimetable (Some (file_text '' station'' demo_station '' rows'' demo_entries)) demo_station None
     = Inr (int (length demo_entries), demo_station, tt') \<and> shows_table tt' demo_entries"
  by (rule readtimetable_roundtrip) code_simp+

text \<open>The neighbour arguments of the command line, \<open>ip:port\<close> each, become the neighbour array
  in order, with the text \<open>ip:port\<close> kept beside the parts.\<close>

lemma readneighbours_parses:
  assumes "list_all (\<lambda>x. ip_ok (fst x) \<and> port_ok (snd x)) xs"
  shows "readneighbours (prog # name # tcp # udp # map nb_arg xs) = Inr (int (length xs), map nb xs)"
  using read_neighbours_ok [OF assms, of "[]" 1] by (auto simp: readneighbours_def)

text \<open>The scan width of \<open>readneighbours\<close> (60) exceeds the buffer it fills (46): a host part of
  46 to 60 characters is written past the end of \<open>ip_addr\<close>.\<close>

lemma readneighbours_overflow:
  assumes "46 \<le> length host" and "length host \<le> 60" and "CHR '':'' \<notin> set host" and "port_ok port"
  shows "readneighbours [prog, name, tcp, udp, host @ '':'' @ port] = Inl BufferOverflow"
proof -
  have "list_all not_colon host" using assms(3) by (auto simp: not_colon_def list_all_iff)
  then have "sscanf (Scanset (Some 60) not_colon # [Lit CHR '':'', StrD]) (host @ CHR '':'' # port)
     = bindR (sscanf [Lit CHR '':'', StrD] (CHR '':'' # port)) (\<lambda>vs. Inr (SStr host # vs))"
    using assms by (intro sscanf_field) (auto simp: not_colon_def)
  with assms show ?thesis
    by (simp add: readneighbours_def read_neighbour_def fit_def port_ok_def skip_nonspace
        take_nonspace del: sscanf.simps(4))
qed

text \<open>\<open>timeToMinutes\<close> inverts the clock text \<open>%02i:%02i\<close> the timetables are printed with.\<close>

lemma timeToMinutes_inverts_clock:
  assumes "0 \<le> m" and "in_int m"
  shows "timeToMinutes (dec02 (m div 60) @ '':'' @ dec02 (m mod 60)) = Inr m"
  using timeToMinutes_clock [OF assms] by (simp add: clock_def)

end
