(* ===== verification/Client.thy ===== *)
theory Client
  imports Macros
begin

text \<open>
  \<open>src/client/client.h\<close> and \<open>client.c\<close>: the linked list of browser connections that wait for an
  answer, and the ring of the last 100 queries.

  \<^item> The list is a list of nodes, head first; the globals \<open>head_client\<close>, \<open>queries\<close> and
    \<open>query_index\<close> are the record \<open>client_state\<close>. \<open>malloc\<close> is assumed to succeed.
  \<^item> \<open>search_query\<close> returns an array of copies of the matching slots (\<open>None\<close> for NULL), so what a
    caller writes through the result does not reach the ring.
  \<^item> The locale \<open>waiting_list\<close> is the contract of the connection list, \<open>query_store\<close> that of the
    ring; both are interpreted here.
\<close>

section \<open>State\<close>

definition MAX_QUERIES :: nat where [simp]: "MAX_QUERIES = 100"

record query =
  q_start_time :: string
  q_destination :: string
  q_answers :: string

record client_node =
  fd :: int
  c_query :: query

record client_state =
  head_client :: "client_node list"
  queries :: "query list"
  query_index :: int

definition new_query :: query where
  "new_query = \<lparr>q_start_time = [], q_destination = [], q_answers = []\<rparr>"

text \<open>The globals start zeroed.\<close>

definition init_clients :: client_state where
  "init_clients = \<lparr>head_client = [], queries = replicate MAX_QUERIES new_query, query_index = 0\<rparr>"

section \<open>Operations\<close>

definition add_client :: "int \<Rightarrow> query \<Rightarrow> client_state \<Rightarrow> client_state" where
  "add_client f q s = s\<lparr>head_client := \<lparr>fd = f, c_query = q\<rparr> # head_client s\<rparr>"

definition same_query :: "query \<Rightarrow> query \<Rightarrow> bool" where
  "same_query a b \<longleftrightarrow> q_destination a = q_destination b \<and> q_start_time a = q_start_time b"

fun find_node :: "query \<Rightarrow> client_node list \<Rightarrow> client_node option" where
  "find_node q [] = None"
| "find_node q (n # ns) = (if same_query (c_query n) q then Some n else find_node q ns)"

definition find_client :: "query \<Rightarrow> client_state \<Rightarrow> client_node option" where
  "find_client q s = find_node q (head_client s)"

fun unlink :: "int \<Rightarrow> client_node list \<Rightarrow> client_node list" where
  "unlink f [] = []"
| "unlink f (n # ns) = (if fd n = f then ns else n # unlink f ns)"

definition remove_client :: "int \<Rightarrow> client_state \<Rightarrow> client_state" where
  "remove_client f s = s\<lparr>head_client := unlink f (head_client s)\<rparr>"

definition add_query :: "query \<Rightarrow> client_state \<Rightarrow> client_state" where
  "add_query q s =
     s\<lparr>queries := (queries s)[nat (query_index s mod int MAX_QUERIES) := q],
       query_index := (query_index s + 1) mod int MAX_QUERIES\<rparr>"

definition search_query :: "string \<Rightarrow> string \<Rightarrow> client_state \<Rightarrow> query list option" where
  "search_query dest time s =
     (let found_queries = filter (\<lambda>q. q_destination q = dest \<and> q_start_time q = time) (queries s)
      in if found_queries = [] then None else Some found_queries)"

definition clients_ok :: "client_state \<Rightarrow> bool" where
  "clients_ok s \<longleftrightarrow> length (queries s) = MAX_QUERIES \<and> 0 \<le> query_index s \<and>
     query_index s < int MAX_QUERIES \<and> distinct (map fd (head_client s))"

section \<open>The connection list\<close>

lemma fds_unlink: "map fd (unlink f ns) = remove1 f (map fd ns)"
  by (induction f ns rule: unlink.induct) auto

lemma unlink_absent: "f \<notin> fd ` set ns \<Longrightarrow> unlink f ns = ns"
  by (induction f ns rule: unlink.induct) auto

lemma set_unlink: "distinct (map fd ns) \<Longrightarrow> set (unlink f ns) = {n \<in> set ns. fd n \<noteq> f}"
  by (induction f ns rule: unlink.induct) (auto simp: image_iff)

lemma set_unlink_subset: "set (unlink f ns) \<subseteq> set ns"
  by (induction f ns rule: unlink.induct) auto

lemma distinct_unlink: "distinct (map fd ns) \<Longrightarrow> distinct (map fd (unlink f ns))"
  by (simp add: fds_unlink distinct_remove1)

lemma length_unlink: "f \<in> fd ` set ns \<Longrightarrow> length ns = Suc (length (unlink f ns))"
  by (induction f ns rule: unlink.induct) auto

lemma find_node_Some: "find_node q ns = Some n \<Longrightarrow> n \<in> set ns \<and> same_query (c_query n) q"
  by (induction q ns rule: find_node.induct) (auto split: if_splits)

lemma find_node_None: "find_node q ns = None \<longleftrightarrow> (\<forall>n\<in>set ns. \<not> same_query (c_query n) q)"
  by (induction q ns rule: find_node.induct) auto

lemma find_node_filter: "find_node q ns = (case filter (\<lambda>n. same_query (c_query n) q) ns of [] \<Rightarrow> None | n # _ \<Rightarrow> Some n)"
  by (induction q ns rule: find_node.induct) auto

lemma unlink_filter: "distinct (map fd ns) \<Longrightarrow> unlink f ns = filter (\<lambda>n. fd n \<noteq> f) ns"
proof (induction f ns rule: unlink.induct)
  case (2 f n ns)
  then show ?case
    by (auto simp: image_iff intro!: filter_True [symmetric])
qed simp

section \<open>The contract of the connection list\<close>

text \<open>
  \<open>fds\<close> lists the connected descriptors, \<open>waits s q\<close> those whose query is \<open>q\<close>. Answering a query
  is the loop that finds, answers and removes until nothing is found.
\<close>

locale waiting_list =
  fixes add :: "int \<Rightarrow> 'q \<Rightarrow> 's \<Rightarrow> 's"
    and remove :: "int \<Rightarrow> 's \<Rightarrow> 's"
    and find_fd :: "'q \<Rightarrow> 's \<Rightarrow> int option"
    and fds :: "'s \<Rightarrow> int list"
    and waits :: "'s \<Rightarrow> 'q \<Rightarrow> int list"
  assumes fds_add: "fds (add f q s) = f # fds s"
    and fds_remove: "fds (remove f s) = remove1 f (fds s)"
    and find_waits: "find_fd q s = (case waits s q of [] \<Rightarrow> None | f # _ \<Rightarrow> Some f)"
    and waits_fds: "f \<in> set (waits s q) \<Longrightarrow> f \<in> set (fds s)"
    and waits_remove: "distinct (fds s) \<Longrightarrow> waits (remove f s) q = filter (\<lambda>g. g \<noteq> f) (waits s q)"
    and waits_distinct: "distinct (fds s) \<Longrightarrow> distinct (waits s q)"
begin

lemma register_distinct:
  "distinct (fds s) \<Longrightarrow> distinct (fds (add f q (remove f s)))"
  by (simp add: fds_add fds_remove distinct_remove1)

lemma found_shrinks:
  assumes "find_fd q s = Some f"
  shows "length (fds (remove f s)) < length (fds s)"
proof -
  have "f \<in> set (fds s)"
    using assms waits_fds [of f s q] by (auto simp: find_waits split: list.splits)
  then have "0 < length (fds s)" by (cases "fds s") auto
  with \<open>f \<in> set (fds s)\<close> show ?thesis by (simp add: fds_remove length_remove1)
qed

lemma found_waits:
  assumes "distinct (fds s)" and "find_fd q s = Some f"
  shows "waits s q = f # waits (remove f s) q"
proof -
  from assms(2) obtain fs where fs: "waits s q = f # fs"
    by (auto simp: find_waits split: list.splits)
  with waits_distinct [OF assms(1), of q] have "f \<notin> set fs" by simp
  then have "filter (\<lambda>g. g \<noteq> f) (waits s q) = fs" by (auto simp: fs intro: filter_True)
  with fs waits_remove [OF assms(1), of f q] show ?thesis by simp
qed

end

definition fds_of :: "client_state \<Rightarrow> int list" where
  "fds_of s = map fd (head_client s)"

definition waiting :: "client_state \<Rightarrow> query \<Rightarrow> int list" where
  "waiting s q = map fd (filter (\<lambda>n. same_query (c_query n) q) (head_client s))"

definition find_fd :: "query \<Rightarrow> client_state \<Rightarrow> int option" where
  "find_fd q s = map_option fd (find_client q s)"

interpretation conns: waiting_list add_client remove_client find_fd fds_of waiting
proof
  fix f q s and g :: int
  show "fds_of (add_client f q s) = f # fds_of s" by (simp add: fds_of_def add_client_def)
  show "fds_of (remove_client f s) = remove1 f (fds_of s)"
    by (simp add: fds_of_def remove_client_def fds_unlink)
  show "find_fd q s = (case waiting s q of [] \<Rightarrow> None | f # _ \<Rightarrow> Some f)"
    by (simp add: find_fd_def find_client_def waiting_def find_node_filter split: list.splits)
  show "g \<in> set (fds_of s)" if "g \<in> set (waiting s q)"
    using that by (auto simp: waiting_def fds_of_def)
  show "waiting (remove_client f s) q = filter (\<lambda>g. g \<noteq> f) (waiting s q)" if "distinct (fds_of s)"
    using that by (simp add: waiting_def remove_client_def fds_of_def unlink_filter filter_map comp_def conj_commute)
  show "distinct (waiting s q)" if "distinct (fds_of s)"
    using that by (simp add: waiting_def fds_of_def distinct_map_filter)
qed

section \<open>The contract of the query ring\<close>

text \<open>
  \<open>has s k\<close>: the store finds the key; \<open>age s k n\<close>: the key was stored, and it survives the next
  \<open>n\<close> insertions.
\<close>

locale query_store =
  fixes store :: "'q \<Rightarrow> 's \<Rightarrow> 's"
    and has :: "'s \<Rightarrow> 'k \<Rightarrow> bool"
    and key :: "'q \<Rightarrow> 'k"
    and keeps :: "nat \<Rightarrow> 's \<Rightarrow> 'k \<Rightarrow> bool"
    and ok :: "'s \<Rightarrow> bool"
    and cap :: nat
  assumes ok_store: "ok s \<Longrightarrow> ok (store q s)"
    and keeps_store: "ok s \<Longrightarrow> keeps cap (store q s) (key q)"
    and keeps_step: "ok s \<Longrightarrow> keeps (Suc n) s k \<Longrightarrow> keeps n (store q s) k"
    and keeps_has: "ok s \<Longrightarrow> keeps n s k \<Longrightarrow> has s k"
begin

lemma ok_fold: "ok s \<Longrightarrow> ok (fold store qs s)"
  by (induction qs arbitrary: s) (auto simp: ok_store)

lemma keeps_fold: "ok s \<Longrightarrow> keeps (length qs + n) s k \<Longrightarrow> keeps n (fold store qs s) k"
  by (induction qs arbitrary: s) (auto simp: ok_store keeps_step)

lemma survives:
  assumes "ok s" and "length qs \<le> cap"
  shows "has (fold store qs (store q s)) (key q)"
proof -
  have "keeps (length qs + (cap - length qs)) (store q s) (key q)"
    using keeps_store [OF assms(1)] assms(2) by simp
  from keeps_fold [OF ok_store [OF assms(1)] this] show ?thesis
    using keeps_has ok_fold [OF ok_store [OF assms(1)]] by blast
qed

end

definition ring_ok :: "client_state \<Rightarrow> bool" where
  "ring_ok s \<longleftrightarrow> length (queries s) = MAX_QUERIES \<and> 0 \<le> query_index s \<and> query_index s < int MAX_QUERIES"

definition query_key :: "query \<Rightarrow> string \<times> string" where
  "query_key q = (q_destination q, q_start_time q)"

definition ring_has :: "client_state \<Rightarrow> string \<times> string \<Rightarrow> bool" where
  "ring_has s k \<longleftrightarrow> search_query (fst k) (snd k) s \<noteq> None"

text \<open>Some slot with the key is at least \<open>n\<close> insertions away from being overwritten.\<close>

definition ring_keeps :: "nat \<Rightarrow> client_state \<Rightarrow> string \<times> string \<Rightarrow> bool" where
  "ring_keeps n s k \<longleftrightarrow>
     (\<exists>i<MAX_QUERIES. query_key (queries s ! i) = k \<and>
        int n \<le> (int i - query_index s) mod int MAX_QUERIES)"

lemma ring_has_iff: "ring_has s k \<longleftrightarrow> (\<exists>q\<in>set (queries s). query_key q = k)"
  by (cases k) (auto simp: ring_has_def search_query_def Let_def filter_empty_conv query_key_def)

lemma ring_distance:
  assumes "0 \<le> (x::int)" and "x < 100" and "0 \<le> y" and "y < 100"
  shows "(x - y) mod 100 = (if y \<le> x then x - y else x - y + 100)"
proof (cases "y \<le> x")
  case True
  with assms show ?thesis by (simp add: mod_pos_pos_trivial)
next
  case False
  have "(x - y) mod 100 = (x - y + 100) mod 100" by simp
  also have "\<dots> = x - y + 100" using False assms by (simp add: mod_pos_pos_trivial del: mod_add_self2)
  finally show ?thesis using False by simp
qed

lemma ring_next: "0 \<le> (y::int) \<Longrightarrow> y < 100 \<Longrightarrow> (y + 1) mod 100 = (if y = 99 then 0 else y + 1)"
  by (simp add: mod_pos_pos_trivial)

lemma mod_pred:
  assumes "0 \<le> (x::int)" and "0 \<le> y" and "y < 100" and "x < 100" and "x \<noteq> y"
  shows "(x - (y + 1) mod 100) mod 100 = (x - y) mod 100 - 1"
  using assms ring_distance [of x y] ring_distance [of x "(y + 1) mod 100"] ring_next [of y]
  by (auto split: if_splits)

lemma ring_farthest:
  assumes "0 \<le> (y::int)" and "y < 100"
  shows "(y - (y + 1) mod 100) mod 100 = 99"
  using assms ring_distance [of y "(y + 1) mod 100"] ring_next [of y] by (auto split: if_splits)

interpretation ring: query_store add_query ring_has query_key ring_keeps ring_ok 99
proof
  fix s q n k
  assume ok: "ring_ok s"
  define j where "j = nat (query_index s)"
  have idx: "0 \<le> query_index s" "query_index s < 100" "length (queries s) = 100"
    using ok by (simp_all add: ring_ok_def)
  then have j: "j < 100" "query_index s = int j" by (simp_all add: j_def)
  have add: "queries (add_query q s) = (queries s)[j := q]"
    "query_index (add_query q s) = (int j + 1) mod 100"
    using j by (simp_all add: add_query_def)
  show "ring_ok (add_query q s)"
    using idx by (simp add: ring_ok_def add_query_def)
  have "99 \<le> (int j - (int j + 1) mod 100) mod 100" using j(1) ring_farthest [of "int j"] by simp
  then show "ring_keeps 99 (add_query q s) (query_key q)"
    using j idx by (auto simp: ring_keeps_def add intro!: exI [of _ j])
  show "ring_keeps n (add_query q s) k" if "ring_keeps (Suc n) s k"
  proof -
    from that obtain i where i: "i < 100" "query_key (queries s ! i) = k"
      "int (Suc n) \<le> (int i - int j) mod 100"
      using j by (auto simp: ring_keeps_def)
    then have "i \<noteq> j" by auto
    with mod_pred [of "int i" "int j"] i j(1)
    have "int n \<le> (int i - (int j + 1) mod 100) mod 100" by simp
    with i \<open>i \<noteq> j\<close> show ?thesis by (auto simp: ring_keeps_def add intro!: exI [of _ i])
  qed
  show "ring_has s k" if "ring_keeps n s k"
    using that idx by (auto simp: ring_keeps_def ring_has_iff)
qed

section \<open>Exact lifetime of a query\<close>

lemma add_query_slots:
  assumes "ring_ok s"
  shows "length (queries (add_query q s)) = 100" and
    "query_index (add_query q s) = (query_index s + 1) mod 100" and
    "queries (add_query q s) = (queries s)[nat (query_index s) := q]"
  using assms by (simp_all add: ring_ok_def add_query_def)

text \<open>\<open>n\<close> insertions fill the \<open>n\<close> slots from the index on, in order.\<close>

lemma fold_add_query_slots:
  assumes "ring_ok s" and "length qs \<le> 100"
  shows "query_index (fold add_query qs s) = (query_index s + int (length qs)) mod 100 \<and>
    (\<forall>i<length qs. queries (fold add_query qs s) ! nat ((query_index s + int i) mod 100) = qs ! i)"
  using assms(2)
proof (induction qs rule: rev_induct)
  case Nil
  then show ?case using assms(1) by (simp add: ring_ok_def)
next
  case (snoc q qs)
  let ?s = "fold add_query qs s"
  have ok: "ring_ok ?s" by (rule ring.ok_fold [OF assms(1)])
  have len: "length (queries ?s) = 100" using ok by (simp add: ring_ok_def)
  have idx: "query_index ?s = (query_index s + int (length qs)) mod 100"
    and old: "\<forall>i<length qs. queries ?s ! nat ((query_index s + int i) mod 100) = qs ! i"
    using snoc by simp_all
  have new: "nat ((query_index s + int (length qs)) mod 100) < 100" by simp
  have other: "nat ((query_index s + int i) mod 100) \<noteq> nat ((query_index s + int (length qs)) mod 100)"
    if "i < length qs" for i
  proof
    assume "nat ((query_index s + int i) mod 100) = nat ((query_index s + int (length qs)) mod 100)"
    then have "(query_index s + int i) mod 100 = (query_index s + int (length qs)) mod 100" by simp
    then have "(int (length qs) - int i) mod 100 = 0"
      by (metis add_diff_cancel_left mod_eq_dvd_iff dvd_eq_mod_eq_0)
    with that snoc.prems show False by simp
  qed
  let ?k = "nat ((query_index s + int (length qs)) mod 100)"
  have q: "queries (add_query q ?s) = (queries ?s)[?k := q]"
    using add_query_slots(3) [OF ok, of q] idx by simp
  have "queries (add_query q ?s) ! nat ((query_index s + int i) mod 100) = (qs @ [q]) ! i"
    if "i < length (qs @ [q])" for i
  proof (cases "i < length qs")
    case True
    with other [OF True] old show ?thesis by (simp add: q nth_append)
  next
    case False
    with that have "i = length qs" by simp
    with new len show ?thesis by (simp add: q)
  qed
  moreover have "query_index (add_query q ?s) = (query_index s + int (length (qs @ [q]))) mod 100"
    using add_query_slots(2) [OF ok, of q] idx by (simp add: mod_add_left_eq add.assoc add.commute [of 1])
  ultimately show ?case by simp
qed

lemma ring_overwritten:
  assumes "ring_ok s" and "length qs = 100"
  shows "set (queries (fold add_query qs s)) \<subseteq> set qs"
proof
  fix x assume x: "x \<in> set (queries (fold add_query qs s))"
  have "length (queries (fold add_query qs s)) = 100"
    using ring.ok_fold [OF assms(1), of qs] by (simp add: ring_ok_def)
  with x obtain j where j: "j < 100" "x = queries (fold add_query qs s) ! j"
    by (auto simp: in_set_conv_nth)
  define i where "i = nat ((int j - query_index s) mod 100)"
  have i: "i < length qs" "int i = (int j - query_index s) mod 100" using assms(2) by (simp_all add: i_def)
  have "(query_index s + int i) mod 100 = int j"
    using j(1) by (simp add: i(2) mod_add_right_eq)
  then have "x = qs ! i"
    using fold_add_query_slots [OF assms(1), of qs] assms(2) i(1) j(2) by auto
  with i(1) show "x \<in> set qs" by simp
qed

section \<open>How long a query is kept\<close>

text \<open>A registered query is found again after up to 99 further registrations, whatever they are.\<close>

lemma query_survives:
  assumes "length (queries s) = 100" and "0 \<le> query_index s" and "query_index s < 100"
    and "length qs \<le> 99"
  shows "search_query (q_destination q) (q_start_time q) (fold add_query qs (add_query q s)) \<noteq> None"
proof -
  have "ring_ok s" using assms(1-3) by (simp add: ring_ok_def)
  from ring.survives [OF this assms(4), of q] show ?thesis
    by (simp add: ring_has_def query_key_def)
qed

definition demo_q :: "string \<Rightarrow> query" where
  "demo_q d = \<lparr>q_start_time = ''08:39'', q_destination = d, q_answers = []\<rparr>"

text \<open>After 100 registrations of other queries it is gone: the ring holds exactly the last 100.\<close>

lemma query_evicted:
  assumes "length (queries s) = 100" and "0 \<le> query_index s" and "query_index s < 100"
    and "length qs = 100" and "\<forall>q\<in>set qs. (q_destination q, q_start_time q) \<noteq> (d, t)"
  shows "search_query d t (fold add_query qs s) = None"
proof -
  have "ring_ok s" using assms(1-3) by (simp add: ring_ok_def)
  from ring_overwritten [OF this assms(4)] assms(5) show ?thesis
    by (auto simp: search_query_def Let_def filter_empty_conv)
qed

section \<open>Property\<close>

text \<open>C33. The ring holds exactly the last 100 queries: after a query is registered, and then others are,
  whatever the ring held before, it is found again as long as there were fewer than 100 others, and then no
  more.\<close>

theorem ring_last_100:
  assumes "length (queries s) = 100" and "0 \<le> query_index s" and "query_index s < 100"
    and "\<forall>q\<in>set qs. (q_destination q, q_start_time q) \<noteq> (q_destination q0, q_start_time q0)"
  shows "search_query (q_destination q0) (q_start_time q0) (fold add_query qs (add_query q0 s)) = None \<longleftrightarrow>
    100 \<le> length qs"
proof (cases "100 \<le> length qs")
  case True
  define r where "r = fold add_query (take (length qs - 100) qs) (add_query q0 s)"
  have "ring_ok s" using assms(1-3) by (simp add: ring_ok_def)
  then have r: "ring_ok r" unfolding r_def by (intro ring.ok_fold ring.ok_store)
  have "fold add_query qs (add_query q0 s) = fold add_query (drop (length qs - 100) qs) r"
    unfolding r_def by (metis append_take_drop_id fold_append comp_apply)
  moreover have "length (drop (length qs - 100) qs) = 100" using True by simp
  moreover have "\<forall>q\<in>set (drop (length qs - 100) qs). (q_destination q, q_start_time q) \<noteq> (q_destination q0, q_start_time q0)"
    using assms(4) by (auto dest: in_set_dropD)
  ultimately show ?thesis using True query_evicted [of r] r by (simp add: ring_ok_def)
next
  case False
  then show ?thesis using query_survives [OF assms(1-3), of qs q0] by simp
qed

theorem ring_last_100_witness:
  "search_query ''BusportC'' ''08:39'' (fold add_query (replicate 99 (demo_q ''StationA''))
     (add_query (demo_q ''BusportC'') init_clients)) \<noteq> None \<and>
   search_query ''BusportC'' ''08:39'' (fold add_query (replicate 100 (demo_q ''StationA''))
     (add_query (demo_q ''BusportC'') init_clients)) = None"
  using ring_last_100 [of init_clients "replicate 99 (demo_q ''StationA'')" "demo_q ''BusportC''"]
    ring_last_100 [of init_clients "replicate 100 (demo_q ''StationA'')" "demo_q ''BusportC''"]
  by (simp add: init_clients_def demo_q_def)

end
