(* ===== verification/Sockets.thy ===== *)
theory Sockets
  imports Macros "HOL-Library.Word"
begin

text \<open>
  \<open>src/server/\<close>: the socket helpers. The operating system is a parameter: the record \<open>os\<close> holds one
  function per system call the helpers make, with the C return values; \<open>getaddrinfo\<close> gives
  \<open>None\<close> when it reports an error. What a helper does to the outside is a list of \<open>event\<close>s.

  The lemmas say when \<open>talk_to\<close> delivers, and what \<open>setup_TCP\<close> and \<open>setup_UDP\<close> try in which order.
\<close>

section \<open>The operating system as a parameter\<close>

datatype family = AF_INET | AF_INET6 | AF_UNSPEC

datatype socktype = SOCK_STREAM | SOCK_DGRAM

record hints =
  h_family :: family
  h_passive :: bool
  h_socktype :: socktype

record addrinfo =
  ai_family :: family
  ai_addr :: string

record os =
  sys_getaddrinfo :: "string option \<Rightarrow> string \<Rightarrow> hints \<Rightarrow> addrinfo list option"
  sys_socket :: "addrinfo \<Rightarrow> int"
  sys_setsockopt :: "int \<Rightarrow> string \<Rightarrow> int"
  sys_bind :: "int \<Rightarrow> addrinfo \<Rightarrow> int"
  sys_listen :: "int \<Rightarrow> nat \<Rightarrow> int"
  sys_sendto :: "int \<Rightarrow> string \<Rightarrow> addrinfo \<Rightarrow> int"

datatype event =
    UdpSend string string string   \<comment> \<open>host, port, text of a datagram\<close>
  | TcpSend int string             \<comment> \<open>descriptor, text\<close>
  | TcpClose int

section \<open>server.c\<close>

datatype sockaddr =
    SockIn string "16 word"     \<comment> \<open>\<open>sockaddr_in\<close>: address and port\<close>
  | SockIn6 string "16 word"    \<comment> \<open>\<open>sockaddr_in6\<close>\<close>

fun get_in_addr :: "sockaddr \<Rightarrow> string" where
  "get_in_addr (SockIn a p) = a"
| "get_in_addr (SockIn6 a p) = a"

fun get_in_port :: "sockaddr \<Rightarrow> 16 word" where
  "get_in_port (SockIn a p) = p"
| "get_in_port (SockIn6 a p) = p"

section \<open>serverTCP.c\<close>

definition getAddrInfo :: "os \<Rightarrow> string \<Rightarrow> addrinfo list option" where
  "getAddrInfo os port =
     sys_getaddrinfo os None port \<lparr>h_family = AF_INET, h_passive = True, h_socktype = SOCK_STREAM\<rparr>"

text \<open>The argument is what \<open>accept\<close> returned.\<close>

definition new_connection :: "int \<Rightarrow> int" where
  "new_connection accepted = (if accepted = - 1 then - 1 else accepted)"

text \<open>
  The loop over the addresses leaves by \<open>exit\<close> or by \<open>break\<close> in its first round. With no address
  the descriptor keeps the value it had (\<open>fd0\<close>).
\<close>

definition setup_TCP :: "os \<Rightarrow> int \<Rightarrow> string \<Rightarrow> int res" where
  "setup_TCP os fd0 port =
     bindR (case getAddrInfo os port of
              None \<Rightarrow> Inr fd0
            | Some [] \<Rightarrow> Inr fd0
            | Some (ai # _) \<Rightarrow>
                let sockfd = sys_socket os ai in
                bindR (checkR (sockfd \<noteq> - 1) (Exit 1)) (\<lambda>_.
                bindR (checkR (sys_setsockopt os sockfd ''SO_REUSEADDR'' \<noteq> - 1) (Exit 1)) (\<lambda>_.
                bindR (checkR (sys_setsockopt os sockfd ''SO_RCVTIMEO'' \<noteq> - 1) (Exit 1)) (\<lambda>_.
                bindR (checkR (sys_bind os sockfd ai \<noteq> - 1) (Exit 1)) (\<lambda>_.
                Inr sockfd))))) (\<lambda>sockfd.
     bindR (checkR (sys_listen os sockfd BACKLOG \<noteq> - 1) (Exit 1)) (\<lambda>_.
     Inr sockfd))"

section \<open>serverUDP.c\<close>

text \<open>
  \<open>setup_UDP\<close> advances with \<open>p = servinfo->ai_next\<close>: after any failure it goes (back) to the second
  address of the list, so the loop may not end. \<open>None\<close> means that it does not return. It returns a
  pointer into the list it has just freed; the model returns the descriptor with \<open>Freed\<close>, or
  \<open>NullPtr\<close>. The descriptor variable is the caller's and keeps the last value assigned to it.
\<close>

datatype ai_ptr = NullPtr | Freed

definition second_addr :: "addrinfo list \<Rightarrow> addrinfo option" where
  "second_addr servinfo = (case servinfo of _ # ai # _ \<Rightarrow> Some ai | _ \<Rightarrow> None)"

partial_function (option) bind_loop ::
  "os \<Rightarrow> addrinfo list \<Rightarrow> int \<Rightarrow> addrinfo option \<Rightarrow> (int \<times> bool) option" where
  "bind_loop os servinfo sockfd p =
     (if p = None then Some (sockfd, False)
      else let ai = the p; s = sys_socket os ai in
        if s = - 1 then bind_loop os servinfo s (second_addr servinfo)
        else if sys_bind os s ai = - 1 then bind_loop os servinfo s (second_addr servinfo)
        else Some (s, True))"

definition setup_UDP :: "os \<Rightarrow> int \<Rightarrow> string \<Rightarrow> (int \<times> ai_ptr) option" where
  "setup_UDP os fd0 port =
     (case sys_getaddrinfo os None port
             \<lparr>h_family = AF_UNSPEC, h_passive = True, h_socktype = SOCK_DGRAM\<rparr> of
        None \<Rightarrow> Some (fd0, NullPtr)
      | Some servinfo \<Rightarrow>
          map_option (\<lambda>(s, bound). (s, if bound then Freed else NullPtr))
            (bind_loop os servinfo fd0 (case servinfo of [] \<Rightarrow> None | ai # _ \<Rightarrow> Some ai)))"

text \<open>Reading through the pointer \<open>setup_UDP\<close> returned.\<close>

definition deref_addrinfo :: "ai_ptr \<Rightarrow> unit res" where
  "deref_addrinfo p = (case p of NullPtr \<Rightarrow> Inl NullDeref | Freed \<Rightarrow> Inl UseAfterFree)"

fun first_socket :: "os \<Rightarrow> addrinfo list \<Rightarrow> (int \<times> addrinfo) option" where
  "first_socket os [] = None"
| "first_socket os (ai # ais) =
     (let s = sys_socket os ai in if s = - 1 then first_socket os ais else Some (s, ai))"

definition talk_to :: "os \<Rightarrow> string \<Rightarrow> string \<Rightarrow> string \<Rightarrow> (int \<times> event list) res" where
  "talk_to os hostname port payload =
     (case sys_getaddrinfo os (Some hostname) port
             \<lparr>h_family = AF_UNSPEC, h_passive = False, h_socktype = SOCK_DGRAM\<rparr> of
        None \<Rightarrow> Inr (1, [])
      | Some ais \<Rightarrow>
          (case first_socket os ais of
             None \<Rightarrow> Inr (2, [])
           | Some (s, ai) \<Rightarrow>
               if sys_sendto os s payload ai = - 1 then Inl (Exit 1)
               else Inr (0, [UdpSend hostname port payload])))"

section \<open>Lemmas\<close>

text \<open>A host and port the system can reach: the name resolves, and the socket and the send work.\<close>

definition reachable_host :: "os \<Rightarrow> string \<Rightarrow> string \<Rightarrow> bool" where
  "reachable_host os hostname port \<longleftrightarrow>
     (case sys_getaddrinfo os (Some hostname) port
             \<lparr>h_family = AF_UNSPEC, h_passive = False, h_socktype = SOCK_DGRAM\<rparr> of
        None \<Rightarrow> False
      | Some ais \<Rightarrow> first_socket os ais \<noteq> None)"

definition sends_work :: "os \<Rightarrow> bool" where
  "sends_work os \<longleftrightarrow> (\<forall>s text ai. sys_sendto os s text ai \<noteq> - 1)"

lemma talk_to_delivers:
  assumes "reachable_host os host port" and "sends_work os"
  shows "talk_to os host port text = Inr (0, [UdpSend host port text])"
  using assms by (auto simp: reachable_host_def talk_to_def sends_work_def split: option.splits)

lemma talk_to_Inr:
  assumes "talk_to os host port text = Inr (rv, ev)"
  shows "ev = [] \<and> rv \<noteq> 0 \<or> ev = [UdpSend host port text] \<and> rv = 0"
  using assms by (auto simp: talk_to_def split: option.splits if_splits)

lemma first_socket_Some:
  "first_socket os ais = Some (s, ai) \<Longrightarrow> ai \<in> set ais \<and> s = sys_socket os ai \<and> s \<noteq> - 1"
  by (induction os ais rule: first_socket.induct) (auto simp: Let_def split: if_splits)

lemma setup_TCP_Inr:
  assumes "setup_TCP os fd0 port = Inr sockfd"
  shows "sys_listen os sockfd BACKLOG \<noteq> - 1 \<and>
    (sockfd = fd0 \<or> (\<exists>ai. sockfd = sys_socket os ai \<and> sockfd \<noteq> - 1 \<and> sys_bind os sockfd ai \<noteq> - 1))"
  using assms
  by (auto simp: setup_TCP_def Let_def split: option.splits list.splits elim!: bindR_InrE)

text \<open>An address that can be bound: the socket is created and the bind succeeds.\<close>

definition bindable :: "os \<Rightarrow> addrinfo \<Rightarrow> bool" where
  "bindable os ai \<longleftrightarrow> sys_socket os ai \<noteq> - 1 \<and> sys_bind os (sys_socket os ai) ai \<noteq> - 1"

lemma bind_loop_step:
  "bind_loop os servinfo sockfd (Some ai) =
     (if bindable os ai then Some (sys_socket os ai, True)
      else bind_loop os servinfo (sys_socket os ai) (second_addr servinfo))"
  by (subst bind_loop.simps) (auto simp: bindable_def Let_def)

lemma bind_loop_end: "bind_loop os servinfo sockfd None = Some (sockfd, False)"
  by (subst bind_loop.simps) simp

text \<open>When the second address cannot be bound, a loop that has reached it does not return.\<close>

lemma bind_loop_stuck:
  assumes "second_addr servinfo = Some ai" and "\<not> bindable os ai"
  shows "bind_loop os servinfo sockfd (Some ai) = None"
proof -
  have "\<not> (p = Some ai \<and> sv = servinfo \<and> o' = os)" if "bind_loop o' sv fd p = Some r" for o' sv fd p r
    by (rule bind_loop.raw_induct [where P = "\<lambda>o' sv fd p r. \<not> (p = Some ai \<and> sv = servinfo \<and> o' = os)", OF _ that])
       (use assms in \<open>auto simp: Let_def bindable_def split: if_splits\<close>)
  then have "bind_loop os servinfo sockfd (Some ai) \<noteq> Some r" for r by blast
  then show ?thesis by (meson not_Some_eq)
qed

text \<open>What \<open>setup_UDP\<close> returns, by what can be bound.\<close>

definition udp_bound :: "os \<Rightarrow> addrinfo list \<Rightarrow> ai_ptr option" where
  "udp_bound os servinfo =
     (case servinfo of
        [] \<Rightarrow> Some NullPtr
      | [a] \<Rightarrow> Some (if bindable os a then Freed else NullPtr)
      | a # b # _ \<Rightarrow> if bindable os a \<or> bindable os b then Some Freed else None)"

lemma setup_UDP_bound:
  "map_option snd (setup_UDP os fd0 port) =
     (case sys_getaddrinfo os None port
             \<lparr>h_family = AF_UNSPEC, h_passive = True, h_socktype = SOCK_DGRAM\<rparr> of
        None \<Rightarrow> Some NullPtr
      | Some servinfo \<Rightarrow> udp_bound os servinfo)"
proof -
  have "map_option snd (map_option (\<lambda>(s, bound). (s, if bound then Freed else NullPtr))
      (bind_loop os servinfo fd (case servinfo of [] \<Rightarrow> None | ai # _ \<Rightarrow> Some ai))) = udp_bound os servinfo"
    for fd servinfo
  proof (cases servinfo rule: remdups_adj.cases)
    case 1
    then show ?thesis by (simp add: udp_bound_def bind_loop_end)
  next
    case (2 a)
    then show ?thesis
      by (auto simp: udp_bound_def bind_loop_end bind_loop_step second_addr_def)
  next
    case (3 a b l)
    have two: "second_addr (a # b # l) = Some b" by (simp add: second_addr_def)
    show ?thesis
    proof (cases "bindable os a \<or> bindable os b")
      case True
      have "bind_loop os (a # b # l) fd (Some a) =
          Some (if bindable os a then sys_socket os a else sys_socket os b, True)"
        using True bind_loop_step [of os "a # b # l" fd a] bind_loop_step [of os "a # b # l" "sys_socket os a" b]
        by (auto simp: two)
      with 3 True show ?thesis by (auto simp: udp_bound_def)
    next
      case False
      then have "bind_loop os (a # b # l) s (Some b) = None" for s
        using bind_loop_stuck [OF two, of os s] by simp
      with 3 two False show ?thesis by (simp add: udp_bound_def bind_loop_step [of os _ _ a])
    qed
  qed
  then show ?thesis by (simp add: setup_UDP_def split: option.splits)
qed

lemma deref_addrinfo_Inl: "deref_addrinfo p \<noteq> Inr u"
  by (cases p) (simp_all add: deref_addrinfo_def)

end
