(* ===== verification/Server.thy ===== *)
theory Server
  imports Payload Timetable Client Sockets
begin

text \<open>
  \<open>src/main.c\<close>: the station server. \<open>server\<close> is its global state, with the values \<open>main\<close> computes
  once; each block of the \<open>select\<close> loop is a function from the state and what the system delivered
  to the new state and the events it causes.

  \<^item> \<open>udp_handler\<close> is the block that receives a datagram: \<open>udp_at_destination\<close> and
    \<open>udp_at_source\<close> advance \<open>found\<close>, then one of \<open>udp_finish\<close> (4), \<open>udp_return\<close> (3), \<open>udp_fill\<close>
    (2), \<open>udp_backtrace\<close> (1) and \<open>udp_flood\<close> (otherwise) runs.
  \<^item> \<open>tcp_handler\<close> is the block that accepts a browser; \<open>timeout_walk\<close> the loop of the timeout.
  \<^item> \<open>loop_step\<close> is one round of the loop, \<open>station_init\<close> and \<open>open_sockets\<close> what comes before it.

  Where the code passes \<open>pload\<close> and \<open>--pload.current\<close> as arguments of the same call the model
  decrements first; \<open>get_ip_port\<close> does not read \<open>current\<close>, so the order makes no difference.
\<close>

section \<open>State\<close>

record server =
  g_station :: station
  g_timetable :: table
  num_timetables :: int
  g_neighbours :: "neighbour list"
  num_neighbours :: int
  TCP_port :: string
  UDP_port :: string
  local_ip :: string
  formatted_time :: string
  latest_time :: int
  clients :: client_state

definition my_name :: "server \<Rightarrow> string" where
  "my_name s = station_name (g_station s)"

definition my_address :: "server \<Rightarrow> string" where
  "my_address s = local_ip s @ '':'' @ UDP_port s"

section \<open>A datagram arrives\<close>

text \<open>The station enters itself as hop number \<open>hops\<close>.\<close>

definition append_hop :: "server \<Rightarrow> string res \<Rightarrow> string res \<Rightarrow> payload \<Rightarrow> payload res" where
  "append_hop s route tm p =
     (let h = hops p in
      bindR (wr_cell ADDRESS_LENGTH (address p) h (my_address s)) (\<lambda>ads.
      bindR (wr_cell MAX_NAME_LENGTH (stations p) h (my_name s)) (\<lambda>sts.
      bindR route (\<lambda>r.
      bindR (wr_cell MAX_NAME_LENGTH (routes p) h r) (\<lambda>rts.
      bindR tm (\<lambda>t.
      bindR (wr_cell MAX_TIMESTRING (time p) h t) (\<lambda>tms.
      bindR (c_int (h + 1)) (\<lambda>h'.
      Inr (p\<lparr>address := ads, stations := sts, routes := rts, time := tms, hops := h',
             current := Some h'\<rparr>)))))))))"

definition udp_at_destination :: "server \<Rightarrow> payload \<Rightarrow> payload res" where
  "udp_at_destination s p =
     (if destination p \<noteq> my_name s then Inr p
      else bindR (if found p = 0
                  then append_hop s (bindR (tt_at (g_timetable s) 0) (\<lambda>r. rd_str (route_name r)))
                         (bindR (tt_at (g_timetable s) 0) (\<lambda>r. rd_str (arrival_time r)))
                         (p\<lparr>found := 1\<rparr>)
                  else Inr p) (\<lambda>p.
           Inr (if found p = 2 then p\<lparr>found := 3\<rparr> else p)))"

definition source_found :: "server \<Rightarrow> payload \<Rightarrow> payload res" where
  "source_found s p =
     bindR (rd_current p) (\<lambda>cur.
     bindR (print_payload p) (\<lambda>_.
     bindR (rd_cell (stations p) cur) (\<lambda>next.
     bindR (search_timetable (g_timetable s) (num_timetables s) (start_time p) next) (\<lambda>which.
     bindR (if which = - 1 then Inr ''99:99''
            else bindR (tt_at (g_timetable s) which) (\<lambda>r. rd_str (departure_time r))) (\<lambda>t.
     bindR (wr_cell MAX_TIMESTRING (time p) 0 t) (\<lambda>tms.
     bindR (print_payload (p\<lparr>time := tms\<rparr>)) (\<lambda>_.
     Inr (p\<lparr>time := tms, found := 2\<rparr>))))))))"

definition udp_at_source :: "server \<Rightarrow> payload \<Rightarrow> payload res" where
  "udp_at_source s p =
     (if source p \<noteq> my_name s then Inr p
      else bindR (if found p = 1 then source_found s p else Inr p) (\<lambda>p.
           if found p = 3 then bindR (print_payload p) (\<lambda>_. Inr (p\<lparr>found := 4\<rparr>)) else Inr p))"

text \<open>\<open>while((fd_tosend = find_client(q)) != NULL) \<dots>\<close>: every waiting browser gets the answer.\<close>

function serve_clients :: "query \<Rightarrow> client_state \<Rightarrow> client_state \<times> event list" where
  "serve_clients q cs =
     (case find_client q cs of
        None \<Rightarrow> (cs, [])
      | Some n \<Rightarrow>
          let (cs', ev) = serve_clients q (remove_client (fd n) cs) in
          (cs', TcpSend (fd n) (q_answers q) # TcpClose (fd n) # ev))"
  by pat_completeness auto
termination
proof (relation "measure (\<lambda>(q, cs). length (fds_of cs))")
  show "((q, remove_client (fd n) cs), (q, cs)) \<in> measure (\<lambda>(q, cs). length (fds_of cs))"
    if "find_client q cs = Some n" for q cs n
    using conns.found_shrinks [of q cs "fd n"] that by (simp add: find_fd_def)
qed simp

declare serve_clients.simps [simp del]

definition udp_finish :: "server \<Rightarrow> payload \<Rightarrow> (server \<times> event list) res" where
  "udp_finish s p =
     bindR (craft_payload p) (\<lambda>answer.
     case search_query (destination p) (start_time p) (clients s) of
       None \<Rightarrow> Inl NullDeref
     | Some qs \<Rightarrow>
         let q = hd qs in
         bindR (if q_answers q = [] then fit MAXDATASIZE answer
                else bindR (load_payload (q_answers q)) (\<lambda>curr.
                     bindR (rd_cell (time curr) (hops curr - 1)) (\<lambda>t1.
                     bindR (timeToMinutes t1) (\<lambda>m1.
                     bindR (rd_cell (time p) (hops p - 1)) (\<lambda>t2.
                     bindR (timeToMinutes t2) (\<lambda>m2.
                     if m2 < m1 then fit MAXDATASIZE answer else Inr (q_answers q))))))) (\<lambda>ans.
         let (cs, ev) = serve_clients (q\<lparr>q_answers := ans\<rparr>) (clients s) in
         Inr (s\<lparr>clients := cs\<rparr>, ev)))"

text \<open>\<open>get_ip_port(\<dots>); craft_payload(pload); talk_to(\<dots>)\<close>.\<close>

definition forward :: "os \<Rightarrow> payload \<Rightarrow> int \<Rightarrow> event list res" where
  "forward os p which =
     bindR (get_ip_port p which) (\<lambda>(ip, port).
     bindR (craft_payload p) (\<lambda>text.
     bindR (rd_str ip) (\<lambda>ip.
     bindR (rd_str port) (\<lambda>port.
     bindR (talk_to os ip port text) (\<lambda>(_, ev).
     Inr ev)))))"

definition step_back :: "os \<Rightarrow> payload \<Rightarrow> event list res" where
  "step_back os p =
     bindR (rd_current p) (\<lambda>cur. bindR (c_int (cur - 1)) (\<lambda>c. forward os (p\<lparr>current := Some c\<rparr>) c))"

definition udp_return :: "os \<Rightarrow> server \<Rightarrow> payload \<Rightarrow> (server \<times> event list) res" where
  "udp_return os s p = bindR (step_back os p) (\<lambda>ev. Inr (s, ev))"

definition udp_backtrace :: "os \<Rightarrow> server \<Rightarrow> payload \<Rightarrow> (server \<times> event list) res" where
  "udp_backtrace os s p = bindR (step_back os p) (\<lambda>ev. Inr (s, ev))"

text \<open>
  The \<open>printf\<close> after the two branches reads \<open>Timetable[which]\<close> also when \<open>which\<close> is -1.
\<close>

definition fill_leg :: "server \<Rightarrow> payload \<Rightarrow> payload res" where
  "fill_leg s p =
     bindR (rd_current p) (\<lambda>cur.
     bindR (rd_cell (time p) (cur - 1)) (\<lambda>t.
     bindR (rd_cell (stations p) cur) (\<lambda>next.
     bindR (search_timetable (g_timetable s) (num_timetables s) t next) (\<lambda>which.
     bindR (if which = - 1 then Inr (''99:99'', ''NOTFOUND'')
            else bindR (tt_at (g_timetable s) which) (\<lambda>r.
                 bindR (rd_str (arrival_time r)) (\<lambda>a.
                 bindR (rd_str (route_name r)) (\<lambda>n. Inr (a, n))))) (\<lambda>(t', r').
     bindR (wr_cell MAX_TIMESTRING (time p) cur t') (\<lambda>tms.
     bindR (wr_cell MAX_NAME_LENGTH (routes p) cur r') (\<lambda>rts.
     bindR (tt_at (g_timetable s) which) (\<lambda>r.
     bindR (rd_str (departure_time r)) (\<lambda>_.
     bindR (rd_str (arrival_time r)) (\<lambda>_.
     bindR (c_int (cur + 1)) (\<lambda>c.
     Inr (p\<lparr>time := tms, routes := rts, current := Some c\<rparr>))))))))))))"

definition udp_fill :: "os \<Rightarrow> server \<Rightarrow> payload \<Rightarrow> (server \<times> event list) res" where
  "udp_fill os s p =
     bindR (fill_leg s p) (\<lambda>p.
     bindR (rd_current p) (\<lambda>c.
     bindR (forward os p c) (\<lambda>ev. Inr (s, ev))))"

fun been_there :: "string \<Rightarrow> string cells \<Rightarrow> int list \<Rightarrow> bool res" where
  "been_there a xs [] = Inr False"
| "been_there a xs (k # ks) =
     bindR (rd_cell xs k) (\<lambda>x. if a = x then Inr True else been_there a xs ks)"

definition nb_at :: "server \<Rightarrow> int \<Rightarrow> neighbour res" where
  "nb_at s j = (if j < 0 \<or> int (length (g_neighbours s)) \<le> j then Inl OutOfBounds
     else Inr (g_neighbours s ! nat j))"

text \<open>One round of the flooding loop: \<open>h0\<close> is the hop count the datagram arrived with.\<close>

definition flood_one :: "os \<Rightarrow> server \<Rightarrow> payload \<Rightarrow> int \<Rightarrow> int \<Rightarrow> event list \<Rightarrow> event list res" where
  "flood_one os s p h0 j ev =
     bindR (nb_at s j) (\<lambda>n.
     bindR (been_there (addr_and_port n) (address p) (map int [0..<nat h0])) (\<lambda>been.
     if been then Inr ev
     else bindR (craft_payload p) (\<lambda>text.
          bindR (talk_to os (ip_addr n) (udp_port n) text) (\<lambda>(_, ev').
          Inr (ev @ ev')))))"

definition udp_flood :: "os \<Rightarrow> server \<Rightarrow> payload \<Rightarrow> (server \<times> event list) res" where
  "udp_flood os s p =
     bindR (append_hop s (Inr ''...'') (Inr ''...'') p) (\<lambda>p'.
     bindR (foldR (flood_one os s p' (hops p)) (map int [0..<nat (num_neighbours s)]) []) (\<lambda>ev.
     Inr (s, ev)))"

definition udp_dispatch :: "os \<Rightarrow> server \<Rightarrow> payload \<Rightarrow> (server \<times> event list) res" where
  "udp_dispatch os s p =
     (if found p = 4 then udp_finish s p
      else if found p = 3 then udp_return os s p
      else if found p = 2 then udp_fill os s p
      else if found p = 1 then udp_backtrace os s p
      else udp_flood os s p)"

text \<open>
  \<open>recvfrom\<close> stores at most \<open>MAXDATASIZE\<close> bytes of the datagram; \<open>buffer[num_bytes] = '\0'\<close> is
  outside the buffer when it is full.
\<close>

definition udp_handler :: "os \<Rightarrow> server \<Rightarrow> string \<Rightarrow> (server \<times> event list) res" where
  "udp_handler os s datagram =
     bindR (checkR (length (take MAXDATASIZE datagram) < MAXDATASIZE) OutOfBounds) (\<lambda>_.
     bindR (load_payload (cstr (take MAXDATASIZE datagram))) (\<lambda>p.
     bindR (udp_at_destination s p) (\<lambda>p.
     bindR (udp_at_source s p) (\<lambda>p.
     udp_dispatch os s p))))"

section \<open>A browser connects\<close>

definition CRLF :: string where "CRLF = [CHR 0x0D, CHR 0x0A]"

definition HTTP_200_RESPONSE :: string where
  "HTTP_200_RESPONSE = ''HTTP/1.1 200 OK'' @ CRLF @ ''Content-Type: text/html'' @ CRLF
     @ ''Connection: Closed'' @ CRLF @ CRLF"

definition HTML_200_MESSAGE :: string where
  "HTML_200_MESSAGE = ''<html>'' @ CRLF @ ''<body>'' @ CRLF @ ''<h1> The time will be ... </h1>'' @ CRLF
     @ ''</body>'' @ CRLF @ ''</html>'' @ CRLF"

definition not_amp :: "char \<Rightarrow> bool" where "not_amp c \<longleftrightarrow> c \<noteq> CHR ''&''"

definition fmt_get_time :: "directive list" where
  "fmt_get_time = lits ''GET /?to='' @ [Scanset None not_amp] @ lits ''&time='' @
     [Scanset (Some 5) not_newline] @ lits ('' HTTP/1.1'' @ [newline])"

definition fmt_get :: "directive list" where
  "fmt_get = lits ''GET /?to='' @ [Scanset None not_amp] @ lits ('' HTTP/1.1'' @ [newline])"

definition fmt_clock :: "directive list" where
  "fmt_clock = [Scanset (Some 2) isdigit, Lit CHR ''-'', Scanset (Some 2) isdigit]"

text \<open>
  The request's destination and time, or \<open>None\<close> when it is not meaningful. When the clock does
  not scan, the code falls back to the current time and then prints the unassigned \<open>hours\<close> and
  \<open>minutes\<close>.
\<close>

definition request_time :: "string \<Rightarrow> string res" where
  "request_time buf =
     bindR (sscanf fmt_clock buf) (\<lambda>vs.
     case vs of
       [SStr hh, SStr mm] \<Rightarrow>
         bindR (fit 3 hh) (\<lambda>hh.
         bindR (fit 3 mm) (\<lambda>mm.
         fit MAX_TIMESTRING (hh @ '':'' @ mm)))
     | _ \<Rightarrow> Inl Uninit)"

definition parse_request :: "string \<Rightarrow> string \<Rightarrow> (string \<times> string) option res" where
  "parse_request now query =
     bindR (sscanf fmt_get_time query) (\<lambda>vs.
     bindR (store 61 vs 0 (\<lambda>x d. x) []) (\<lambda>dest.
     bindR (store 10 vs 1 (\<lambda>x d. x) []) (\<lambda>buf.
     if length vs = 2 then bindR (request_time buf) (\<lambda>t. Inr (Some (dest, t)))
     else bindR (sscanf fmt_get query) (\<lambda>vs.
          bindR (store 61 vs 0 (\<lambda>x d. x) dest) (\<lambda>dest.
          if length vs = 1 then bindR (fit MAX_TIMESTRING now) (\<lambda>t. Inr (Some (dest, t)))
          else Inr None)))))"

text \<open>The buffer for \<open>0 0 0 destination source time;\<close> in the timeout and in the TCP block.\<close>

definition query_alloc :: nat where
  "query_alloc = 3 * 4 + (MAX_NAME_LENGTH + MAX_PORT + INET6_ADDRSTRLEN + 1 + MAX_NAME_LENGTH
     + MAX_TIMESTRING) + 2 * MAX_NAME_LENGTH"

definition query_text :: "server \<Rightarrow> string \<Rightarrow> string \<Rightarrow> string res" where
  "query_text s dest t = fit query_alloc (''0 0 0 '' @ dest @ '' '' @ my_name s @ '' '' @ t @ '';'')"

text \<open>What \<open>recv\<close> delivered: an error, or bytes (none when the peer closed).\<close>

datatype received = RecvError | RecvBytes string

definition query_string :: "received \<Rightarrow> string res" where
  "query_string r =
     (case r of
        RecvError \<Rightarrow> Inr []
      | RecvBytes bytes \<Rightarrow>
          let b = take MAXDATASIZE bytes in
          if MAXDATASIZE \<le> length b \<and> NUL \<notin> set b then Inl OutOfBounds else Inr (cstr b))"

definition register_query :: "string \<Rightarrow> string \<Rightarrow> int \<Rightarrow> client_state \<Rightarrow> client_state res" where
  "register_query dest t new_fd cs =
     (case search_query dest t cs of
        None \<Rightarrow>
          bindR (fit MAX_TIMESTRING t) (\<lambda>t.
          bindR (fit MAX_NAME_LENGTH dest) (\<lambda>dest.
          let new_q = new_query\<lparr>q_start_time := t, q_destination := dest\<rparr> in
          Inr (add_client new_fd new_q (remove_client new_fd (add_query new_q cs)))))
      | Some qs \<Rightarrow> Inr (add_client new_fd (hd qs) (remove_client new_fd cs)))"

text \<open>
  \<open>shut\<close> is what \<open>shutdown\<close> returned. The call of \<open>talk_to\<close> that would start the flood is commented
  out in the source: the payload is printed and freed.
\<close>

definition tcp_handler :: "server \<Rightarrow> int \<Rightarrow> received \<Rightarrow> int \<Rightarrow> (server \<times> event list) res" where
  "tcp_handler s accepted r shut =
     (let new_fd = new_connection accepted in
      if r = RecvBytes [] then Inr (s, [])
      else bindR (query_string r) (\<lambda>query.
           bindR (parse_request (formatted_time s) query) (\<lambda>req.
           case req of
             None \<Rightarrow> Inr (s, [])
           | Some (dest, t) \<Rightarrow>
               let response = HTTP_200_RESPONSE @ CRLF @ HTML_200_MESSAGE in
               bindR (checkR (0 \<le> shut) (Exit 1)) (\<lambda>_.
               bindR (register_query dest t new_fd (clients s)) (\<lambda>cs.
               bindR (query_text s dest t) (\<lambda>_.
               Inr (s\<lparr>clients := cs\<rparr>, [TcpSend new_fd response])))))))"

section \<open>The timeout\<close>

definition resend :: "os \<Rightarrow> server \<Rightarrow> query \<Rightarrow> event list res" where
  "resend os s q =
     bindR (query_text s (q_destination q) (q_start_time q)) (\<lambda>text.
     bindR (talk_to os (local_ip s) (UDP_port s) text) (\<lambda>(_, ev). Inr ev))"

text \<open>
  The walk over the list: \<open>i\<close> is the position of \<open>current\<close>. \<open>remove_client\<close> frees the first node
  with the descriptor; when that is \<open>current\<close> itself, \<open>current = current->next\<close> reads freed memory.
\<close>

definition first_with_fd :: "int \<Rightarrow> client_node list \<Rightarrow> nat" where
  "first_with_fd f ns = length (takeWhile (\<lambda>n. fd n \<noteq> f) ns)"

function timeout_walk ::
  "os \<Rightarrow> (int \<Rightarrow> bool) \<Rightarrow> server \<Rightarrow> nat \<Rightarrow> (server \<times> event list) res" where
  "timeout_walk os is_open s i =
     (let ns = head_client (clients s) in
      if length ns \<le> i then Inr (s, [])
      else let n = ns ! i in
        if is_open (fd n) then
          bindR (if q_answers (c_query n) = [] then resend os s (c_query n) else Inr []) (\<lambda>ev.
          bindR (timeout_walk os is_open s (i + 1)) (\<lambda>(s', ev'). Inr (s', ev @ ev')))
        else if first_with_fd (fd n) ns = i then Inl UseAfterFree
        else bindR (timeout_walk os is_open (s\<lparr>clients := remove_client (fd n) (clients s)\<rparr>) i)
               (\<lambda>(s', ev'). Inr (s', TcpClose (fd n) # ev')))"
  by pat_completeness auto
termination
proof (relation "measure (\<lambda>(os, is_open, s, i). length (head_client (clients s)) - i)", goal_cases)
  case (3 os is_open s i ns n)
  then have "fd n \<in> fd ` set (head_client (clients s))" by auto
  with 3 length_unlink [of "fd n" "head_client (clients s)"] show ?case
    by (simp add: remove_client_def)
qed auto

declare timeout_walk.simps [simp del]

section \<open>The loop and the start-up\<close>

text \<open>What \<open>select\<close> reports, with the data the ready descriptors then deliver.\<close>

datatype udp_input = NoUdp | UdpError | UdpData string

datatype tcp_input = NoTcp | TcpConn int received int

datatype selected = SelectError | Timeout "int \<Rightarrow> bool" | Ready udp_input tcp_input

definition serve_udp :: "os \<Rightarrow> server \<Rightarrow> udp_input \<Rightarrow> (server \<times> event list) res" where
  "serve_udp os s u =
     (case u of NoUdp \<Rightarrow> Inr (s, []) | UdpError \<Rightarrow> Inl (Exit 1) | UdpData d \<Rightarrow> udp_handler os s d)"

definition serve_tcp :: "server \<Rightarrow> tcp_input \<Rightarrow> (server \<times> event list) res" where
  "serve_tcp s t =
     (case t of NoTcp \<Rightarrow> Inr (s, []) | TcpConn a r shut \<Rightarrow> tcp_handler s a r shut)"

definition loop_step ::
  "os \<Rightarrow> int option \<Rightarrow> string option \<Rightarrow> selected \<Rightarrow> server \<Rightarrow> (server \<times> event list) res" where
  "loop_step os stat file sel s =
     bindR (check_update_timetable stat file (latest_time s) (g_station s) (g_timetable s)) (\<lambda>(st, tt).
     let s = s\<lparr>g_station := st, g_timetable := tt\<rparr> in
     case sel of
       SelectError \<Rightarrow> Inl (Exit 1)
     | Timeout is_open \<Rightarrow> timeout_walk os is_open s 0
     | Ready u t \<Rightarrow>
         bindR (serve_udp os s u) (\<lambda>(s, ev).
         bindR (serve_tcp s t) (\<lambda>(s, ev'). Inr (s, ev @ ev'))))"

text \<open>
  The arguments are what \<open>socket\<close>, \<open>connect\<close> and \<open>getsockname\<close> returned (\<open>None\<close> for an error,
  else the address \<open>inet_ntop\<close> prints). The handler of SIGINT closes both sockets and exits.
\<close>

definition get_local_ip :: "int \<Rightarrow> int \<Rightarrow> string option \<Rightarrow> string" where
  "get_local_ip sockfd connected sockname =
     (if sockfd < 0 then ''127.0.0.1''
      else if connected < 0 then ''127.0.0.1''
      else case sockname of None \<Rightarrow> ''127.0.0.1'' | Some ip \<Rightarrow> ip)"

definition signal_handler :: "int \<Rightarrow> int \<Rightarrow> event list \<times> c_error" where
  "signal_handler TCP_fd UDP_fd = ([TcpClose TCP_fd, TcpClose UDP_fd], Exit 0)"

text \<open>Lines 81 to 109 of \<open>main\<close>, with the local address: the state the loop starts from.\<close>

definition station_init ::
  "string list \<Rightarrow> string option \<Rightarrow> int option \<Rightarrow> string \<Rightarrow> string \<Rightarrow> server res" where
  "station_init argv file stat now ip =
     bindR (checkR (5 \<le> length argv) (Exit 1)) (\<lambda>_.
     bindR (fit 70 (''files/tt-'' @ argv ! 1)) (\<lambda>_.
     bindR (fit MAX_PORT (argv ! 2)) (\<lambda>tcp.
     bindR (fit MAX_PORT (argv ! 3)) (\<lambda>udp.
     bindR (readtimetable file \<lparr>station_name = [], longitude = [], latitude = []\<rparr> None) (\<lambda>(n, st, tt).
     bindR (readneighbours argv) (\<lambda>(k, ns).
     Inr \<lparr>g_station = st, g_timetable = tt, num_timetables = n, g_neighbours = ns,
          num_neighbours = k, TCP_port = tcp, UDP_port = udp, local_ip = ip, formatted_time = now,
          latest_time = get_file_mtime stat, clients = init_clients\<rparr>))))))"

text \<open>Lines 116 to 119: the sockets, and the read of the port through \<open>setup_UDP\<close>'s result.\<close>

definition open_sockets :: "os \<Rightarrow> server \<Rightarrow> (int \<times> int) res option" where
  "open_sockets os s =
     (case setup_TCP os 0 (TCP_port s) of
        Inl e \<Rightarrow> Some (Inl e)
      | Inr TCP_fd \<Rightarrow>
          map_option (\<lambda>(UDP_fd, ai). bindR (deref_addrinfo ai) (\<lambda>_. Inr (TCP_fd, UDP_fd)))
            (setup_UDP os 0 (UDP_port s)))"

end
