(* ===== verification/Handler.thy ===== *)
theory Handler
  imports Server
begin

text \<open>
  The datagram handler of \<open>src/main.c\<close>, branch by branch, against its abstract specification on
  messages: \<open>flood_msg\<close>, \<open>arrive_msg\<close>, \<open>back_msg\<close>, \<open>depart_msg\<close> and \<open>fill_msg\<close> say what each phase
  does to the message, with no memory, parsing or buffers. The theorems say that the handler
  implements them, and name the inputs on which the code has no defined behaviour.
\<close>

section \<open>Environment and well-formedness\<close>

text \<open>Every send the handler attempts is delivered to the network.\<close>

definition benign :: "os \<Rightarrow> bool" where
  "benign os \<longleftrightarrow> sends_work os \<and> (\<forall>host port. reachable_host os host port)"

lemma benign_talk: "benign os \<Longrightarrow> talk_to os host port text = Inr (0, [UdpSend host port text])"
  by (simp add: benign_def talk_to_delivers)

text \<open>A timetable line whose fields survive the trip through a message.\<close>

definition entry_ok :: "entry \<Rightarrow> bool" where
  "entry_ok e \<longleftrightarrow> token MAX_TIMESTRING (e_departure e) \<and> token MAX_NAME_LENGTH (e_route e) \<and>
     token MAX_TIMESTRING (e_arrival e) \<and> is_time (e_departure e) \<and> is_time (e_arrival e)"

text \<open>A server whose name and address fit the message, and whose timetable is \<open>es\<close>.\<close>

definition server_ok :: "server \<Rightarrow> entry list \<Rightarrow> bool" where
  "server_ok s es \<longleftrightarrow>
     token MAX_NAME_LENGTH (my_name s) \<and> ip_ok (local_ip s) \<and> port_ok (UDP_port s) \<and>
     NUL \<notin> set (my_address s) \<and> shows_table (g_timetable s) es \<and>
     num_timetables s = int (length es) \<and> es \<noteq> [] \<and> list_all entry_ok es"

text \<open>The buffer \<open>craft_payload\<close> allocates holds the message. Printing it for what then happens.\<close>

definition room :: "msg \<Rightarrow> bool" where
  "room m \<longleftrightarrow> length (wire m) < 183 * m_hops m + 128"

definition printed :: "msg \<Rightarrow> 'a res \<Rightarrow> 'a res" where
  "printed m r = (if room m then r else Inl BufferOverflow)"

lemma printed_room [simp]: "room m \<Longrightarrow> printed m r = r"
  by (simp add: printed_def)

lemma bindR_printed [simp]: "bindR (printed m r) f = printed m (bindR r f)"
  by (simp add: printed_def)

text \<open>A message that fits both the sender's allocation and the receiver's buffer.\<close>

definition sendable :: "msg \<Rightarrow> bool" where
  "sendable m \<longleftrightarrow> wf_msg m \<and> length (wire m) < 183 * m_hops m + 128 \<and> length (wire m) < MAXDATASIZE"

lemma sendable_room: "sendable m \<Longrightarrow> room m"
  by (simp add: sendable_def room_def)

definition lens :: "msg \<Rightarrow> bool" where
  "lens m \<longleftrightarrow> length (m_address m) = m_hops m \<and> length (m_routes m) = m_hops m \<and>
     length (m_time m) = m_hops m"

lemma wf_lens: "wf_msg m \<Longrightarrow> lens m"
  by (simp add: wf_msg_def lens_def tokens_def)

lemma lens_stations: "length (m_stations m) = m_hops m"
  by (simp add: m_hops_def)

lemma hops_below_length: "m_hops m < length (wire m)"
  by (simp add: length_wire length_spaced lens_stations)

lemma server_address_token:
  assumes "server_ok s es"
  shows "token ADDRESS_LENGTH (my_address s)"
proof -
  have "\<not> isspace c" if "c \<in> set (local_ip s) \<or> c \<in> set (UDP_port s)" for c
    using assms that by (auto simp: server_ok_def ip_ok_def port_ok_def list_all_iff)
  then have "CHR '' '' \<notin> set (local_ip s)" "CHR '' '' \<notin> set (UDP_port s)"
    by (auto simp: isspace_def)
  with assms show ?thesis
    by (auto simp: server_ok_def ip_ok_def port_ok_def token_def my_address_def)
qed

section \<open>Structures in memory\<close>

lemma mem_fields [simp]:
  "found (mem e m) = m_found m" "hops (mem e m) = int (m_hops m)"
  "current (mem e m) = Some (m_current m)" "destination (mem e m) = m_destination m"
  "source (mem e m) = m_source m" "start_time (mem e m) = m_start_time m"
  "rd_current (mem e m) = Inr (m_current m)"
  by (simp_all add: mem_def rd_current_def)

lemma mem_updates:
  "(mem e m)\<lparr>found := f\<rparr> = mem e (m\<lparr>m_found := f\<rparr>)"
  "(mem e m)\<lparr>current := Some c\<rparr> = mem e (m\<lparr>m_current := c\<rparr>)"
  "(mem e m)\<lparr>time := map Some ts @ e\<rparr> = mem e (m\<lparr>m_time := ts\<rparr>)"
  "(mem e m)\<lparr>routes := map Some rs @ e\<rparr> = mem e (m\<lparr>m_routes := rs\<rparr>)"
  by (simp_all add: mem_def m_hops_def)

lemma m_hops_updates [simp]:
  "m_hops (m\<lparr>m_found := f\<rparr>) = m_hops m" "m_hops (m\<lparr>m_current := c\<rparr>) = m_hops m"
  "m_hops (m\<lparr>m_time := ts\<rparr>) = m_hops m" "m_hops (m\<lparr>m_routes := ts\<rparr>) = m_hops m"
  by (simp_all add: m_hops_def)

lemma mem_rd:
  assumes "lens m" and "0 \<le> i" and "i < int (m_hops m)"
  shows "rd_cell (stations (mem e m)) i = Inr (m_stations m ! nat i)"
    and "rd_cell (address (mem e m)) i = Inr (m_address m ! nat i)"
    and "rd_cell (routes (mem e m)) i = Inr (m_routes m ! nat i)"
    and "rd_cell (time (mem e m)) i = Inr (m_time m ! nat i)"
  using assms
  by (simp_all add: mem_def rd_cell_def nth_append lens_def lens_stations nat_less_iff)

lemma mem_wr:
  assumes "lens m" and "0 \<le> i" and "i < int (m_hops m)" and "length x < cap"
  shows "wr_cell cap (time (mem e m)) i x = Inr (map Some ((m_time m)[nat i := x]) @ e)"
    and "wr_cell cap (routes (mem e m)) i x = Inr (map Some ((m_routes m)[nat i := x]) @ e)"
  using assms
  by (simp_all add: mem_def wr_cell_def fit_def list_update_append lens_def nat_less_iff map_update)

lemma denotes_mem: "lens m \<Longrightarrow> denotes (mem e m) m"
  by (simp add: denotes_def lens_def mem_def)

lemma foldR_total:
  "(\<And>x s. x \<in> set xs \<Longrightarrow> \<exists>t. f x s = Inr t) \<Longrightarrow> \<exists>t. foldR f xs s = Inr t"
proof (induction xs arbitrary: s)
  case (Cons x xs)
  obtain t where "f x s = Inr t" using Cons.prems by auto
  with Cons show ?case by simp
qed simp

lemma bindR_total:
  "\<exists>t. m = Inr t \<Longrightarrow> (\<And>t. \<exists>y. g t = Inr y) \<Longrightarrow> \<exists>y. bindR m g = Inr y"
  by auto

lemma print_hop_mem:
  assumes "lens m" and "i \<in> set (map int [0..<nat (hops (mem e m))])"
  shows "\<exists>t. print_hop (mem e m) i s = Inr t"
proof -
  from assms(2) have "0 \<le> i" "i < int (m_hops m)" by auto
  then show ?thesis using mem_rd [OF assms(1), of i e] by (simp add: print_hop_def)
qed

lemma print_mem:
  assumes "lens m"
  shows "\<exists>out. print_payload (mem e m) = Inr out"
  unfolding print_payload_def
proof (rule bindR_total)
  show "\<exists>t. rd_current (mem e m) = Inr t" by simp
next
  show "\<exists>y. bindR (foldR (print_hop (mem e m)) (map int [0..<nat (hops (mem e m))]) b) (\<lambda>x. Inr (g x)) = Inr y"
    for b and g :: "string \<Rightarrow> string"
    by (rule bindR_total, rule foldR_total) (use print_hop_mem [OF assms] in auto)
qed

lemma print_mem_bind: "lens m \<Longrightarrow> bindR (print_payload (mem e m)) (\<lambda>_. r) = r"
  using print_mem [of m e] by auto

lemma craft_mem:
  assumes "lens m" and "m_hops m \<le> MAXDATASIZE"
  shows "craft_payload (mem e m) = printed m (Inr (wire m))"
proof -
  have "in_int (183 * int (m_hops m) + 128)" using assms(2) by (simp add: in_int_def)
  with craft_payload_fit [OF denotes_mem [OF assms(1)], of e] show ?thesis
    by (simp add: craft_alloc_eq fit_def nat_add_distrib nat_mult_distrib printed_def room_def)
qed

lemma wire_hops: "length (wire m) < MAXDATASIZE \<Longrightarrow> m_hops m < MAXDATASIZE"
  using hops_below_length [of m] by simp

section \<open>Sending to a recorded address\<close>

text \<open>The address of hop \<open>i\<close> of the message splits into this host and port.\<close>

definition addr_at :: "msg \<Rightarrow> nat \<Rightarrow> string \<Rightarrow> string \<Rightarrow> bool" where
  "addr_at m i ip port \<longleftrightarrow> i < m_hops m \<and> m_address m ! i = ip @ '':'' @ port \<and> ip_ok ip \<and> port_ok port"

lemma forward_mem:
  assumes "lens m" and "m_hops m \<le> MAXDATASIZE" and "benign os" and "addr_at m i ip port"
  shows "forward os (mem e m) (int i + 1) = printed m (Inr [UdpSend ip port (wire m)])"
proof -
  have "get_ip_port (mem e m) (int i + 1) = Inr (Some ip, Some port)"
  proof (rule get_ip_port_split)
    show "rd_cell (address (mem e m)) (int i + 1 - 1) = Inr (ip @ '':'' @ port)"
      using assms(4) mem_rd(2) [OF assms(1), of "int i" e] by (simp add: addr_at_def)
    show "in_int (int i + 1 - 1)" using assms(2,4) by (simp add: in_int_def addr_at_def)
  qed (use assms(4) in \<open>simp_all add: addr_at_def\<close>)
  then show ?thesis
    using assms(3) by (simp add: forward_def craft_mem [OF assms(1,2)] benign_talk rd_str_def)
qed

section \<open>The phases on messages\<close>

definition hop_msg :: "server \<Rightarrow> string \<Rightarrow> string \<Rightarrow> msg \<Rightarrow> msg" where
  "hop_msg s route tm m =
     m\<lparr>m_stations := m_stations m @ [my_name s], m_address := m_address m @ [my_address s],
       m_routes := m_routes m @ [route], m_time := m_time m @ [tm],
       m_current := int (m_hops m) + 1\<rparr>"

definition flood_msg :: "server \<Rightarrow> msg \<Rightarrow> msg" where
  "flood_msg s m = hop_msg s ''...'' ''...'' m"

definition arrive_msg :: "server \<Rightarrow> entry list \<Rightarrow> msg \<Rightarrow> msg" where
  "arrive_msg s es m = hop_msg s (e_route (hd es)) (e_arrival (hd es)) (m\<lparr>m_found := 1\<rparr>)"

definition back_msg :: "msg \<Rightarrow> msg" where
  "back_msg m = m\<lparr>m_current := m_current m - 1\<rparr>"

definition depart_time :: "entry list \<Rightarrow> msg \<Rightarrow> string" where
  "depart_time es m =
     (let i = first_departure es (m_start_time m) (m_stations m ! nat (m_current m)) in
      if i = - 1 then ''99:99'' else e_departure (es ! nat i))"

definition depart_msg :: "entry list \<Rightarrow> msg \<Rightarrow> msg" where
  "depart_msg es m = m\<lparr>m_time := (m_time m)[0 := depart_time es m], m_found := 2\<rparr>"

text \<open>The connection for the leg that leaves from hop \<open>current\<close>: a row of the timetable, or -1.\<close>

definition leg_row :: "entry list \<Rightarrow> msg \<Rightarrow> int" where
  "leg_row es m = first_departure es (m_time m ! nat (m_current m - 1)) (m_stations m ! nat (m_current m))"

definition fill_msg :: "entry list \<Rightarrow> msg \<Rightarrow> msg" where
  "fill_msg es m =
     (let e = es ! nat (leg_row es m); c = nat (m_current m) in
      m\<lparr>m_time := (m_time m)[c := e_arrival e], m_routes := (m_routes m)[c := e_route e],
        m_current := m_current m + 1\<rparr>)"

lemma hop_msg_simps [simp]:
  "m_found (hop_msg s r t m) = m_found m" "m_destination (hop_msg s r t m) = m_destination m"
  "m_source (hop_msg s r t m) = m_source m" "m_start_time (hop_msg s r t m) = m_start_time m"
  "m_hops (hop_msg s r t m) = Suc (m_hops m)" "m_current (hop_msg s r t m) = int (m_hops m) + 1"
  "m_stations (hop_msg s r t m) = m_stations m @ [my_name s]"
  "m_address (hop_msg s r t m) = m_address m @ [my_address s]"
  "m_routes (hop_msg s r t m) = m_routes m @ [r]" "m_time (hop_msg s r t m) = m_time m @ [t]"
  by (simp_all add: hop_msg_def m_hops_def)

lemma append_hop_mem:
  assumes "lens m" and "token ADDRESS_LENGTH (my_address s)" and "token MAX_NAME_LENGTH (my_name s)"
    and "token MAX_NAME_LENGTH r" and "token MAX_TIMESTRING t" and "in_int (int (m_hops m) + 1)"
  shows "append_hop s (Inr r) (Inr t) (mem [None] m) = Inr (mem [] (hop_msg s r t m))"
proof -
  have w: "wr_cell cap (map Some xs @ [None]) (int (m_hops m)) x = Inr (map Some (xs @ [x]))"
    if "length xs = m_hops m" "length x < cap" for cap xs x
    using that by (simp add: wr_cell_next)
  have len: "length (m_address m) = m_hops m" "length (m_routes m) = m_hops m"
    "length (m_time m) = m_hops m" "length (m_stations m) = m_hops m"
    using assms(1) by (simp_all add: lens_def lens_stations)
  have fields: "address (mem [None] m) = map Some (m_address m) @ [None]"
    "stations (mem [None] m) = map Some (m_stations m) @ [None]"
    "routes (mem [None] m) = map Some (m_routes m) @ [None]"
    "time (mem [None] m) = map Some (m_time m) @ [None]"
    by (simp_all add: mem_def)
  have caps: "length (my_address s) < ADDRESS_LENGTH" "length (my_name s) < MAX_NAME_LENGTH"
    "length r < MAX_NAME_LENGTH" "length t < MAX_TIMESTRING"
    using assms(2-5) by (simp_all add: token_def)
  have "append_hop s (Inr r) (Inr t) (mem [None] m) =
    Inr ((mem [None] m)\<lparr>address := map Some (m_address m @ [my_address s]),
      stations := map Some (m_stations m @ [my_name s]), routes := map Some (m_routes m @ [r]),
      time := map Some (m_time m @ [t]), hops := int (m_hops m) + 1,
      current := Some (int (m_hops m) + 1)\<rparr>)"
    unfolding append_hop_def Let_def fields mem_fields
    by (simp only: w len caps bindR_Inr c_int_ok assms(6))
  also have "\<dots> = Inr (mem [] (hop_msg s r t m))"
    by (simp add: mem_def hop_msg_def m_hops_def)
  finally show ?thesis .
qed

section \<open>Receiving a message\<close>

lemma NUL_spaced: "NUL \<notin> set (spaced ts) \<longleftrightarrow> (\<forall>t\<in>set ts. NUL \<notin> set t)"
  by (induction ts) (auto simp: spaced_Cons NUL_def)

lemma NUL_tokens: "tokens cap n ts \<Longrightarrow> NUL \<notin> set (spaced ts)"
  by (simp add: NUL_spaced tokens_def token_def list_all_iff)

lemma NUL_dec: "NUL \<notin> set (dec n)"
  using dec_digits_or_sign [of NUL n] by (auto simp: NUL_def isdigit_iff)

lemma NUL_wire: "wf_msg m \<Longrightarrow> NUL \<notin> set (wire m)"
  using NUL_tokens [of MAX_NAME_LENGTH "m_hops m" "m_stations m"]
    NUL_tokens [of ADDRESS_LENGTH "m_hops m" "m_address m"]
    NUL_tokens [of MAX_NAME_LENGTH "m_hops m" "m_routes m"]
    NUL_tokens [of MAX_TIMESTRING "m_hops m" "m_time m"]
  by (auto simp: wire_def NUL_dec wf_msg_def NUL_spaced token_def) (simp_all add: NUL_def)

lemma udp_receive:
  assumes "wf_msg m" and "length (wire m) < MAXDATASIZE"
  shows "udp_handler os s (wire m) = bindR (udp_at_destination s (mem (spare (m_found m)) m))
     (\<lambda>p. bindR (udp_at_source s p) (udp_dispatch os s))"
  using assms
  by (simp add: udp_handler_def cstr_id NUL_wire load_wire struct_of_def del: MAXDATASIZE_def)

lemma hops_in_int: "wf_msg m \<Longrightarrow> length (wire m) < MAXDATASIZE \<Longrightarrow> in_int (int (m_hops m) + 1)"
  using hops_below_length [of m] by (simp add: in_int_def)

subsection \<open>Flooding\<close>

lemma been_there_mem:
  assumes "lens m'" and "n \<le> m_hops m'"
  shows "been_there a (address (mem e m')) (map int [0..<n]) = Inr (a \<in> set (take n (m_address m')))"
proof -
  have "been_there a (address (mem e m')) (map int ks) = Inr (\<exists>k\<in>set ks. m_address m' ! k = a)"
    if "\<forall>k\<in>set ks. k < m_hops m'" for ks
    using that mem_rd(2) [OF assms(1)] by (induction ks) auto
  moreover have "(\<exists>k\<in>set [0..<n]. m_address m' ! k = a) \<longleftrightarrow> a \<in> set (take n (m_address m'))"
    using assms by (auto simp: in_set_conv_nth lens_def)
  ultimately show ?thesis using assms(2) by simp
qed

text \<open>The datagrams a flood sends: one to every neighbour whose address the message has not seen.\<close>

definition flood_events :: "server \<Rightarrow> msg \<Rightarrow> event list" where
  "flood_events s m =
     map (\<lambda>n. UdpSend (ip_addr n) (udp_port n) (wire (flood_msg s m)))
       (filter (\<lambda>n. addr_and_port n \<notin> set (m_address m)) (g_neighbours s))"

lemma flood_lens: "lens m \<Longrightarrow> lens (flood_msg s m)"
  by (simp add: lens_def flood_msg_def)

lemma flood_one_mem:
  assumes "lens m" and "m_hops m < MAXDATASIZE" and "benign os" and "j < length (g_neighbours s)"
  shows "flood_one os s (mem [] (flood_msg s m)) (int (m_hops m)) (int j) ev =
    (let n = g_neighbours s ! j in if addr_and_port n \<in> set (m_address m) then Inr ev
      else printed (flood_msg s m) (Inr (ev @ [UdpSend (ip_addr n) (udp_port n) (wire (flood_msg s m))])))"
proof -
  have "take (m_hops m) (m_address (flood_msg s m)) = m_address m"
    using assms(1) by (simp add: flood_msg_def lens_def)
  moreover have h: "m_hops m \<le> m_hops (flood_msg s m)" "m_hops (flood_msg s m) \<le> MAXDATASIZE"
    using assms(2) by (simp_all add: flood_msg_def)
  ultimately have "been_there a (address (mem [] (flood_msg s m))) (map int [0..<m_hops m])
      = Inr (a \<in> set (m_address m))" for a
    using been_there_mem [OF flood_lens [OF assms(1)]] by simp
  with assms h(2) show ?thesis
    by (simp add: flood_one_def nb_at_def craft_mem flood_lens benign_talk Let_def del: MAXDATASIZE_def)
qed

text \<open>A flood prints the message when there is a neighbour to send it to.\<close>

definition sends :: "msg \<Rightarrow> event list \<Rightarrow> event list res" where
  "sends m ev = (if ev = [] then Inr [] else printed m (Inr ev))"

lemma sends_room: "room m \<Longrightarrow> sends m ev = Inr ev"
  by (simp add: sends_def)

lemma flood_all_mem:
  assumes "lens m" and "m_hops m < MAXDATASIZE" and "benign os" and "k \<le> length (g_neighbours s)"
  shows "foldR (flood_one os s (mem [] (flood_msg s m)) (int (m_hops m))) (map int [0..<k]) [] =
    sends (flood_msg s m) (map (\<lambda>n. UdpSend (ip_addr n) (udp_port n) (wire (flood_msg s m)))
       (filter (\<lambda>n. addr_and_port n \<notin> set (m_address m)) (take k (g_neighbours s))))"
  using assms(4)
proof (induction k)
  case 0
  show ?case by (simp add: sends_def)
next
  case (Suc k)
  then show ?case
    using flood_one_mem [OF assms(1-3), of k]
    by (cases "room (flood_msg s m)") (auto simp: foldR_append take_Suc_conv_app_nth Let_def sends_def printed_def)
qed

lemma dots_token [simp]: "token MAX_NAME_LENGTH ''...''" "token MAX_TIMESTRING ''...''"
  by (simp_all add: token_def NUL_def)

lemma udp_flood_mem:
  assumes "wf_msg m" and "length (wire m) < MAXDATASIZE" and "server_ok s es"
    and "benign os" and "num_neighbours s = int (length (g_neighbours s))"
  shows "udp_flood os s (mem [None] m) =
    bindR (sends (flood_msg s m) (flood_events s m)) (\<lambda>ev. Inr (s, ev))"
proof -
  have "append_hop s (Inr ''...'') (Inr ''...'') (mem [None] m) = Inr (mem [] (flood_msg s m))"
    unfolding flood_msg_def
    by (rule append_hop_mem)
      (use assms server_address_token hops_in_int in \<open>auto simp: wf_lens server_ok_def simp del: MAX_NAME_LENGTH_def MAX_TIMESTRING_def MAXDATASIZE_def\<close>)
  then show ?thesis
    using flood_all_mem [OF wf_lens [OF assms(1)] wire_hops [OF assms(2)] assms(4) order_refl] assms(5)
    by (simp add: udp_flood_def flood_events_def)
qed

end
