(* ===== verification/Phases.thy ===== *)
theory Phases
  imports Handler
begin

text \<open>
  What each phase of the datagram handler does to the message and to whom it sends the result.
  Every lemma starts from the text of a well-formed message in the socket and ends with the new
  state and the datagrams sent.
\<close>

section \<open>The two steps that advance \<open>found\<close>\<close>

lemma dest_other:
  "m_destination m \<noteq> my_name s \<or> (m_found m \<noteq> 0 \<and> m_found m \<noteq> 2) \<Longrightarrow>
   udp_at_destination s (mem e m) = Inr (mem e m)"
  by (auto simp: udp_at_destination_def)

lemma source_other:
  "m_source m \<noteq> my_name s \<or> (m_found m \<noteq> 1 \<and> m_found m \<noteq> 3) \<Longrightarrow>
   udp_at_source s (mem e m) = Inr (mem e m)"
  by (auto simp: udp_at_source_def)

lemma server_first_row:
  assumes "server_ok s es"
  shows "tt_at (g_timetable s) 0 = Inr (row_of (hd es))"
  using assms shows_table_at [of "g_timetable s" es 0] by (auto simp: server_ok_def hd_conv_nth)

lemma server_entry: "server_ok s es \<Longrightarrow> i < length es \<Longrightarrow> entry_ok (es ! i)"
  by (simp add: server_ok_def list_all_length)

lemma dest_arrive:
  assumes "wf_msg m" and "server_ok s es" and "m_found m = 0" and "m_destination m = my_name s"
  shows "udp_at_destination s (mem [None] m) = Inr (mem [] (arrive_msg s es m))"
proof -
  have e: "entry_ok (hd es)"
    using server_entry [OF assms(2), of 0] assms(2) by (auto simp: server_ok_def hd_conv_nth)
  have "append_hop s (Inr (e_route (hd es))) (Inr (e_arrival (hd es))) (mem [None] (m\<lparr>m_found := 1\<rparr>)) =
      Inr (mem [] (arrive_msg s es m))"
    unfolding arrive_msg_def
  proof (rule append_hop_mem)
    show "lens (m\<lparr>m_found := 1\<rparr>)" using wf_lens [OF assms(1)] by (simp add: lens_def m_hops_def)
    show "in_int (int (m_hops (m\<lparr>m_found := 1\<rparr>)) + 1)"
      using assms(1,3) by (simp add: wf_msg_def)
    show "token ADDRESS_LENGTH (my_address s)" by (rule server_address_token [OF assms(2)])
  qed (use e assms(2) in \<open>simp_all add: entry_ok_def server_ok_def
         del: MAX_NAME_LENGTH_def MAX_TIMESTRING_def\<close>)
  with assms(3,4) show ?thesis
    by (simp add: udp_at_destination_def server_first_row [OF assms(2)] cell_simps mem_updates)
       (simp add: arrive_msg_def)
qed

lemma dest_confirm:
  "m_destination m = my_name s \<Longrightarrow> m_found m = 2 \<Longrightarrow>
   udp_at_destination s (mem e m) = Inr (mem e (m\<lparr>m_found := 3\<rparr>))"
  by (simp add: udp_at_destination_def mem_updates)

lemma source_confirm:
  "m_source m = my_name s \<Longrightarrow> m_found m = 3 \<Longrightarrow> lens m \<Longrightarrow>
   udp_at_source s (mem e m) = Inr (mem e (m\<lparr>m_found := 4\<rparr>))"
  by (simp add: udp_at_source_def mem_updates print_mem_bind)

text \<open>The message carries a time the timetable can be searched for.\<close>

lemma server_valid: "server_ok s es \<Longrightarrow> is_time t \<Longrightarrow> valid_times es t"
  by (auto simp: server_ok_def valid_times_def entry_ok_def list_all_iff)

lemma server_search:
  assumes "server_ok s es" and "is_time t"
  shows "search_timetable (g_timetable s) (num_timetables s) t go = Inr (first_departure es t go)"
  using assms search_timetable_find [of "g_timetable s" es t go]
  by (auto simp: server_ok_def entry_ok_def list_all_iff)

lemma server_row:
  assumes "server_ok s es" and "first_departure es t go = k" and "k \<noteq> - 1"
  shows "tt_at (g_timetable s) k = Inr (row_of (es ! nat k))" and "entry_ok (es ! nat k)"
    and "nat k < length es"
proof -
  obtain i where i: "k = int i" "i < length es - 1"
    using assms(2,3) first_departure_cases [of es t go] first_departure_found [of es t go]
    by metis
  then have "i < length es" by simp
  with i assms(1) show "tt_at (g_timetable s) k = Inr (row_of (es ! nat k))" "entry_ok (es ! nat k)"
    "nat k < length es"
    by (auto simp: server_ok_def shows_table_at list_all_length)
qed

lemma depart_time_length: "server_ok s es \<Longrightarrow> length (depart_time es m) < MAX_TIMESTRING"
  using server_row(2) [of s es "m_start_time m" "m_stations m ! nat (m_current m)"]
  by (auto simp: depart_time_def Let_def entry_ok_def token_def)

lemma source_found_mem:
  assumes "lens m" and "server_ok s es" and "0 \<le> m_current m" and "m_current m < int (m_hops m)"
    and "search_timetable (g_timetable s) (num_timetables s) (m_start_time m) (m_stations m ! nat (m_current m))
      = Inr (first_departure es (m_start_time m) (m_stations m ! nat (m_current m)))"
  shows "source_found s (mem e m) = Inr (mem e (depart_msg es m))"
proof -
  let ?k = "first_departure es (m_start_time m) (m_stations m ! nat (m_current m))"
  have dep: "(if ?k = - 1 then Inr ''99:99''
      else bindR (tt_at (g_timetable s) ?k) (\<lambda>r. rd_str (departure_time r))) = Inr (depart_time es m)"
    using server_row(1) [OF assms(2), of "m_start_time m" "m_stations m ! nat (m_current m)"]
    by (simp add: depart_time_def Let_def cell_simps)
  have w: "wr_cell MAX_TIMESTRING (time (mem e m)) 0 (depart_time es m)
      = Inr (map Some ((m_time m)[0 := depart_time es m]) @ e)"
    using mem_wr(1) [OF assms(1), of 0 "depart_time es m" MAX_TIMESTRING e] assms(3,4)
      depart_time_length [OF assms(2), of m] by simp
  have l: "lens (m\<lparr>m_time := (m_time m)[0 := depart_time es m]\<rparr>)"
    using assms(1) by (simp add: lens_def)
  show ?thesis
    unfolding source_found_def mem_fields bindR_Inr print_mem_bind [OF assms(1)]
      mem_rd(1) [OF assms(1,3,4)] assms(5) dep w mem_updates print_mem_bind [OF l]
    by (simp add: depart_msg_def mem_def m_hops_def)
qed

lemma source_depart:
  assumes "lens m" and "server_ok s es" and "is_time (m_start_time m)"
    and "m_source m = my_name s" and "m_found m = 1" and "0 \<le> m_current m" and "m_current m < int (m_hops m)"
  shows "udp_at_source s (mem e m) = Inr (mem e (depart_msg es m))"
  using source_found_mem [OF assms(1,2,6,7) server_search [OF assms(2,3)]] assms(4,5)
  by (simp add: udp_at_source_def depart_msg_def)

section \<open>Stepping back and filling in\<close>

lemma back_msg_simps [simp]:
  "m_found (back_msg m) = m_found m" "m_hops (back_msg m) = m_hops m"
  "m_current (back_msg m) = m_current m - 1" "m_address (back_msg m) = m_address m"
  by (simp_all add: back_msg_def)

lemma back_msg_lens: "lens m \<Longrightarrow> lens (back_msg m)"
  by (simp add: lens_def back_msg_def)

lemma step_back_mem:
  assumes "lens m" and "m_hops m \<le> MAXDATASIZE" and "benign os" and "addr_at m i ip port" and "m_current m = int i + 2"
  shows "step_back os (mem e m) = printed (back_msg m) (Inr [UdpSend ip port (wire (back_msg m))])"
proof -
  have "in_int (int i + 1)" using assms(2,4) by (simp add: addr_at_def in_int_def)
  then have "c_int (m_current m - 1) = Inr (int i + 1)" using assms(5) by (simp add: c_int_def add.commute)
  moreover have "addr_at (back_msg m) i ip port" using assms(4) by (simp add: addr_at_def)
  ultimately show ?thesis
    using forward_mem [OF back_msg_lens [OF assms(1)] _ assms(3), of i ip port e] assms(2,5)
    by (simp add: step_back_def mem_updates) (simp add: back_msg_def add.commute)
qed

lemma fill_leg_mem:
  assumes "lens m" and "server_ok s es" and "1 \<le> m_current m" and "m_current m < int (m_hops m)"
    and "is_time (m_time m ! nat (m_current m - 1))" and "leg_row es m \<noteq> - 1"
    and "in_int (m_current m + 1)"
  shows "fill_leg s (mem e m) = Inr (mem e (fill_msg es m))"
proof -
  let ?c = "m_current m" and ?k = "leg_row es m"
  let ?e = "es ! nat ?k"
  have row: "tt_at (g_timetable s) ?k = Inr (row_of ?e)" and ok: "entry_ok ?e"
    using server_row [OF assms(2) _ assms(6)] by (auto simp: leg_row_def)
  have caps: "length (e_arrival ?e) < MAX_TIMESTRING" "length (e_route ?e) < MAX_NAME_LENGTH"
    using ok by (simp_all add: entry_ok_def token_def)
  have c: "0 \<le> ?c - 1" "?c - 1 < int (m_hops m)" "0 \<le> ?c" using assms(3,4) by simp_all
  show ?thesis
    unfolding fill_leg_def mem_fields bindR_Inr mem_rd(4) [OF assms(1) c(1,2)]
      mem_rd(1) [OF assms(1) c(3) assms(4)] server_search [OF assms(2,5)]
      leg_row_def [symmetric] if_not_P [OF assms(6)] row rd_str_row prod.case
      mem_wr(1) [OF assms(1) c(3) assms(4) caps(1)] mem_wr(2) [OF assms(1) c(3) assms(4) caps(2)]
      c_int_ok [OF assms(7)]
    by (simp add: fill_msg_def Let_def mem_def m_hops_def)
qed

lemma fill_leg_none:
  assumes "lens m" and "server_ok s es" and "1 \<le> m_current m" and "m_current m < int (m_hops m)"
    and "is_time (m_time m ! nat (m_current m - 1))" and "leg_row es m = - 1"
  shows "fill_leg s (mem e m) = Inl OutOfBounds"
proof -
  let ?c = "m_current m"
  have caps: "length ''99:99'' < MAX_TIMESTRING" "length ''NOTFOUND'' < MAX_NAME_LENGTH" by simp_all
  have c: "0 \<le> ?c - 1" "?c - 1 < int (m_hops m)" "0 \<le> ?c" using assms(3,4) by simp_all
  have out: "tt_at (g_timetable s) (- 1) = Inl OutOfBounds"
    using assms(2) by (auto simp: server_ok_def shows_table_def tt_at_def split: option.splits)
  show ?thesis
    unfolding fill_leg_def mem_fields bindR_Inr mem_rd(4) [OF assms(1) c(1,2)]
      mem_rd(1) [OF assms(1) c(3) assms(4)] server_search [OF assms(2,5)]
      leg_row_def [symmetric] if_P [OF assms(6)] prod.case
      mem_wr(1) [OF assms(1) c(3) assms(4) caps(1)] mem_wr(2) [OF assms(1) c(3) assms(4) caps(2)]
    by (simp add: assms(6) out)
qed

section \<open>Answering the browsers\<close>

text \<open>Every browser that waits for the query is sent the answer once and closed; the rest stay.\<close>

definition answer_events :: "client_state \<Rightarrow> query \<Rightarrow> event list" where
  "answer_events cs q = concat (map (\<lambda>f. [TcpSend f (q_answers q), TcpClose f]) (waiting cs q))"

definition drop_waiting :: "query \<Rightarrow> client_state \<Rightarrow> client_state" where
  "drop_waiting q cs =
     cs\<lparr>head_client := filter (\<lambda>n. \<not> same_query (c_query n) q) (head_client cs)\<rparr>"

lemma waiting_Nil: "waiting cs q = [] \<Longrightarrow> drop_waiting q cs = cs"
  by (simp add: waiting_def drop_waiting_def filter_empty_conv)

lemma drop_waiting_remove:
  assumes "distinct (fds_of cs)" and "find_client q cs = Some n"
  shows "drop_waiting q (remove_client (fd n) cs) = drop_waiting q cs"
proof -
  have n: "n \<in> set (head_client cs)" "same_query (c_query n) q"
    using find_node_Some [of q "head_client cs" n] assms(2) by (simp_all add: find_client_def)
  have "fd k \<noteq> fd n" if "k \<in> set (head_client cs)" "\<not> same_query (c_query k) q" for k
    using that n assms(1) by (auto simp: fds_of_def distinct_map dest: inj_onD)
  then have "filter (\<lambda>k. fd k \<noteq> fd n \<and> \<not> same_query (c_query k) q) (head_client cs) =
      filter (\<lambda>k. \<not> same_query (c_query k) q) (head_client cs)"
    by (auto intro!: filter_cong)
  with assms(1) show ?thesis
    by (simp add: drop_waiting_def remove_client_def fds_of_def unlink_filter)
qed

lemma serve_clients_spec:
  "distinct (fds_of cs) \<Longrightarrow> serve_clients q cs = (drop_waiting q cs, answer_events cs q)"
proof (induction q cs rule: serve_clients.induct)
  case (1 q cs)
  show ?case
  proof (cases "find_client q cs")
    case None
    then have "waiting cs q = []"
      using conns.find_waits [of q cs] by (simp add: find_fd_def split: list.splits)
    with None show ?thesis
      by (simp add: serve_clients.simps [of q cs] answer_events_def waiting_Nil)
  next
    case (Some n)
    then have f: "find_fd q cs = Some (fd n)" by (simp add: find_fd_def)
    have d: "distinct (fds_of (remove_client (fd n) cs))"
      using 1(2) by (simp add: conns.fds_remove distinct_remove1)
    show ?thesis
      using 1(1) [OF Some d] Some conns.found_waits [OF 1(2) f] drop_waiting_remove [OF 1(2) Some]
      by (simp add: serve_clients.simps [of q cs] answer_events_def)
  qed
qed

section \<open>A running example\<close>

definition demo_os :: os where
  "demo_os = \<lparr>sys_getaddrinfo = (\<lambda>host port h. Some [\<lparr>ai_family = AF_INET, ai_addr = port\<rparr>]),
     sys_socket = (\<lambda>_. 5), sys_setsockopt = (\<lambda>_ _. 0), sys_bind = (\<lambda>_ _. 0),
     sys_listen = (\<lambda>_ _. 0), sys_sendto = (\<lambda>_ text _. int (length text))\<rparr>"

lemma demo_benign: "benign demo_os"
  by (simp add: benign_def sends_work_def reachable_host_def demo_os_def)

definition demo_server :: server where
  "demo_server = \<lparr>g_station = demo_station, g_timetable = demo_table, num_timetables = 4,
     g_neighbours = [nb (''10.0.0.1'', ''4002''), nb (''10.0.0.1'', ''4006'')], num_neighbours = 2,
     TCP_port = ''4003'', UDP_port = ''4004'', local_ip = ''10.0.0.1'', formatted_time = ''09:00'',
     latest_time = 0, clients = init_clients\<rparr>"

lemma demo_server_ok: "server_ok demo_server demo_entries"
  by code_simp

text \<open>A message that has been to StationA, for \<open>dst\<close> from \<open>src\<close>.\<close>

definition demo_query :: "string \<Rightarrow> string \<Rightarrow> msg" where
  "demo_query src dst = \<lparr>m_found = 0, m_current = 1, m_stations = [''StationA''],
     m_address = [''10.0.0.1:4002''], m_routes = [''...''], m_time = [''...''],
     m_destination = dst, m_source = src, m_start_time = ''06:00''\<rparr>"

text \<open>A message on its way along StationA, JunctionC and TerminalR.\<close>

definition demo_route :: "int \<Rightarrow> int \<Rightarrow> string \<Rightarrow> string \<Rightarrow> msg" where
  "demo_route f c src dst = \<lparr>m_found = f, m_current = c,
     m_stations = [''StationA'', ''JunctionC'', ''TerminalR''],
     m_address = [''10.0.0.1:4002'', ''10.0.0.1:4004'', ''10.0.0.1:4006''],
     m_routes = [''...'', ''busA_C'', ''busR_C''], m_time = [''05:40'', ''06:00'', ''23:00''],
     m_destination = dst, m_source = src, m_start_time = ''05:30''\<rparr>"

section \<open>Properties\<close>

lemma flooding:
  assumes "wf_msg m" and "length (wire m) < MAXDATASIZE" and "m_found m = 0"
    and "m_destination m \<noteq> my_name s" and "server_ok s es"
    and "num_neighbours s = int (length (g_neighbours s))" and "benign os"
  shows "udp_handler os s (wire m) = bindR (sends (flood_msg s m) (flood_events s m)) (\<lambda>ev. Inr (s, ev))"
  using udp_flood_mem [OF assms(1,2,5,7,6)] assms(3,4)
  by (simp add: udp_receive [OF assms(1,2)] dest_other source_other spare_def udp_dispatch_def)

lemma floods_step:
  assumes "wf_msg m" and "length (wire m) < MAXDATASIZE" and "m_found m = 0"
    and "m_destination m \<noteq> my_name s" and "server_ok s es"
    and "num_neighbours s = int (length (g_neighbours s))" and "benign os"
    and "sendable (flood_msg s m)"
  shows "udp_handler os s (wire m) = Inr (s, flood_events s m)"
  using flooding [OF assms(1-7)] sends_room [OF sendable_room [OF assms(8)]] by simp

text \<open>C11. Flooding: a query that has not been found and is not for this station is sent, with this
  station appended, to exactly the neighbours whose address it does not carry yet, once each and in
  order; nothing else changes. When there are such neighbours and the longer message does not fit
  the buffer allocated for it, it is written past the end of that buffer.\<close>

theorem udp_floods:
  assumes "wf_msg m" and "length (wire m) < MAXDATASIZE" and "m_found m = 0"
    and "m_destination m \<noteq> my_name s" and "server_ok s es"
    and "num_neighbours s = int (length (g_neighbours s))" and "benign os"
  shows "udp_handler os s (wire m) =
    (if flood_events s m = [] \<or> room (flood_msg s m) then Inr (s, flood_events s m) else Inl BufferOverflow)"
  using flooding [OF assms] by (simp add: sends_def printed_def)

theorem udp_floods_witness:
  "udp_handler demo_os demo_server ''0 1 1 StationA 10.0.0.1:4002 ... ... TerminalR StationA 06:00;''
   = Inr (demo_server, [UdpSend ''10.0.0.1'' ''4006''
       ''0 2 2 StationA JunctionC 10.0.0.1:4002 10.0.0.1:4004 ... ... ... ... TerminalR StationA 06:00;''])"
proof -
  let ?m = "demo_query ''StationA'' ''TerminalR''"
  have "wire ?m = ''0 1 1 StationA 10.0.0.1:4002 ... ... TerminalR StationA 06:00;''"
    "flood_events demo_server ?m = [UdpSend ''10.0.0.1'' ''4006''
       ''0 2 2 StationA JunctionC 10.0.0.1:4002 10.0.0.1:4004 ... ... ... ... TerminalR StationA 06:00;'']"
    by code_simp+
  moreover have "room (flood_msg demo_server ?m)" by code_simp
  moreover have "udp_handler demo_os demo_server (wire ?m) =
      (if flood_events demo_server ?m = [] \<or> room (flood_msg demo_server ?m)
       then Inr (demo_server, flood_events demo_server ?m) else Inl BufferOverflow)"
    by (rule udp_floods [OF _ _ _ _ demo_server_ok _ demo_benign]) code_simp+
  ultimately show ?thesis by simp
qed

lemma arriving:
  assumes "wf_msg m" and "length (wire m) < MAXDATASIZE" and "m_found m = 0"
    and "m_destination m = my_name s" and "m_source m \<noteq> my_name s" and "server_ok s es"
    and "benign os" and "m_hops m = Suc i" and "addr_at m i ip port"
  shows "udp_handler os s (wire m) = printed (back_msg (arrive_msg s es m))
    (Inr (s, [UdpSend ip port (wire (back_msg (arrive_msg s es m)))]))"
proof -
  let ?a = "arrive_msg s es m"
  have "addr_at ?a i ip port"
    using assms(1,8,9) wf_lens [of m]
    by (simp add: addr_at_def arrive_msg_def nth_append lens_def)
  moreover have "m_current ?a = int i + 2" "lens ?a" "m_hops ?a \<le> MAXDATASIZE"
    using assms(8) wf_lens [OF assms(1)] wire_hops [OF assms(2)] by (simp_all add: arrive_msg_def lens_def)
  ultimately have "step_back os (mem [] ?a) = printed (back_msg ?a) (Inr [UdpSend ip port (wire (back_msg ?a))])"
    using assms(7) by (intro step_back_mem)
  moreover have "udp_at_source s (mem [] ?a) = Inr (mem [] ?a)"
    using assms(5) by (intro source_other) (simp add: arrive_msg_def)
  moreover have "m_found ?a = 1" by (simp add: arrive_msg_def)
  ultimately show ?thesis
    using dest_arrive [OF assms(1,6,3,4)] assms(3)
    by (simp add: udp_receive [OF assms(1,2)] spare_def udp_dispatch_def udp_backtrace_def)
qed

lemma arrives_step:
  assumes "wf_msg m" and "length (wire m) < MAXDATASIZE" and "m_found m = 0"
    and "m_destination m = my_name s" and "m_source m \<noteq> my_name s" and "server_ok s es"
    and "benign os" and "m_hops m = Suc i" and "addr_at m i ip port"
    and "sendable (back_msg (arrive_msg s es m))"
  shows "udp_handler os s (wire m) = Inr (s, [UdpSend ip port (wire (back_msg (arrive_msg s es m)))])"
  using arriving [OF assms(1-9)] sendable_room [OF assms(10)] by simp

text \<open>C12. Arrival: at its destination the query becomes found, takes the first timetable row's route
  and time for its last hop, and goes back to the station it came from with \<open>current\<close> one less than
  the number of hops, unless the buffer it is printed into does not hold it.\<close>

theorem udp_arrives:
  assumes "wf_msg m" and "length (wire m) < MAXDATASIZE" and "m_found m = 0"
    and "m_destination m = my_name s" and "m_source m \<noteq> my_name s" and "server_ok s es"
    and "benign os" and "m_hops m = Suc i" and "addr_at m i ip port"
  shows "udp_handler os s (wire m) = (if room (back_msg (arrive_msg s es m))
    then Inr (s, [UdpSend ip port (wire (back_msg (arrive_msg s es m)))]) else Inl BufferOverflow)"
  using arriving [OF assms] by (simp add: printed_def)

theorem udp_arrives_witness:
  "udp_handler demo_os demo_server ''0 1 1 StationA 10.0.0.1:4002 ... ... JunctionC StationA 06:00;''
   = Inr (demo_server, [UdpSend ''10.0.0.1'' ''4002''
       ''1 2 1 StationA JunctionC 10.0.0.1:4002 10.0.0.1:4004 ... busC_R ... 06:13 JunctionC StationA 06:00;''])"
proof -
  let ?m = "demo_query ''StationA'' ''JunctionC''"
  have "wire ?m = ''0 1 1 StationA 10.0.0.1:4002 ... ... JunctionC StationA 06:00;''"
    "wire (back_msg (arrive_msg demo_server demo_entries ?m)) =
       ''1 2 1 StationA JunctionC 10.0.0.1:4002 10.0.0.1:4004 ... busC_R ... 06:13 JunctionC StationA 06:00;''"
    by code_simp+
  moreover have "room (back_msg (arrive_msg demo_server demo_entries ?m))" by code_simp
  moreover have "udp_handler demo_os demo_server (wire ?m) = (if room (back_msg (arrive_msg demo_server demo_entries ?m))
      then Inr (demo_server, [UdpSend ''10.0.0.1'' ''4002'' (wire (back_msg (arrive_msg demo_server demo_entries ?m)))])
      else Inl BufferOverflow)"
    by (rule udp_arrives [OF _ _ _ _ _ demo_server_ok demo_benign, of _ 0]) code_simp+
  ultimately show ?thesis by simp
qed

text \<open>C34. A query whose destination is the station it was asked at is not answered: the station
  enters itself as the last hop and then reads the name of the hop after it, outside the array.\<close>

theorem udp_self_query:
  assumes "wf_msg m" and "length (wire m) < MAXDATASIZE" and "m_found m = 0"
    and "m_destination m = my_name s" and "m_source m = my_name s" and "server_ok s es"
  shows "udp_handler os s (wire m) = Inl OutOfBounds"
proof -
  let ?m = "arrive_msg s es m"
  have l: "lens ?m" using wf_lens [OF assms(1)] by (simp add: lens_def arrive_msg_def m_hops_def)
  have "int (length (stations (mem [] ?m))) \<le> m_current ?m"
    by (simp add: mem_def arrive_msg_def m_hops_def)
  then have "source_found s (mem [] ?m) = Inl OutOfBounds"
    unfolding source_found_def mem_fields bindR_Inr print_mem_bind [OF l]
    by (simp add: rd_cell_outside)
  moreover have "m_found ?m = 1" "m_source ?m = my_name s" using assms(5) by (simp_all add: arrive_msg_def)
  ultimately have "udp_at_source s (mem [] ?m) = Inl OutOfBounds" by (simp add: udp_at_source_def)
  then show ?thesis
    using dest_arrive [OF assms(1,6,3,4)] assms(3)
    by (simp add: udp_receive [OF assms(1,2)] spare_def)
qed

theorem udp_self_query_witness:
  "udp_handler demo_os demo_server ''0 1 1 StationA 10.0.0.1:4002 ... ... JunctionC JunctionC 06:00;''
   = Inl OutOfBounds"
proof -
  let ?m = "demo_query ''JunctionC'' ''JunctionC''"
  have "wire ?m = ''0 1 1 StationA 10.0.0.1:4002 ... ... JunctionC JunctionC 06:00;''" by code_simp
  moreover have "udp_handler demo_os demo_server (wire ?m) = Inl OutOfBounds"
    by (rule udp_self_query [OF _ _ _ _ _ demo_server_ok]) code_simp+
  ultimately show ?thesis by simp
qed

lemma stepping_back:
  assumes "wf_msg m" and "length (wire m) < MAXDATASIZE" and "m_found m = 1 \<or> m_found m = 3"
    and "m_source m \<noteq> my_name s" and "benign os" and "m_current m = int i + 2"
    and "addr_at m i ip port"
  shows "udp_handler os s (wire m) = printed (back_msg m) (Inr (s, [UdpSend ip port (wire (back_msg m))]))"
  using step_back_mem [OF wf_lens [OF assms(1)] less_imp_le [OF wire_hops [OF assms(2)]] assms(5,7,6)] assms(3,4)
  by (auto simp: udp_receive [OF assms(1,2)] dest_other source_other udp_dispatch_def
      udp_backtrace_def udp_return_def)

lemma back_step:
  assumes "wf_msg m" and "length (wire m) < MAXDATASIZE" and "m_found m = 1 \<or> m_found m = 3"
    and "m_source m \<noteq> my_name s" and "benign os" and "m_current m = int i + 2"
    and "addr_at m i ip port" and "sendable (back_msg m)"
  shows "udp_handler os s (wire m) = Inr (s, [UdpSend ip port (wire (back_msg m))])"
  using stepping_back [OF assms(1-7)] sendable_room [OF assms(8)] by simp

text \<open>C13. On the way back, whether it announces that the destination was found (1) or that the route is
  complete (3), a message that is not at its source only moves: it is sent unchanged, but for
  \<open>current\<close> one less, to the hop before, if the buffer it is printed into holds it.\<close>

theorem udp_passes_back:
  assumes "wf_msg m" and "length (wire m) < MAXDATASIZE" and "m_found m = 1 \<or> m_found m = 3"
    and "m_source m \<noteq> my_name s" and "benign os" and "m_current m = int i + 2"
    and "addr_at m i ip port"
  shows "udp_handler os s (wire m) =
    (if room (back_msg m) then Inr (s, [UdpSend ip port (wire (back_msg m))]) else Inl BufferOverflow)"
  using stepping_back [OF assms] by (simp add: printed_def)

theorem udp_passes_back_witness:
  "udp_handler demo_os demo_server (wire (demo_route 1 2 ''StationA'' ''TerminalR''))
   = Inr (demo_server, [UdpSend ''10.0.0.1'' ''4002'' (wire (demo_route 1 1 ''StationA'' ''TerminalR''))])"
proof -
  have "back_msg (demo_route 1 2 ''StationA'' ''TerminalR'') = demo_route 1 1 ''StationA'' ''TerminalR''"
    by code_simp
  moreover have "room (back_msg (demo_route 1 2 ''StationA'' ''TerminalR''))" by code_simp
  moreover have "udp_handler demo_os demo_server (wire (demo_route 1 2 ''StationA'' ''TerminalR'')) =
     (if room (back_msg (demo_route 1 2 ''StationA'' ''TerminalR''))
      then Inr (demo_server, [UdpSend ''10.0.0.1'' ''4002'' (wire (back_msg (demo_route 1 2 ''StationA'' ''TerminalR'')))])
      else Inl BufferOverflow)"
    by (rule udp_passes_back [OF _ _ _ _ demo_benign, of _ _ 0]) code_simp+
  ultimately show ?thesis by simp
qed

lemma fill_forward:
  assumes "lens m" and "m_hops m \<le> MAXDATASIZE" and "benign os" and "addr_at m i ip port" and "m_current m = int i"
  shows "forward os (mem e (fill_msg es m)) (m_current (fill_msg es m)) =
    printed (fill_msg es m) (Inr [UdpSend ip port (wire (fill_msg es m))])"
proof -
  have "addr_at (fill_msg es m) i ip port" "m_hops (fill_msg es m) \<le> MAXDATASIZE" "lens (fill_msg es m)"
    using assms(1,2,4) by (simp_all add: addr_at_def fill_msg_def Let_def m_hops_def lens_def)
  moreover have "m_current (fill_msg es m) = int i + 1"
    using assms(5) by (simp add: fill_msg_def Let_def)
  ultimately show ?thesis using forward_mem assms(3) by simp
qed

lemma fill_found [simp]: "m_found (fill_msg es m) = m_found m"
  by (simp add: fill_msg_def Let_def)

lemma udp_fill_mem:
  assumes "lens m" and "m_hops m \<le> MAXDATASIZE" and "server_ok s es" and "benign os" and "m_current m = int i"
    and "1 \<le> i" and "is_time (m_time m ! (i - 1))" and "leg_row es m \<noteq> - 1" and "addr_at m i ip port"
  shows "udp_fill os s (mem e m) = printed (fill_msg es m) (Inr (s, [UdpSend ip port (wire (fill_msg es m))]))"
proof -
  have i: "i < m_hops m" using assms(9) by (simp add: addr_at_def)
  then have "in_int (m_current m + 1)" using assms(2,5) by (simp add: in_int_def)
  moreover have "nat (int i - 1) = i - 1" by simp
  ultimately have "fill_leg s (mem e m) = Inr (mem e (fill_msg es m))"
    using assms i by (intro fill_leg_mem) simp_all
  then show ?thesis
    using fill_forward [OF assms(1,2,4,9,5)] by (simp add: udp_fill_def)
qed

lemma filling:
  assumes "wf_msg m" and "length (wire m) < MAXDATASIZE" and "m_found m = 2"
    and "m_destination m \<noteq> my_name s" and "server_ok s es" and "benign os"
    and "m_current m = int i" and "1 \<le> i" and "is_time (m_time m ! (i - 1))"
    and "leg_row es m \<noteq> - 1" and "addr_at m i ip port"
  shows "udp_handler os s (wire m) = printed (fill_msg es m) (Inr (s, [UdpSend ip port (wire (fill_msg es m))]))"
  using udp_fill_mem [OF wf_lens [OF assms(1)] less_imp_le [OF wire_hops [OF assms(2)]] assms(5-11)] assms(3,4)
  by (simp add: udp_receive [OF assms(1,2)] dest_other source_other udp_dispatch_def)

lemma fills_step:
  assumes "wf_msg m" and "length (wire m) < MAXDATASIZE" and "m_found m = 2"
    and "m_destination m \<noteq> my_name s" and "server_ok s es" and "benign os"
    and "m_current m = int i" and "1 \<le> i" and "is_time (m_time m ! (i - 1))"
    and "leg_row es m \<noteq> - 1" and "addr_at m i ip port" and "sendable (fill_msg es m)"
  shows "udp_handler os s (wire m) = Inr (s, [UdpSend ip port (wire (fill_msg es m))])"
  using filling [OF assms(1-11)] sendable_room [OF assms(12)] by simp

text \<open>C15. On the second way out every station but the last enters its leg: the first timetable row
  that goes to the next station of the path and leaves no earlier than the message arrived here,
  its arrival time and its route, and passes the message on to that station, if the buffer it is
  printed into holds it.\<close>

theorem udp_fills_leg:
  assumes "wf_msg m" and "length (wire m) < MAXDATASIZE" and "m_found m = 2"
    and "m_destination m \<noteq> my_name s" and "server_ok s es" and "benign os"
    and "m_current m = int i" and "1 \<le> i" and "is_time (m_time m ! (i - 1))"
    and "leg_row es m \<noteq> - 1" and "addr_at m i ip port"
  shows "udp_handler os s (wire m) =
    (if room (fill_msg es m) then Inr (s, [UdpSend ip port (wire (fill_msg es m))]) else Inl BufferOverflow)"
  using filling [OF assms] by (simp add: printed_def)

theorem udp_fills_leg_witness:
  "udp_handler demo_os demo_server (wire (demo_route 2 2 ''StationA'' ''TerminalR''))
   = Inr (demo_server, [UdpSend ''10.0.0.1'' ''4006''
       (''2 3 3 StationA JunctionC TerminalR 10.0.0.1:4002 10.0.0.1:4004 10.0.0.1:4006 ''
         @ ''... busA_C busC_R 05:40 06:00 06:13 TerminalR StationA 05:30;'')])"
proof -
  let ?m = "demo_route 2 2 ''StationA'' ''TerminalR''"
  have "wire (fill_msg demo_entries ?m) =
      ''2 3 3 StationA JunctionC TerminalR 10.0.0.1:4002 10.0.0.1:4004 10.0.0.1:4006 ''
         @ ''... busA_C busC_R 05:40 06:00 06:13 TerminalR StationA 05:30;''"
    by code_simp
  moreover have "room (fill_msg demo_entries ?m)" by code_simp
  moreover have "udp_handler demo_os demo_server (wire ?m) = (if room (fill_msg demo_entries ?m)
      then Inr (demo_server, [UdpSend ''10.0.0.1'' ''4006'' (wire (fill_msg demo_entries ?m))]) else Inl BufferOverflow)"
    by (rule udp_fills_leg [OF _ _ _ _ demo_server_ok demo_benign, of _ 2]) code_simp+
  ultimately show ?thesis by simp
qed

lemma is_time_99 [simp]: "is_time ''99:99''"
  by code_simp

lemma is_time_depart: "server_ok s es \<Longrightarrow> is_time (depart_time es m)"
  using server_row(2) [of s es "m_start_time m" "m_stations m ! nat (m_current m)"]
  by (auto simp: depart_time_def Let_def entry_ok_def)

lemma depart_msg_simps [simp]:
  "m_found (depart_msg es m) = 2" "m_hops (depart_msg es m) = m_hops m"
  "m_current (depart_msg es m) = m_current m" "m_address (depart_msg es m) = m_address m"
  "m_destination (depart_msg es m) = m_destination m" "m_source (depart_msg es m) = m_source m"
  "m_stations (depart_msg es m) = m_stations m" "m_start_time (depart_msg es m) = m_start_time m"
  "m_time (depart_msg es m) = (m_time m)[0 := depart_time es m]" "m_routes (depart_msg es m) = m_routes m"
  by (simp_all add: depart_msg_def m_hops_def)

lemma departing:
  assumes "wf_msg m" and "length (wire m) < MAXDATASIZE" and "m_found m = 1"
    and "m_source m = my_name s" and "is_time (m_start_time m)" and "server_ok s es" and "benign os"
    and "m_current m = 1" and "leg_row es (depart_msg es m) \<noteq> - 1" and "addr_at m 1 ip port"
  shows "udp_handler os s (wire m) = printed (fill_msg es (depart_msg es m))
    (Inr (s, [UdpSend ip port (wire (fill_msg es (depart_msg es m)))]))"
proof -
  let ?d = "depart_msg es m"
  have l: "lens m" "lens ?d" using wf_lens [OF assms(1)] by (simp_all add: lens_def)
  have h: "1 < m_hops m" using assms(10) by (simp add: addr_at_def)
  have "udp_at_source s (mem e m) = Inr (mem e ?d)" for e
    using l(1) assms h by (intro source_depart) simp_all
  moreover have "0 < length (m_time m)" using l(1) h by (simp add: lens_def)
  then have "is_time (m_time ?d ! (1 - 1))" using is_time_depart [OF assms(6)] by simp
  then have "udp_fill os s (mem e ?d) = printed (fill_msg es ?d) (Inr (s, [UdpSend ip port (wire (fill_msg es ?d))]))" for e
    using l(2) assms less_imp_le [OF wire_hops [OF assms(2)]]
    by (intro udp_fill_mem [where i = 1]) (simp_all add: addr_at_def del: MAXDATASIZE_def)
  ultimately show ?thesis
    using assms(3) by (simp add: udp_receive [OF assms(1,2)] dest_other udp_dispatch_def)
qed

lemma departs_step:
  assumes "wf_msg m" and "length (wire m) < MAXDATASIZE" and "m_found m = 1"
    and "m_source m = my_name s" and "is_time (m_start_time m)" and "server_ok s es" and "benign os"
    and "m_current m = 1" and "leg_row es (depart_msg es m) \<noteq> - 1" and "addr_at m 1 ip port"
    and "sendable (fill_msg es (depart_msg es m))"
  shows "udp_handler os s (wire m) =
    Inr (s, [UdpSend ip port (wire (fill_msg es (depart_msg es m)))])"
  using departing [OF assms(1-10)] sendable_room [OF assms(11)] by simp

text \<open>C14. Departure: back at its source the message gets its departure time (that of the first row to
  the first station of the path from the start time on, or 99:99), becomes a request to fill in
  the legs, gets the first leg at once and goes to the first station, if the buffer it is printed
  into holds it.\<close>

theorem udp_departs:
  assumes "wf_msg m" and "length (wire m) < MAXDATASIZE" and "m_found m = 1"
    and "m_source m = my_name s" and "is_time (m_start_time m)" and "server_ok s es" and "benign os"
    and "m_current m = 1" and "leg_row es (depart_msg es m) \<noteq> - 1" and "addr_at m 1 ip port"
  shows "udp_handler os s (wire m) = (if room (fill_msg es (depart_msg es m))
    then Inr (s, [UdpSend ip port (wire (fill_msg es (depart_msg es m)))]) else Inl BufferOverflow)"
  using departing [OF assms] by (simp add: printed_def)

theorem udp_departs_witness:
  "udp_handler demo_os demo_server (wire (demo_query ''StationA'' ''JunctionC'' \<lparr>m_found := 1,
      m_stations := [''JunctionC'', ''TerminalR''], m_address := [''10.0.0.1:4004'', ''10.0.0.1:4006''],
      m_routes := [''...'', ''busR_C''], m_time := [''...'', ''23:00''], m_source := ''JunctionC'',
      m_destination := ''TerminalR''\<rparr>))
   = Inr (demo_server, [UdpSend ''10.0.0.1'' ''4006''
       (''2 2 2 JunctionC TerminalR 10.0.0.1:4004 10.0.0.1:4006 ... busC_R 06:02 06:13 ''
         @ ''TerminalR JunctionC 06:00;'')])" (is "udp_handler _ _ (wire ?m) = _")
proof -
  have "wire (fill_msg demo_entries (depart_msg demo_entries ?m)) =
      ''2 2 2 JunctionC TerminalR 10.0.0.1:4004 10.0.0.1:4006 ... busC_R 06:02 06:13 ''
         @ ''TerminalR JunctionC 06:00;''"
    by code_simp
  moreover have "room (fill_msg demo_entries (depart_msg demo_entries ?m))" by code_simp
  moreover have "udp_handler demo_os demo_server (wire ?m) = (if room (fill_msg demo_entries (depart_msg demo_entries ?m))
      then Inr (demo_server, [UdpSend ''10.0.0.1'' ''4006'' (wire (fill_msg demo_entries (depart_msg demo_entries ?m)))])
      else Inl BufferOverflow)"
    by (rule udp_departs [OF _ _ _ _ _ demo_server_ok demo_benign]) code_simp+
  ultimately show ?thesis by simp
qed

text \<open>C35. No connection: when no row of the timetable serves the leg, the handler writes 99:99 and
  NOTFOUND but does not get to send them: the line it prints then reads \<open>Timetable[-1]\<close>.\<close>

theorem udp_no_connection:
  assumes "wf_msg m" and "length (wire m) < MAXDATASIZE" and "m_found m = 2"
    and "m_destination m \<noteq> my_name s" and "server_ok s es" and "m_current m = int i"
    and "1 \<le> i" and "i < m_hops m" and "is_time (m_time m ! (i - 1))" and "leg_row es m = - 1"
  shows "udp_handler os s (wire m) = Inl OutOfBounds"
proof -
  have "nat (int i - 1) = i - 1" by simp
  then have "fill_leg s (mem e m) = Inl OutOfBounds" for e
    using assms by (intro fill_leg_none [OF wf_lens]) simp_all
  then show ?thesis
    using assms(3,4)
    by (simp add: udp_receive [OF assms(1,2)] dest_other source_other udp_dispatch_def udp_fill_def)
qed

theorem udp_no_connection_witness:
  "udp_handler demo_os demo_server (wire (demo_route 2 2 ''StationA'' ''StationX'' \<lparr>m_time :=
      [''05:40'', ''21:50'', ''23:00'']\<rparr>)) = Inl OutOfBounds"
  by (rule udp_no_connection [OF _ _ _ _ demo_server_ok, of _ 2]) code_simp+

lemma confirming:
  assumes "wf_msg m" and "length (wire m) < MAXDATASIZE" and "m_found m = 2"
    and "m_destination m = my_name s" and "m_source m \<noteq> my_name s" and "benign os"
    and "m_current m = int i + 2" and "addr_at m i ip port"
  shows "udp_handler os s (wire m) = printed (back_msg (m\<lparr>m_found := 3\<rparr>))
    (Inr (s, [UdpSend ip port (wire (back_msg (m\<lparr>m_found := 3\<rparr>)))]))"
proof -
  have "addr_at (m\<lparr>m_found := 3\<rparr>) i ip port" "m_current (m\<lparr>m_found := 3\<rparr>) = int i + 2"
    "lens (m\<lparr>m_found := 3\<rparr>)" "m_hops (m\<lparr>m_found := 3\<rparr>) \<le> MAXDATASIZE"
    using assms(7,8) wf_lens [OF assms(1)] wire_hops [OF assms(2)] by (simp_all add: addr_at_def lens_def)
  from step_back_mem [OF this(3,4) assms(6) this(1,2)] show ?thesis
    using assms(3,4,5)
    by (simp add: udp_receive [OF assms(1,2)] dest_confirm source_other udp_dispatch_def udp_return_def)
qed

lemma confirms_step:
  assumes "wf_msg m" and "length (wire m) < MAXDATASIZE" and "m_found m = 2"
    and "m_destination m = my_name s" and "m_source m \<noteq> my_name s" and "benign os"
    and "m_current m = int i + 2" and "addr_at m i ip port"
    and "sendable (back_msg (m\<lparr>m_found := 3\<rparr>))"
  shows "udp_handler os s (wire m) =
    Inr (s, [UdpSend ip port (wire (back_msg (m\<lparr>m_found := 3\<rparr>)))])"
  using confirming [OF assms(1-8)] sendable_room [OF assms(9)] by simp

text \<open>C16. At the destination a route whose legs are filled in is confirmed (\<open>found\<close> becomes 3) and
  starts its way back to the source, if the buffer it is printed into holds it.\<close>

theorem udp_confirms:
  assumes "wf_msg m" and "length (wire m) < MAXDATASIZE" and "m_found m = 2"
    and "m_destination m = my_name s" and "m_source m \<noteq> my_name s" and "benign os"
    and "m_current m = int i + 2" and "addr_at m i ip port"
  shows "udp_handler os s (wire m) = (if room (back_msg (m\<lparr>m_found := 3\<rparr>))
    then Inr (s, [UdpSend ip port (wire (back_msg (m\<lparr>m_found := 3\<rparr>)))]) else Inl BufferOverflow)"
  using confirming [OF assms] by (simp add: printed_def)

theorem udp_confirms_witness:
  "udp_handler demo_os (demo_server\<lparr>g_station := demo_station\<lparr>station_name := ''TerminalR''\<rparr>\<rparr>)
     (wire (demo_route 2 3 ''StationA'' ''TerminalR'')) =
   Inr (demo_server\<lparr>g_station := demo_station\<lparr>station_name := ''TerminalR''\<rparr>\<rparr>,
     [UdpSend ''10.0.0.1'' ''4004'' (wire (demo_route 3 2 ''StationA'' ''TerminalR''))])"
  (is "udp_handler _ ?s _ = _")
proof -
  have "back_msg ((demo_route 2 3 ''StationA'' ''TerminalR'')\<lparr>m_found := 3\<rparr>) =
    demo_route 3 2 ''StationA'' ''TerminalR''" by code_simp
  moreover have "room (demo_route 3 2 ''StationA'' ''TerminalR'')" by code_simp
  moreover have "udp_handler demo_os ?s (wire (demo_route 2 3 ''StationA'' ''TerminalR'')) =
     (if room (back_msg ((demo_route 2 3 ''StationA'' ''TerminalR'')\<lparr>m_found := 3\<rparr>))
      then Inr (?s, [UdpSend ''10.0.0.1'' ''4004''
        (wire (back_msg ((demo_route 2 3 ''StationA'' ''TerminalR'')\<lparr>m_found := 3\<rparr>)))])
      else Inl BufferOverflow)"
    by (rule udp_confirms [OF _ _ _ _ _ demo_benign, of _ _ 1]) code_simp+
  ultimately show ?thesis by (simp only: if_True)
qed

section \<open>The answer\<close>

text \<open>The answer is as long as the confirmed route.\<close>

lemma wire_four:
  assumes "m_found m = 3"
  shows "length (wire (m\<lparr>m_found := 4\<rparr>)) = length (wire m)"
proof -
  have "length (dec 4) = length (dec 3)" by code_simp
  then show ?thesis using assms by (simp add: length_wire)
qed

lemma room_four: "m_found m = 3 \<Longrightarrow> room (m\<lparr>m_found := 4\<rparr>) \<longleftrightarrow> room m"
  by (simp add: room_def wire_four m_hops_def)

lemma answering:
  assumes "wf_msg m" and "length (wire m) < MAXDATASIZE" and "m_found m = 3" and "m_source m = my_name s"
    and "\<And>qs. search_query (m_destination m) (m_start_time m) (clients s) = Some qs \<Longrightarrow> q_answers (hd qs) = []"
    and "distinct (fds_of (clients s))"
  shows "udp_handler os s (wire m) = printed m
    (case search_query (m_destination m) (m_start_time m) (clients s) of
       None \<Rightarrow> Inl NullDeref
     | Some qs \<Rightarrow>
         let q = (hd qs)\<lparr>q_answers := wire (m\<lparr>m_found := 4\<rparr>)\<rparr> in
         Inr (s\<lparr>clients := drop_waiting q (clients s)\<rparr>, answer_events (clients s) q))"
proof -
  let ?m = "m\<lparr>m_found := 4\<rparr>"
  have len: "length (wire ?m) < MAXDATASIZE" using wire_four [OF assms(3)] assms(2) by simp
  then have fit: "fit MAXDATASIZE (wire ?m) = Inr (wire ?m)" by (simp add: fit_def)
  have l: "lens ?m" using wf_lens [OF assms(1)] by (simp add: lens_def)
  have "udp_finish s (mem e ?m) = printed ?m
    (case search_query (m_destination m) (m_start_time m) (clients s) of
       None \<Rightarrow> Inl NullDeref
     | Some qs \<Rightarrow>
         let q = (hd qs)\<lparr>q_answers := wire ?m\<rparr> in
         Inr (s\<lparr>clients := drop_waiting q (clients s)\<rparr>, answer_events (clients s) q))" for e
    using assms(5) fit
    by (auto simp: udp_finish_def craft_mem [OF l less_imp_le [OF wire_hops [OF len]]] Let_def
        serve_clients_spec [OF assms(6)] simp del: MAXDATASIZE_def split: option.split)
  then show ?thesis
    using assms(3,4) source_confirm [OF assms(4,3) wf_lens [OF assms(1)]]
    by (simp add: udp_receive [OF assms(1,2)] dest_other udp_dispatch_def printed_def room_four)
qed

definition demo_ask :: "string \<Rightarrow> query" where
  "demo_ask dst = \<lparr>q_start_time = ''05:30'', q_destination = dst, q_answers = []\<rparr>"

text \<open>Three browsers at JunctionC: 7 and 9 ask for TerminalR, 8 for TerminalF.\<close>

definition demo_clients :: client_state where
  "demo_clients = add_client 9 (demo_ask ''TerminalR'') (add_client 8 (demo_ask ''TerminalF'')
     (add_client 7 (demo_ask ''TerminalR'') (add_query (demo_ask ''TerminalF'')
     (add_query (demo_ask ''TerminalR'') init_clients))))"



end
