(* ===== verification/Service.thy ===== *)
theory Service
  imports Phases
begin

text \<open>
  The station as a running service: what holds in every state the loop of \<open>main\<close> reaches, what a
  browser's request does, and what the timeout sends.

  \<^item> \<open>service_ok\<close> is the invariant: the descriptors that wait are distinct, the ring has its 100
    slots, and no stored query carries an answer.
  \<^item> \<open>reachable\<close> are the states of the loop, from the start-up on, under any input.
\<close>

section \<open>The invariant\<close>

definition unanswered :: "client_state \<Rightarrow> bool" where
  "unanswered cs \<longleftrightarrow> (\<forall>q\<in>set (queries cs). q_answers q = []) \<and>
     (\<forall>n\<in>set (head_client cs). q_answers (c_query n) = [])"

definition service_ok :: "server \<Rightarrow> bool" where
  "service_ok s \<longleftrightarrow> clients_ok (clients s) \<and> unanswered (clients s)"

lemma init_clients_ok: "clients_ok init_clients \<and> unanswered init_clients"
  by (simp add: clients_ok_def unanswered_def init_clients_def new_query_def)

lemma distinct_fds: "clients_ok cs \<Longrightarrow> distinct (fds_of cs)"
  by (simp add: clients_ok_def fds_of_def)

lemma remove_client_ok:
  "clients_ok cs \<Longrightarrow> unanswered cs \<Longrightarrow> clients_ok (remove_client f cs) \<and> unanswered (remove_client f cs)"
  using set_unlink_subset [of f "head_client cs"]
  by (auto simp: clients_ok_def unanswered_def remove_client_def distinct_unlink)

lemma register_ok:
  assumes "clients_ok cs" and "unanswered cs" and "q_answers q = []"
  shows "clients_ok (add_client f q (remove_client f cs)) \<and> unanswered (add_client f q (remove_client f cs))"
proof -
  have "distinct (fds_of (add_client f q (remove_client f cs)))"
    by (rule conns.register_distinct [OF distinct_fds [OF assms(1)]])
  then show ?thesis
    using remove_client_ok [OF assms(1,2), of f] assms(3)
    by (auto simp: clients_ok_def unanswered_def add_client_def fds_of_def)
qed

lemma add_query_ok:
  assumes "clients_ok cs" and "unanswered cs" and "q_answers q = []"
  shows "clients_ok (add_query q cs) \<and> unanswered (add_query q cs)"
  using assms by (auto simp: clients_ok_def unanswered_def add_query_def dest: set_update_subset_insert [THEN subsetD])

lemma drop_waiting_ok:
  "clients_ok cs \<Longrightarrow> unanswered cs \<Longrightarrow> clients_ok (drop_waiting q cs) \<and> unanswered (drop_waiting q cs)"
  by (simp add: clients_ok_def unanswered_def drop_waiting_def distinct_map_filter)

lemma search_query_unanswered:
  "unanswered cs \<Longrightarrow> search_query d t cs = Some qs \<Longrightarrow> qs \<noteq> [] \<and> (\<forall>q\<in>set qs. q_answers q = [])"
  by (auto simp: search_query_def unanswered_def Let_def split: if_splits)

lemma register_query_ok:
  assumes "clients_ok cs" and "unanswered cs" and "register_query d t f cs = Inr cs'"
  shows "clients_ok cs' \<and> unanswered cs'"
proof (cases "search_query d t cs")
  case None
  let ?q = "new_query\<lparr>q_start_time := t, q_destination := d\<rparr>"
  have q: "q_answers ?q = []" by (simp add: new_query_def)
  from None assms(3) have "cs' = add_client f ?q (remove_client f (add_query ?q cs))"
    by (auto simp: register_query_def fit_Inr_iff Let_def elim!: bindR_InrE)
  then show ?thesis using add_query_ok [OF assms(1,2) q] register_ok [of "add_query ?q cs" ?q f] q by simp
next
  case (Some qs)
  then have "q_answers (hd qs) = []"
    using search_query_unanswered [OF assms(2) Some] by (cases qs) auto
  with Some assms register_ok [of cs "hd qs" f] show ?thesis by (auto simp: register_query_def)
qed

lemma udp_finish_Inr:
  assumes "udp_finish s p = Inr (s', ev)"
  obtains q cs where "serve_clients q (clients s) = (cs, ev)" and "s' = s\<lparr>clients := cs\<rparr>"
proof -
  obtain q ans where "(let (cs, ev) = serve_clients (q\<lparr>q_answers := ans\<rparr>) (clients s) in
      Inr (s\<lparr>clients := cs\<rparr>, ev)) = (Inr (s', ev) :: (server \<times> event list) res)"
    using assms
    by (auto simp only: udp_finish_def Let_def split: option.splits elim!: bindR_InrE)
  with that show thesis by (auto split: prod.splits)
qed

lemma udp_dispatch_clients:
  assumes "udp_dispatch os s p = Inr (s', ev)" and "service_ok s"
  shows "\<exists>cs. s' = s\<lparr>clients := cs\<rparr> \<and> clients_ok cs \<and> unanswered cs"
proof (cases "found p = 4")
  case True
  with assms(1) have "udp_finish s p = Inr (s', ev)" by (simp add: udp_dispatch_def)
  then obtain q cs where "serve_clients q (clients s) = (cs, ev)" "s' = s\<lparr>clients := cs\<rparr>"
    by (rule udp_finish_Inr)
  then show ?thesis
    using assms(2) serve_clients_spec [OF distinct_fds] drop_waiting_ok
    by (auto simp: service_ok_def)
next
  case False
  then have "s' = s"
    using assms(1)
    by (auto simp: udp_dispatch_def udp_return_def udp_fill_def udp_backtrace_def udp_flood_def
        split: if_splits elim!: bindR_InrE)
  with assms(2) show ?thesis by (auto simp: service_ok_def intro!: exI [of _ "clients s"])
qed

lemma udp_handler_ok:
  assumes "udp_handler os s d = Inr (s', ev)" and "service_ok s"
  shows "service_ok s'"
proof -
  obtain p where "udp_dispatch os s p = Inr (s', ev)"
    using assms(1) by (auto simp only: udp_handler_def elim!: bindR_InrE)
  from udp_dispatch_clients [OF this assms(2)] show ?thesis by (auto simp: service_ok_def)
qed

definition wait_page :: string where
  "wait_page = HTTP_200_RESPONSE @ CRLF @ HTML_200_MESSAGE"

lemma tcp_handler_unfold:
  "tcp_handler s a r shut =
     (if r = RecvBytes [] then Inr (s, [])
      else bindR (query_string r) (\<lambda>query.
           bindR (parse_request (formatted_time s) query) (\<lambda>req.
           case req of
             None \<Rightarrow> Inr (s, [])
           | Some (dest, t) \<Rightarrow>
               bindR (checkR (0 \<le> shut) (Exit 1)) (\<lambda>_.
               bindR (register_query dest t (new_connection a) (clients s)) (\<lambda>cs.
               bindR (query_text s dest t) (\<lambda>_.
               Inr (s\<lparr>clients := cs\<rparr>, [TcpSend (new_connection a) wait_page])))))))"
  unfolding tcp_handler_def Let_def wait_page_def ..

lemma bindR_register:
  assumes "bindR (checkR b e) (\<lambda>_. bindR A (\<lambda>cs. bindR B (\<lambda>_. Inr (f cs, g)))) = Inr (x, y)"
  shows "\<exists>cs. A = Inr cs \<and> x = f cs \<and> y = g"
  using assms by (cases b; cases A; cases B) auto

text \<open>What a request does: nothing, or it is parsed, registered and answered with the waiting page.\<close>

lemma tcp_handler_parsed:
  assumes "tcp_handler s a r shut = Inr (s', ev)"
  shows "(s' = s \<and> ev = []) \<or> (\<exists>q d t cs.
     query_string r = Inr q \<and> parse_request (formatted_time s) q = Inr (Some (d, t)) \<and>
     register_query d t (new_connection a) (clients s) = Inr cs \<and> s' = s\<lparr>clients := cs\<rparr> \<and>
     ev = [TcpSend (new_connection a) wait_page])"
proof (cases "r = RecvBytes []")
  case True
  with assms show ?thesis by (simp add: tcp_handler_unfold)
next
  case False
  with assms obtain q req where q: "query_string r = Inr q" "parse_request (formatted_time s) q = Inr req"
    and req: "(case req of None \<Rightarrow> Inr (s, [])
       | Some (dest, t) \<Rightarrow>
           bindR (checkR (0 \<le> shut) (Exit 1)) (\<lambda>_.
           bindR (register_query dest t (new_connection a) (clients s)) (\<lambda>cs.
           bindR (query_text s dest t) (\<lambda>_.
           Inr (s\<lparr>clients := cs\<rparr>, [TcpSend (new_connection a) wait_page]))))) = Inr (s', ev)"
    unfolding tcp_handler_unfold by (simp only: if_False) (elim bindR_InrE, blast)
  show ?thesis
  proof (cases req)
    case None
    with req show ?thesis by simp
  next
    case (Some dt)
    obtain d t where dt: "dt = (d, t)" by (cases dt)
    from bindR_register [OF req [unfolded Some dt option.case prod.case]] q Some dt show ?thesis by blast
  qed
qed

lemma tcp_handler_Inr:
  assumes "tcp_handler s a r shut = Inr (s', ev)"
  shows "(s' = s \<and> ev = []) \<or> (\<exists>d t cs.
     register_query d t (new_connection a) (clients s) = Inr cs \<and> s' = s\<lparr>clients := cs\<rparr> \<and>
     ev = [TcpSend (new_connection a) wait_page])"
  using tcp_handler_parsed [OF assms] by blast

lemma tcp_handler_ok:
  assumes "tcp_handler s a r shut = Inr (s', ev)" and "service_ok s"
  shows "service_ok s'"
  using tcp_handler_Inr [OF assms(1)]
proof (elim disjE exE conjE)
  fix d t cs
  assume "register_query d t (new_connection a) (clients s) = Inr cs" and s': "s' = s\<lparr>clients := cs\<rparr>"
  with register_query_ok [of "clients s"] assms(2) show ?thesis by (simp add: service_ok_def)
qed (use assms(2) in simp)

lemma timeout_walk_end: "length (head_client (clients s)) \<le> i \<Longrightarrow> timeout_walk os is_open s i = Inr (s, [])"
  by (subst timeout_walk.simps) simp

lemma timeout_walk_open:
  assumes "i < length (head_client (clients s))" and "is_open (fd (head_client (clients s) ! i))"
  shows "timeout_walk os is_open s i =
    bindR (if q_answers (c_query (head_client (clients s) ! i)) = []
           then resend os s (c_query (head_client (clients s) ! i)) else Inr [])
      (\<lambda>ev. bindR (timeout_walk os is_open s (i + 1)) (\<lambda>(s', ev'). Inr (s', ev @ ev')))"
  using assms by (subst timeout_walk.simps) (simp add: Let_def)

lemma timeout_walk_closed:
  assumes "i < length (head_client (clients s))" and "\<not> is_open (fd (head_client (clients s) ! i))"
  shows "timeout_walk os is_open s i =
    (let f = fd (head_client (clients s) ! i) in
     if first_with_fd f (head_client (clients s)) = i then Inl UseAfterFree
     else bindR (timeout_walk os is_open (s\<lparr>clients := remove_client f (clients s)\<rparr>) i)
            (\<lambda>(s', ev'). Inr (s', TcpClose f # ev')))"
  using assms by (subst timeout_walk.simps) (simp add: Let_def)

lemma first_with_fd_nth:
  assumes "distinct (map fd ns)" and "i < length ns"
  shows "first_with_fd (fd (ns ! i)) ns = i"
  using assms
proof (induction ns arbitrary: i)
  case (Cons n ns)
  then show ?case by (cases i) (auto simp: first_with_fd_def)
qed simp

text \<open>With distinct descriptors the walk never gets past a closed one, so it returns the same state.\<close>

lemma timeout_walk_same:
  assumes "clients_ok (clients s)"
  shows "timeout_walk os is_open s i = Inr (s', ev) \<Longrightarrow> s' = s"
proof (induction "length (head_client (clients s)) - i" arbitrary: i ev)
  case 0
  then show ?case by (simp add: timeout_walk_end)
next
  case (Suc k)
  then have i: "i < length (head_client (clients s))" by simp
  have d: "first_with_fd (fd (head_client (clients s) ! i)) (head_client (clients s)) = i"
    using assms i by (intro first_with_fd_nth) (simp_all add: clients_ok_def)
  show ?case
  proof (cases "is_open (fd (head_client (clients s) ! i))")
    case True
    from Suc.prems obtain ev' where "timeout_walk os is_open s (i + 1) = Inr (s', ev')"
      unfolding timeout_walk_open [of i s is_open, OF i True] by (auto elim!: bindR_InrE)
    with Suc.hyps(2) i show ?thesis by (intro Suc.hyps(1) [of "i + 1" ev']) auto
  next
    case False
    with Suc.prems d show ?thesis by (simp add: timeout_walk_closed [OF i] Let_def)
  qed
qed

lemma loop_step_ok:
  assumes "loop_step os stat file sel s = Inr (s', ev)" and "service_ok s"
  shows "service_ok s'"
proof -
  obtain st tt where step: "(case sel of
       SelectError \<Rightarrow> Inl (Exit 1)
     | Timeout is_open \<Rightarrow> timeout_walk os is_open (s\<lparr>g_station := st, g_timetable := tt\<rparr>) 0
     | Ready u t \<Rightarrow>
         bindR (serve_udp os (s\<lparr>g_station := st, g_timetable := tt\<rparr>) u) (\<lambda>(s, ev).
         bindR (serve_tcp s t) (\<lambda>(s, ev'). Inr (s, ev @ ev')))) = Inr (s', ev)"
    using assms(1) by (auto simp: loop_step_def Let_def elim!: bindR_InrE)
  have ok: "service_ok (s\<lparr>g_station := st, g_timetable := tt\<rparr>)"
    using assms(2) by (simp add: service_ok_def)
  have udp: "service_ok s2" if "serve_udp os s1 u = Inr (s2, ev2)" "service_ok s1" for s1 u s2 ev2
    using that udp_handler_ok by (auto simp: serve_udp_def split: udp_input.splits)
  have tcp: "service_ok s2" if "serve_tcp s1 t = Inr (s2, ev2)" "service_ok s1" for s1 t s2 ev2
    using that tcp_handler_ok by (auto simp: serve_tcp_def split: tcp_input.splits)
  show ?thesis
  proof (cases sel)
    case SelectError
    with step show ?thesis by simp
  next
    case (Timeout is_open)
    with step have "s' = s\<lparr>g_station := st, g_timetable := tt\<rparr>"
      using ok by (intro timeout_walk_same [of _ os is_open 0 s' ev]) (simp_all add: service_ok_def)
    with ok show ?thesis by simp
  next
    case (Ready u t)
    with step obtain s1 ev1 ev2 where "serve_udp os (s\<lparr>g_station := st, g_timetable := tt\<rparr>) u = Inr (s1, ev1)"
      "serve_tcp s1 t = Inr (s', ev2)"
      by (auto elim!: bindR_InrE)
    with udp tcp ok show ?thesis by blast
  qed
qed

section \<open>Reachable states\<close>

inductive reachable :: "os \<Rightarrow> server \<Rightarrow> bool" where
  start: "station_init argv file stat now ip = Inr s \<Longrightarrow> reachable os s"
| step: "reachable os s \<Longrightarrow> loop_step os stat file sel s = Inr (s', ev) \<Longrightarrow> reachable os s'"

lemma station_init_ok: "station_init argv file stat now ip = Inr s \<Longrightarrow> service_ok s"
  using init_clients_ok
  by (auto simp: station_init_def service_ok_def elim!: bindR_InrE)

lemma reachable_ok: "reachable os s \<Longrightarrow> service_ok s"
  by (induction rule: reachable.induct) (auto simp: station_init_ok loop_step_ok)

section \<open>Requests\<close>

lemma sscanf_lits_end: "sscanf (lits l) r = Inr []"
  by (induction l arbitrary: r) (auto simp: lits_def split: list.splits)

lemma lits_append: "lits (a @ b) = lits a @ lits b"
  by (simp add: lits_def)

lemma sscanf_lits: "list_all (\<lambda>c. \<not> isspace c) l \<Longrightarrow> sscanf (lits l @ fs) (l @ r) = sscanf fs r"
  by (induction l) (auto simp: lits_def)

definition get_to :: string where "get_to = ''GET /?to=''"

lemma sscanf_get_to: "sscanf (lits get_to @ fs) (get_to @ r) = sscanf fs r"
  by (simp add: lits_def get_to_def isspace_def)

definition and_time :: string where "and_time = ''&time=''"

lemma and_time_simps: "list_all (\<lambda>c. \<not> isspace c) and_time" "and_time = CHR ''&'' # tl and_time"
  by (simp_all add: and_time_def isspace_def)

text \<open>The request line \<open>GET /?to=dest&time=tm\<close> with whatever follows.\<close>

definition request :: "string \<Rightarrow> string \<Rightarrow> string" where
  "request dest tm = get_to @ dest @ and_time @ tm"

lemma fmt_get_time_split:
  "fmt_get_time = lits get_to @ [Scanset None not_amp] @ lits and_time @
     [Scanset (Some 5) not_newline] @ lits ('' HTTP/1.1'' @ [newline])"
  by (simp add: fmt_get_time_def get_to_def and_time_def)

lemma sscanf_request:
  assumes "dest \<noteq> []" and "CHR ''&'' \<notin> set dest" and "length tm = 5" and "newline \<notin> set tm"
  shows "sscanf fmt_get_time (request dest (tm @ rest)) = Inr [SStr dest, SStr tm]"
proof -
  have d: "takeWhile not_amp (dest @ and_time @ r) = dest" for r
    using assms(2) and_time_simps(2)
    by (metis append_Cons takeWhile_stop not_amp_def)
  have t: "take 5 (takeWhile not_newline (tm @ rest)) = tm"
    using assms(3,4) by (simp add: not_newline_def takeWhile_append)
  have "tm \<noteq> []" using assms(3) by auto
  with assms(1) d t show ?thesis
    unfolding fmt_get_time_split request_def sscanf_get_to
    by (simp add: take_width_def sscanf_lits [OF and_time_simps(1)] sscanf_lits_end Let_def)
qed

definition two_digits :: "string \<Rightarrow> bool" where
  "two_digits t \<longleftrightarrow> length t = 2 \<and> list_all isdigit t"

lemma two_digits_split: "two_digits t \<Longrightarrow> \<not> isdigit c \<Longrightarrow> take 2 (takeWhile isdigit (t @ c # r)) = t"
  by (simp add: two_digits_def takeWhile_stop list_all_iff)

lemma request_time_ok:
  assumes "two_digits hh" and "two_digits mm"
  shows "request_time (hh @ ''-'' @ mm) = Inr (hh @ '':'' @ mm)"
proof -
  have tw: "takeWhile isdigit mm = mm" using assms(2) by (simp add: two_digits_def list_all_iff)
  have "hh \<noteq> []" "mm \<noteq> []" using assms by (auto simp: two_digits_def)
  moreover have "\<not> isdigit CHR ''-''" by (simp add: isdigit_iff)
  ultimately have "sscanf fmt_clock (hh @ ''-'' @ mm) = Inr [SStr hh, SStr mm]"
    using two_digits_split [OF assms(1), of "CHR ''-''" mm] assms
    by (simp add: fmt_clock_def take_width_def two_digits_def tw Let_def)
  then show ?thesis using assms by (simp add: request_time_def fit_def two_digits_def)
qed

lemma request_time_bad:
  assumes "two_digits hh" and "c \<noteq> CHR ''-''"
  shows "request_time (hh @ c # r) = Inl Uninit"
proof -
  have "take 2 (takeWhile isdigit (hh @ c # r)) = hh"
    using assms(1) by (simp add: two_digits_def list_all_iff takeWhile_append2)
  moreover have "hh \<noteq> []" using assms by (auto simp: two_digits_def)
  ultimately have "sscanf fmt_clock (hh @ c # r) = Inr [SStr hh]"
    using assms by (simp add: fmt_clock_def take_width_def two_digits_def)
  then show ?thesis by (simp add: request_time_def)
qed

lemma parse_request_step:
  assumes "dest \<noteq> []" and "CHR ''&'' \<notin> set dest" and "length dest < 61"
    and "length tm = 5" and "newline \<notin> set tm"
  shows "parse_request now (request dest (tm @ rest)) = bindR (request_time tm) (\<lambda>t. Inr (Some (dest, t)))"
proof -
  have "store 61 [SStr dest, SStr tm] 0 (\<lambda>x d. x) [] = Inr dest"
    "store 10 [SStr dest, SStr tm] 1 (\<lambda>x d. x) [] = Inr tm"
    using assms(3,4) by (simp_all add: store_def fit_def)
  then show ?thesis
    unfolding parse_request_def sscanf_request [OF assms(1,2,4,5)] by simp
qed

lemma newline_no_digit: "\<not> isdigit newline" "newline \<noteq> CHR ''-''"
  by (simp_all add: isdigit_iff newline_def)

lemma two_digits_newline: "two_digits t \<Longrightarrow> newline \<notin> set t"
  using newline_no_digit(1) by (auto simp: two_digits_def list_all_iff)

section \<open>The timeout\<close>

text \<open>The query the station sends itself: no hop yet.\<close>

definition ask_msg :: "server \<Rightarrow> query \<Rightarrow> msg" where
  "ask_msg s q = \<lparr>m_found = 0, m_current = 0, m_stations = [], m_address = [], m_routes = [],
     m_time = [], m_destination = q_destination q, m_source = my_name s,
     m_start_time = q_start_time q\<rparr>"

definition ask_fits :: "server \<Rightarrow> query \<Rightarrow> bool" where
  "ask_fits s q \<longleftrightarrow> length (q_destination q) < MAX_NAME_LENGTH \<and>
     length (my_name s) < MAX_NAME_LENGTH \<and> length (q_start_time q) < MAX_TIMESTRING"

lemma dec_zero: "dec 0 = ''0''"
  by code_simp

lemma query_text_ask: "ask_fits s q \<Longrightarrow> query_text s (q_destination q) (q_start_time q) = Inr (wire (ask_msg s q))"
  by (simp add: query_text_def ask_fits_def wire_def ask_msg_def m_hops_def dec_zero fit_def
      query_alloc_def spaced_Cons)

lemma resend_ask:
  "ask_fits s q \<Longrightarrow> benign os \<Longrightarrow>
   resend os s q = Inr [UdpSend (local_ip s) (UDP_port s) (wire (ask_msg s q))]"
  by (simp add: resend_def query_text_ask benign_talk)

definition ask_event :: "server \<Rightarrow> client_node \<Rightarrow> event" where
  "ask_event s n = UdpSend (local_ip s) (UDP_port s) (wire (ask_msg s (c_query n)))"

lemma timeout_walk_asks:
  assumes "unanswered (clients s)" and "benign os"
    and "\<And>n. n \<in> set (head_client (clients s)) \<Longrightarrow> ask_fits s (c_query n) \<and> is_open (fd n)"
  shows "timeout_walk os is_open s i = Inr (s, map (ask_event s) (drop i (head_client (clients s))))"
proof (induction "length (head_client (clients s)) - i" arbitrary: i)
  case 0
  then show ?case by (simp add: timeout_walk_end)
next
  case (Suc k)
  let ?ns = "head_client (clients s)"
  have i: "i < length ?ns" using Suc.hyps(2) by simp
  have n: "ask_fits s (c_query (?ns ! i))" "is_open (fd (?ns ! i))" "q_answers (c_query (?ns ! i)) = []"
    using assms i by (auto simp: unanswered_def)
  have "timeout_walk os is_open s (i + 1) = Inr (s, map (ask_event s) (drop (i + 1) ?ns))"
    using Suc.hyps(2) by (intro Suc.hyps(1)) simp
  then show ?case
    unfolding timeout_walk_open [of i s is_open, OF i n(2)] resend_ask [OF n(1) assms(2)]
    using n(3) by (simp add: Cons_nth_drop_Suc [OF i, symmetric] ask_event_def)
qed

lemma timeout_walk_crash:
  assumes "clients_ok (clients s)" and "unanswered (clients s)" and "benign os"
    and "\<And>n. n \<in> set (head_client (clients s)) \<Longrightarrow> ask_fits s (c_query n)"
    and "j < length (head_client (clients s))" and "\<not> is_open (fd (head_client (clients s) ! j))"
  shows "i \<le> j \<Longrightarrow> timeout_walk os is_open s i = Inl UseAfterFree"
proof (induction "j - i" arbitrary: i)
  case 0
  with assms(5,6) have i: "i < length (head_client (clients s))" "\<not> is_open (fd (head_client (clients s) ! i))"
    by simp_all
  have "first_with_fd (fd (head_client (clients s) ! i)) (head_client (clients s)) = i"
    using assms(1) i(1) by (intro first_with_fd_nth) (simp_all add: clients_ok_def)
  then show ?case by (simp add: timeout_walk_closed [of i s is_open, OF i] Let_def)
next
  case (Suc k)
  let ?ns = "head_client (clients s)"
  have i: "i < length ?ns" using Suc assms(5) by simp
  show ?case
  proof (cases "is_open (fd (?ns ! i))")
    case True
    have "ask_fits s (c_query (?ns ! i))" "q_answers (c_query (?ns ! i)) = []"
      using assms i by (auto simp: unanswered_def)
    moreover have "timeout_walk os is_open s (i + 1) = Inl UseAfterFree"
      using Suc by (intro Suc.hyps(1)) simp_all
    ultimately show ?thesis
      unfolding timeout_walk_open [of i s is_open, OF i True] by (simp add: resend_ask [OF _ assms(3)])
  next
    case False
    have "first_with_fd (fd (?ns ! i)) ?ns = i"
      using assms(1) i by (intro first_with_fd_nth) (simp_all add: clients_ok_def)
    then show ?thesis by (simp add: timeout_walk_closed [of i s is_open, OF i False] Let_def)
  qed
qed

section \<open>Registration\<close>

text \<open>A query as a browser registers it.\<close>

definition asked :: "string \<Rightarrow> string \<Rightarrow> query" where
  "asked d t = new_query\<lparr>q_start_time := t, q_destination := d\<rparr>"

lemma ring_has_add: "ring_ok cs \<Longrightarrow> ring_has (add_query q cs) (query_key q)"
  using ring.survives [of cs "[]" q] by simp

lemma ring_has_other [simp]:
  "ring_has (add_client f q cs) k = ring_has cs k" "ring_has (remove_client f cs) k = ring_has cs k"
  by (simp_all add: ring_has_iff add_client_def remove_client_def)

lemma waiting_add:
  "same_query q q' \<Longrightarrow> f \<in> set (waiting (add_client f q cs) q')"
  by (simp add: waiting_def add_client_def)

lemma fds_of_add_query [simp]: "fds_of (add_query q cs) = fds_of cs"
  by (simp add: fds_of_def add_query_def)

lemma clients_ring_ok: "clients_ok cs \<Longrightarrow> ring_ok cs"
  by (simp add: clients_ok_def ring_ok_def)

lemma search_query_Some:
  assumes "search_query d t cs = Some qs"
  shows "qs \<noteq> []" and "hd qs \<in> set (queries cs)" and "q_destination (hd qs) = d"
    and "q_start_time (hd qs) = t"
proof -
  from assms have qs: "qs = filter (\<lambda>q. q_destination q = d \<and> q_start_time q = t) (queries cs)" "qs \<noteq> []"
    by (auto simp: search_query_def Let_def split: if_splits)
  then have "hd qs \<in> set (filter (\<lambda>q. q_destination q = d \<and> q_start_time q = t) (queries cs))"
    using list.set_sel(1) by metis
  with qs(2) show "qs \<noteq> []" "hd qs \<in> set (queries cs)" "q_destination (hd qs) = d" "q_start_time (hd qs) = t"
    by auto
qed

lemma register_query_spec:
  assumes "clients_ok cs" and "length d < MAX_NAME_LENGTH" and "length t < MAX_TIMESTRING"
  shows "\<exists>cs'. register_query d t f cs = Inr cs' \<and> f \<in> set (waiting cs' (asked d t)) \<and>
    ring_has cs' (d, t) \<and> fds_of cs' = f # remove1 f (fds_of cs)"
proof (cases "search_query d t cs")
  case None
  let ?q = "asked d t"
  have "register_query d t f cs = Inr (add_client f ?q (remove_client f (add_query ?q cs)))"
    using None assms(2,3) by (simp add: register_query_def fit_def asked_def Let_def)
  moreover have "query_key ?q = (d, t)" by (simp add: query_key_def asked_def)
  then have "ring_has (add_query ?q cs) (d, t)"
    using ring_has_add [OF clients_ring_ok [OF assms(1)], of ?q] by simp
  ultimately show ?thesis
    by (simp add: waiting_add same_query_def conns.fds_add conns.fds_remove)
next
  case (Some qs)
  then have q: "same_query (hd qs) (asked d t)"
    using search_query_Some [OF Some] by (simp add: same_query_def asked_def)
  have "ring_has cs (d, t)" using Some by (simp add: ring_has_def)
  with Some q show ?thesis
    by (simp add: register_query_def waiting_add conns.fds_add conns.fds_remove)
qed

lemma asked_iff: "q = asked d t \<longleftrightarrow> q_destination q = d \<and> q_start_time q = t \<and> q_answers q = []"
  by (cases q) (auto simp: asked_def new_query_def)

lemma register_query_head:
  assumes "unanswered cs" and "register_query d t f cs = Inr cs'"
  shows "\<lparr>fd = f, c_query = asked d t\<rparr> \<in> set (head_client cs') \<and>
    set (head_client cs') \<subseteq> insert \<lparr>fd = f, c_query = asked d t\<rparr> (set (head_client cs))"
proof -
  have q: "hd qs = asked d t" if "search_query d t cs = Some qs" for qs
    using assms(1) search_query_Some [OF that] by (simp add: asked_iff unanswered_def)
  have "cs' = add_client f (asked d t) (remove_client f (add_query (asked d t) cs)) \<or>
      cs' = add_client f (asked d t) (remove_client f cs)"
    using assms(2) q by (auto simp: register_query_def fit_Inr_iff Let_def asked_def split: option.splits elim!: bindR_InrE)
  moreover have "set (unlink f ns) \<subseteq> set ns" for ns by (induction f ns rule: unlink.induct) auto
  note this [of "head_client cs"]
  ultimately show ?thesis by (auto simp: add_client_def remove_client_def add_query_def)
qed

section \<open>A well-formed request\<close>

lemma scan_short:
  assumes "length ds \<le> 2"
  shows "scan_digits ds < 1000"
proof -
  have v: "digit_val c \<le> 10" for c
    using length_takeWhile_le [of "\<lambda>d. d \<noteq> c" digit_chars] by (simp add: digit_val.simps digit_chars_def)
  consider "ds = []" | a where "ds = [a]" | a b where "ds = [a, b]"
    using assms by (cases ds; cases "tl ds"; cases "tl (tl ds)") auto
  then show ?thesis
  proof cases
    case (2 a)
    with v [of a] show ?thesis by (simp add: scan_digits_def)
  next
    case (3 a b)
    with v [of a] v [of b] show ?thesis by (simp add: scan_digits_def)
  qed (simp add: scan_digits_def)
qed

text \<open>One or two digits, as the clock of a request may have.\<close>

definition some_digits :: "string \<Rightarrow> bool" where
  "some_digits t \<longleftrightarrow> t \<noteq> [] \<and> length t \<le> 2 \<and> list_all isdigit t"

lemma two_some_digits: "two_digits t \<Longrightarrow> some_digits t"
  by (auto simp: two_digits_def some_digits_def)

lemma digits_time:
  assumes "some_digits hh" and "some_digits mm"
  shows "is_time (hh @ '':'' @ mm)"
proof -
  have h: "scan_int (hh @ CHR '':'' # mm) = Some (int (scan_digits hh), CHR '':'' # mm)"
  proof (rule scan_int_digits)
    show "CHR '':'' # mm = [] \<or> \<not> isdigit (hd (CHR '':'' # mm))" by (simp add: isdigit_iff)
  qed (use assms(1) in \<open>auto simp: some_digits_def list_all_iff\<close>)
  have m: "scan_int mm = Some (int (scan_digits mm), [])"
    using scan_int_digits [of mm "[]"] assms(2) by (simp add: some_digits_def list_all_iff)
  have "scan_digits hh < 1000" "scan_digits mm < 1000"
    using scan_short assms by (simp_all add: some_digits_def)
  then show ?thesis
    by (simp add: is_time_def timeToMinutes_def h m c_int_ok in_int_def)
qed

lemma two_digits_time: "two_digits hh \<Longrightarrow> two_digits mm \<Longrightarrow> is_time (hh @ '':'' @ mm)"
  by (rule digits_time [OF two_some_digits two_some_digits])

lemma tcp_step:
  assumes "dest \<noteq> []" and "length dest < 61" and "CHR ''&'' \<notin> set dest"
    and "two_digits hh" and "two_digits mm" and "length (my_name s) < 61" and "0 \<le> shut"
    and "NUL \<notin> set (request dest (hh @ ''-'' @ mm @ rest))"
    and "length (request dest (hh @ ''-'' @ mm @ rest)) < MAXDATASIZE"
    and "register_query dest (hh @ '':'' @ mm) f (clients s) = Inr cs"
  shows "tcp_handler s f (RecvBytes (request dest (hh @ ''-'' @ mm @ rest))) shut =
    Inr (s\<lparr>clients := cs\<rparr>, [TcpSend f (HTTP_200_RESPONSE @ CRLF @ HTML_200_MESSAGE)])"
proof -
  let ?t = "hh @ '':'' @ mm" and ?r = "request dest (hh @ ''-'' @ mm @ rest)"
  have two: "length hh = 2" "length mm = 2" using assms(4,5) by (simp_all add: two_digits_def)
  have "newline \<notin> set (hh @ ''-'' @ mm)"
    using assms(4,5) two_digits_newline newline_no_digit(2) by auto
  then have parse: "parse_request now ?r = Inr (Some (dest, ?t))" for now
    using parse_request_step [of dest "hh @ ''-'' @ mm" now rest] assms(1-3) two
    by (simp add: request_time_ok [OF assms(4,5), simplified])
  have recv: "query_string (RecvBytes ?r) = Inr ?r"
    using assms(8,9) by (simp add: query_string_def cstr_id Let_def del: MAXDATASIZE_def)
  have nonempty: "RecvBytes ?r \<noteq> RecvBytes []" using assms(1) by (simp add: request_def)
  have fd: "new_connection f = f" by (simp add: new_connection_def)
  have "ask_fits s (asked dest ?t)" using assms(2,6) two by (simp add: ask_fits_def asked_def)
  from query_text_ask [OF this] have "query_text s dest ?t = Inr (wire (ask_msg s (asked dest ?t)))"
    by (simp add: asked_def)
  then have "tcp_handler s f (RecvBytes ?r) shut = Inr (s\<lparr>clients := cs\<rparr>, [TcpSend f wait_page])"
    unfolding tcp_handler_unfold if_not_P [OF nonempty] recv bindR_Inr parse option.case prod.case fd assms(10)
    using assms(7) by simp
  then show ?thesis by (simp add: wait_page_def)
qed

section \<open>Properties\<close>

text \<open>In every state the server's loop reaches, whatever the datagrams, browsers, timeouts and
  timetable updates: no descriptor is registered twice, the ring has 100 slots and its index is in
  range, and no stored query, in the ring or with a browser, carries an answer.\<close>

lemma reachable_invariant:
  assumes "reachable os s"
  shows "distinct (fds_of (clients s)) \<and> length (queries (clients s)) = 100 \<and>
    0 \<le> query_index (clients s) \<and> query_index (clients s) < 100 \<and>
    (\<forall>q\<in>set (queries (clients s)). q_answers q = []) \<and>
    (\<forall>n\<in>set (head_client (clients s)). q_answers (c_query n) = [])"
  using reachable_ok [OF assms]
  by (auto simp: service_ok_def clients_ok_def unanswered_def distinct_fds)

definition demo_argv :: "string list" where
  "demo_argv = [''./station-server'', ''JunctionC'', ''4003'', ''4004'', ''10.0.0.1:4002'', ''10.0.0.1:4006'']"

definition demo_file :: string where
  "demo_file = ''# station'' @ newline # ''JunctionC,116.0400,-31.6400'' @ newline # ''# rows'' @
     newline # ''06:02,busC_R,stopC,06:13,TerminalR'' @ [newline]"

lemma demo_reachable: "\<exists>s. station_init demo_argv (Some demo_file) (Some 5) ''09:00'' ''10.0.0.1'' = Inr s
    \<and> num_timetables s = 1 \<and> num_neighbours s = 2 \<and> reachable demo_os s"
proof -
  obtain s where s: "station_init demo_argv (Some demo_file) (Some 5) ''09:00'' ''10.0.0.1'' = Inr s"
    "num_timetables s = 1" "num_neighbours s = 2"
  proof -
    have "(case station_init demo_argv (Some demo_file) (Some 5) ''09:00'' ''10.0.0.1'' of
        Inl e \<Rightarrow> False | Inr s \<Rightarrow> num_timetables s = 1 \<and> num_neighbours s = 2)"
      by code_simp
    with that show thesis by (auto split: sum.splits)
  qed
  with reachable.start [OF s(1)] show ?thesis by blast
qed

lemma waiting_same:
  "q_destination q = q_destination q' \<Longrightarrow> q_start_time q = q_start_time q' \<Longrightarrow> waiting cs q = waiting cs q'"
  by (simp add: waiting_def same_query_def)

lemma drop_waiting_same:
  "q_destination q = q_destination q' \<Longrightarrow> q_start_time q = q_start_time q' \<Longrightarrow>
   drop_waiting q cs = drop_waiting q' cs"
  by (simp add: drop_waiting_def same_query_def)

lemma answered:
  assumes "service_ok s" and "wf_msg m" and "length (wire m) < MAXDATASIZE" and "m_found m = 3"
    and "m_source m = my_name s" and "ring_has (clients s) (m_destination m, m_start_time m)"
  shows "udp_handler os s (wire m) = printed m
    (let q = asked (m_destination m) (m_start_time m) in
     Inr (s\<lparr>clients := drop_waiting q (clients s)\<rparr>,
       concat (map (\<lambda>f. [TcpSend f (wire (m\<lparr>m_found := 4\<rparr>)), TcpClose f]) (waiting (clients s) q))))"
proof -
  obtain qs where qs: "search_query (m_destination m) (m_start_time m) (clients s) = Some qs"
    using assms(6) by (auto simp: ring_has_def)
  let ?q = "(hd qs)\<lparr>q_answers := wire (m\<lparr>m_found := 4\<rparr>)\<rparr>"
  have key: "q_destination ?q = q_destination (asked (m_destination m) (m_start_time m))"
    "q_start_time ?q = q_start_time (asked (m_destination m) (m_start_time m))"
    using search_query_Some(3,4) [OF qs] by (simp_all add: asked_def)
  have "q_answers (hd qs) = []"
    using assms(1) search_query_Some(2) [OF qs] by (simp add: service_ok_def unanswered_def)
  moreover have "distinct (fds_of (clients s))" using assms(1) by (simp add: service_ok_def distinct_fds)
  ultimately have "udp_handler os s (wire m) = printed m
    (Inr (s\<lparr>clients := drop_waiting ?q (clients s)\<rparr>, answer_events (clients s) ?q))"
    using answering [OF assms(2-5), of os] qs by (simp add: Let_def)
  then show ?thesis
    using waiting_same [OF key, of "clients s"] drop_waiting_same [OF key, of "clients s"]
    by (simp add: Let_def answer_events_def)
qed

lemma not_answered:
  assumes "service_ok s" and "wf_msg m" and "length (wire m) < MAXDATASIZE" and "m_found m = 3"
    and "m_source m = my_name s" and "\<not> ring_has (clients s) (m_destination m, m_start_time m)"
  shows "udp_handler os s (wire m) = printed m (Inl NullDeref)"
proof -
  have "search_query (m_destination m) (m_start_time m) (clients s) = None" using assms(6) by (simp add: ring_has_def)
  moreover have "distinct (fds_of (clients s))" using assms(1) by (simp add: service_ok_def distinct_fds)
  ultimately show ?thesis using answering [OF assms(2-5), of os] by simp
qed

lemma answers_step:
  assumes "service_ok s" and "wf_msg m" and "length (wire m) < MAXDATASIZE" and "m_found m = 3"
    and "m_source m = my_name s" and "sendable (m\<lparr>m_found := 4\<rparr>)"
    and "ring_has (clients s) (m_destination m, m_start_time m)"
  shows "udp_handler os s (wire m) =
    (let q = asked (m_destination m) (m_start_time m) in
     Inr (s\<lparr>clients := drop_waiting q (clients s)\<rparr>,
       concat (map (\<lambda>f. [TcpSend f (wire (m\<lparr>m_found := 4\<rparr>)), TcpClose f]) (waiting (clients s) q))))"
  using answered [OF assms(1-5,7)] sendable_room [OF assms(6)] assms(4) by (simp add: room_four)

text \<open>C17. The answer, exactly: when a confirmed route is back at its source, and the buffer the answer is
  printed into holds it, and its query is in the ring, every browser that waits for this destination
  and start time is sent the whole message and closed, once each and in the order of the list. All
  other browsers keep waiting, the ring is unchanged (the answer is not stored), and nothing is sent
  to another station. When the query is not in the ring the station dereferences NULL, and when the
  buffer is too small it writes past its end, before it looks for the query; there is no other
  failure. The route that comes back first is the answer: arrival times are not compared.\<close>

theorem udp_answers:
  assumes "service_ok s" and "wf_msg m" and "length (wire m) < MAXDATASIZE" and "m_found m = 3"
    and "m_source m = my_name s"
  shows "udp_handler os s (wire m) =
    (let q = asked (m_destination m) (m_start_time m) in
     if \<not> room m then Inl BufferOverflow
     else if \<not> ring_has (clients s) (m_destination m, m_start_time m) then Inl NullDeref
     else Inr (s\<lparr>clients := drop_waiting q (clients s)\<rparr>,
       concat (map (\<lambda>f. [TcpSend f (wire (m\<lparr>m_found := 4\<rparr>)), TcpClose f]) (waiting (clients s) q))))"
proof (cases "ring_has (clients s) (m_destination m, m_start_time m)")
  case True
  with answered [OF assms True, of os] show ?thesis by (simp add: printed_def Let_def)
next
  case False
  with not_answered [OF assms False, of os] show ?thesis by (simp add: printed_def Let_def)
qed

theorem udp_answers_witness:
  "\<exists>s'. udp_handler demo_os (demo_server\<lparr>clients := demo_clients\<rparr>)
      (wire (demo_route 3 1 ''JunctionC'' ''TerminalR'')) =
    Inr (s', [TcpSend 9 (wire (demo_route 4 1 ''JunctionC'' ''TerminalR'')), TcpClose 9,
              TcpSend 7 (wire (demo_route 4 1 ''JunctionC'' ''TerminalR'')), TcpClose 7])
    \<and> fds_of (clients s') = [8]" (is "\<exists>s'. udp_handler _ ?s (wire ?m) = _ \<and> _")
proof -
  let ?q = "asked ''TerminalR'' ''05:30''"
  have dst: "m_destination ?m = ''TerminalR''" "m_start_time ?m = ''05:30''"
    by (simp_all add: demo_route_def)
  have "udp_handler demo_os ?s (wire ?m) =
    (let q = asked (m_destination ?m) (m_start_time ?m) in
     if \<not> room ?m then Inl BufferOverflow
     else if \<not> ring_has (clients ?s) (m_destination ?m, m_start_time ?m) then Inl NullDeref
     else Inr (?s\<lparr>clients := drop_waiting q (clients ?s)\<rparr>,
       concat (map (\<lambda>f. [TcpSend f (wire (?m\<lparr>m_found := 4\<rparr>)), TcpClose f]) (waiting (clients ?s) q))))"
  proof (rule udp_answers)
    show "service_ok ?s" by code_simp
  qed code_simp+
  moreover have "ring_has (clients ?s) (m_destination ?m, m_start_time ?m)" by code_simp
  moreover have "?m\<lparr>m_found := 4\<rparr> = demo_route 4 1 ''JunctionC'' ''TerminalR''" by code_simp
  moreover have "room ?m" by code_simp
  moreover have "waiting (clients ?s) ?q = [9, 7]" by code_simp
  moreover have "fds_of (drop_waiting ?q (clients ?s)) = [8]" by code_simp
  ultimately show ?thesis by (simp add: Let_def dst)
qed

text \<open>C27. A browser that asks \<open>GET /?to=dest&time=hh-mm\<close> is told to wait and registered: afterwards it
  is the newest of the browsers that wait for that destination and time, no longer registered for
  anything else, everyone else is unaffected, and the ring knows the query.\<close>

theorem tcp_registers:
  assumes "service_ok s" and "dest \<noteq> []" and "length dest < 61" and "CHR ''&'' \<notin> set dest"
    and "two_digits hh" and "two_digits mm" and "length (my_name s) < 61" and "0 \<le> shut"
    and "NUL \<notin> set (request dest (hh @ ''-'' @ mm @ rest))"
    and "length (request dest (hh @ ''-'' @ mm @ rest)) < MAXDATASIZE"
  shows "\<exists>cs. tcp_handler s f (RecvBytes (request dest (hh @ ''-'' @ mm @ rest))) shut =
      Inr (s\<lparr>clients := cs\<rparr>, [TcpSend f (HTTP_200_RESPONSE @ CRLF @ HTML_200_MESSAGE)]) \<and>
    f \<in> set (waiting cs (asked dest (hh @ '':'' @ mm))) \<and> ring_has cs (dest, hh @ '':'' @ mm) \<and>
    fds_of cs = f # remove1 f (fds_of (clients s))"
proof -
  have "length hh = 2" "length mm = 2" using assms(5,6) by (simp_all add: two_digits_def)
  then obtain cs where "register_query dest (hh @ '':'' @ mm) f (clients s) = Inr cs"
    "f \<in> set (waiting cs (asked dest (hh @ '':'' @ mm)))" "ring_has cs (dest, hh @ '':'' @ mm)"
    "fds_of cs = f # remove1 f (fds_of (clients s))"
    using register_query_spec [of "clients s" dest "hh @ '':'' @ mm" f] assms(1,3) by (auto simp: service_ok_def)
  with tcp_step [OF assms(2-10)] show ?thesis by blast
qed

theorem tcp_registers_witness:
  "\<exists>cs. tcp_handler (demo_server\<lparr>clients := demo_clients\<rparr>) 11
      (RecvBytes (request ''BusportC'' (''08'' @ ''-'' @ ''39'' @ '' HTTP/1.1''))) 0 =
      Inr (demo_server\<lparr>clients := cs\<rparr>, [TcpSend 11 (HTTP_200_RESPONSE @ CRLF @ HTML_200_MESSAGE)]) \<and>
    11 \<in> set (waiting cs (asked ''BusportC'' (''08'' @ '':'' @ ''39''))) \<and>
    ring_has cs (''BusportC'', ''08'' @ '':'' @ ''39'') \<and> fds_of cs = 11 # [9, 8, 7]"
proof -
  let ?s = "demo_server\<lparr>clients := demo_clients\<rparr>"
  have "\<exists>cs. tcp_handler ?s 11 (RecvBytes (request ''BusportC'' (''08'' @ ''-'' @ ''39'' @ '' HTTP/1.1''))) 0 =
      Inr (?s\<lparr>clients := cs\<rparr>, [TcpSend 11 (HTTP_200_RESPONSE @ CRLF @ HTML_200_MESSAGE)]) \<and>
    11 \<in> set (waiting cs (asked ''BusportC'' (''08'' @ '':'' @ ''39''))) \<and>
    ring_has cs (''BusportC'', ''08'' @ '':'' @ ''39'') \<and>
    fds_of cs = 11 # remove1 11 (fds_of (clients ?s))"
    by (rule tcp_registers) code_simp+
  moreover have "remove1 11 (fds_of (clients ?s)) = [9, 8, 7]" by code_simp
  ultimately show ?thesis by simp
qed

text \<open>No browser request ever makes the station send a datagram: whatever arrives, the only thing
  the handler sends is the waiting page to that browser. A query is first flooded by the timeout.\<close>

lemma tcp_sends_no_datagram:
  assumes "tcp_handler s f r shut = Inr (s', ev)"
  shows "UdpSend host port text \<notin> set ev"
  using tcp_handler_Inr [OF assms] by auto

text \<open>A time that is not \<open>hh-mm\<close>, such as the percent-encoded \<open>08%3A39\<close> the comment mentions, is
  not replaced by the current time: \<open>minutes\<close> is printed without having been assigned.\<close>

lemma parse_request_bad_time:
  assumes "dest \<noteq> []" and "length dest < 61" and "CHR ''&'' \<notin> set dest"
    and "two_digits hh" and "c \<noteq> CHR ''-''" and "length t = 2" and "newline \<notin> set (c # t)"
  shows "parse_request now (request dest (hh @ c # t @ rest)) = Inl Uninit"
proof -
  have "newline \<notin> set (hh @ c # t)" using assms(4,7) two_digits_newline by auto
  then show ?thesis
    using parse_request_step [of dest "hh @ c # t" now rest] assms
    by (simp add: request_time_bad two_digits_def)
qed

text \<open>C38. A request without a time is not parsed as intended: the destination runs to the end of the
  request, so unless the whole remainder (with the protocol and the headers) is below 61
  characters it is written past the end of \<open>destination\<close>.\<close>

theorem parse_request_no_time:
  assumes "r \<noteq> []" and "CHR ''&'' \<notin> set r" and "length now < MAX_TIMESTRING"
  shows "parse_request now (''GET /?to='' @ r) =
    (if length r < 61 then Inr (Some (r, now)) else Inl BufferOverflow)"
proof -
  have t: "takeWhile not_amp r = r" using assms(2) by (auto simp: not_amp_def takeWhile_all)
  have get: "sscanf (lits get_to @ [Scanset None not_amp] @ lits l @ fs) (get_to @ r) =
      bindR (sscanf (lits l @ fs) []) (\<lambda>vs. Inr (SStr r # vs))" for l fs
    unfolding sscanf_get_to using assms(1) by (simp add: t take_width_def Let_def)
  have amp: "sscanf (lits and_time @ fs) [] = Inr []" for fs
    by (simp add: and_time_def lits_def isspace_def)
  have r1: "sscanf fmt_get_time (get_to @ r) = Inr [SStr r]"
    unfolding fmt_get_time_split using get [of and_time] amp by simp
  have "fmt_get = lits get_to @ [Scanset None not_amp] @ lits ('' HTTP/1.1'' @ [newline]) @ []"
    by (simp add: fmt_get_def get_to_def)
  then have r2: "sscanf fmt_get (get_to @ r) = Inr [SStr r]"
    using get [of "'' HTTP/1.1'' @ [newline]" "[]"] sscanf_lits_end by simp
  have st: "store 61 [SStr r] 0 (\<lambda>x d. x) d0 = (if length r < 61 then Inr r else Inl BufferOverflow)"
    "store 10 [SStr r] 1 (\<lambda>x d. x) d0 = Inr d0" for d0
    by (simp_all add: store_def fit_def)
  have "parse_request now (get_to @ r) = (if length r < 61 then Inr (Some (r, now)) else Inl BufferOverflow)"
    unfolding parse_request_def r1 r2 bindR_Inr st using assms(3) by (simp add: fit_def)
  then show ?thesis by (simp add: get_to_def)
qed

theorem parse_request_no_time_witness:
  "parse_request ''09:00'' ''GET /?to=BusportC HTTP/1.1'' = Inr (Some (''BusportC HTTP/1.1'', ''09:00''))"
  using parse_request_no_time [of "''BusportC HTTP/1.1''" "''09:00''"] by simp

text \<open>The timeout: when every connection is still open, one query per waiting browser is sent to
  the station's own datagram port, in the order of the list: a message with no hops, from this
  station to the browser's destination, that \<open>load_payload\<close> accepts. The state does not change.\<close>

lemma timeout_asks:
  assumes "service_ok s" and "benign os" and "\<forall>n\<in>set (head_client (clients s)). is_open (fd n)"
    and "\<forall>n\<in>set (head_client (clients s)). ask_fits s (c_query n)"
  shows "timeout_walk os is_open s 0 = Inr (s, map (\<lambda>n. UdpSend (local_ip s) (UDP_port s)
      (''0 0 0 '' @ q_destination (c_query n) @ '' '' @ my_name s @ '' '' @ q_start_time (c_query n) @ '';''))
    (head_client (clients s)))"
proof -
  have "timeout_walk os is_open s 0 = Inr (s, map (ask_event s) (head_client (clients s)))"
    using timeout_walk_asks [of s os is_open 0] assms by (simp add: service_ok_def)
  moreover have "wire (ask_msg s q) =
      ''0 0 0 '' @ q_destination q @ '' '' @ my_name s @ '' '' @ q_start_time q @ '';''" for q
    by (simp add: wire_def ask_msg_def m_hops_def dec_zero spaced_Cons)
  ultimately show ?thesis by (simp add: ask_event_def)
qed

text \<open>The timeout's clean-up: as soon as one connection is found closed, the node that is removed
  is the node the walk stands on, and the next step of the walk reads freed memory.\<close>

lemma timeout_use_after_free:
  assumes "service_ok s" and "benign os" and "n \<in> set (head_client (clients s))"
    and "\<not> is_open (fd n)" and "\<forall>n\<in>set (head_client (clients s)). ask_fits s (c_query n)"
  shows "timeout_walk os is_open s 0 = Inl UseAfterFree"
proof -
  obtain j where "j < length (head_client (clients s))" "head_client (clients s) ! j = n"
    using assms(3) by (auto simp: in_set_conv_nth)
  with timeout_walk_crash [of s os j is_open 0] assms show ?thesis by (simp add: service_ok_def)
qed

section \<open>What the loop never updates\<close>

lemma udp_handler_frame:
  assumes "udp_handler os s d = Inr (s', ev)"
  shows "\<exists>cs. s' = s\<lparr>clients := cs\<rparr>"
proof -
  obtain p where p: "udp_dispatch os s p = Inr (s', ev)"
    using assms by (auto simp only: udp_handler_def elim!: bindR_InrE)
  show ?thesis
  proof (cases "found p = 4")
    case True
    with p have "udp_finish s p = Inr (s', ev)" by (simp add: udp_dispatch_def)
    then show ?thesis by (rule udp_finish_Inr) blast
  next
    case False
    with p have "s' = s"
      by (auto simp: udp_dispatch_def udp_return_def udp_fill_def udp_backtrace_def udp_flood_def
          split: if_splits elim!: bindR_InrE)
    then show ?thesis by (intro exI [of _ "clients s"]) simp
  qed
qed

lemma tcp_handler_frame: "tcp_handler s a r shut = Inr (s', ev) \<Longrightarrow> \<exists>cs. s' = s\<lparr>clients := cs\<rparr>"
  by (drule tcp_handler_Inr) (auto intro: exI [of _ "clients s"])

definition fixed_part :: "server \<Rightarrow> int \<times> int \<times> neighbour list \<times> string \<times> string" where
  "fixed_part s = (num_timetables s, latest_time s, g_neighbours s, UDP_port s, local_ip s)"

lemma serve_fixed:
  "serve_udp os s u = Inr (s', ev) \<Longrightarrow> fixed_part s' = fixed_part s"
  "serve_tcp s t = Inr (s', ev) \<Longrightarrow> fixed_part s' = fixed_part s"
  using udp_handler_frame tcp_handler_frame
  by (fastforce simp: serve_udp_def serve_tcp_def fixed_part_def split: udp_input.splits tcp_input.splits)+

lemma reload_Inr:
  assumes "check_update_timetable stat file latest st tt = Inr (st', tt')" and "get_file_mtime stat \<le> latest"
  shows "st' = st \<and> tt' = tt"
  using assms by (simp add: check_update_timetable_def)

text \<open>C39. A newer timetable file is read again in every round of the loop, but the number of rows and
  the time stamp it is compared with are never updated: whatever a round does, the searches keep the
  row count of the start-up, and the file stays "newer".\<close>

theorem loop_keeps_row_count:
  assumes "loop_step os stat file sel s = Inr (s', ev)" and "service_ok s"
  shows "num_timetables s' = num_timetables s \<and> latest_time s' = latest_time s"
proof -
  obtain st tt where step: "(case sel of
       SelectError \<Rightarrow> Inl (Exit 1)
     | Timeout is_open \<Rightarrow> timeout_walk os is_open (s\<lparr>g_station := st, g_timetable := tt\<rparr>) 0
     | Ready u t \<Rightarrow>
         bindR (serve_udp os (s\<lparr>g_station := st, g_timetable := tt\<rparr>) u) (\<lambda>(s, ev).
         bindR (serve_tcp s t) (\<lambda>(s, ev'). Inr (s, ev @ ev')))) = Inr (s', ev)"
    using assms(1) by (auto simp: loop_step_def Let_def elim!: bindR_InrE)
  have fixed: "fixed_part (s\<lparr>g_station := st, g_timetable := tt\<rparr>) = fixed_part s"
    by (simp add: fixed_part_def)
  have "fixed_part s' = fixed_part s"
  proof (cases sel)
    case SelectError
    with step show ?thesis by simp
  next
    case (Timeout is_open)
    with step have "s' = s\<lparr>g_station := st, g_timetable := tt\<rparr>"
      using assms(2) by (intro timeout_walk_same [of _ os is_open 0 s' ev]) (simp_all add: service_ok_def)
    with fixed show ?thesis by simp
  next
    case (Ready u t)
    with step obtain s1 ev1 ev2 where
      "serve_udp os (s\<lparr>g_station := st, g_timetable := tt\<rparr>) u = Inr (s1, ev1)"
      "serve_tcp s1 t = Inr (s', ev2)"
      by (auto elim!: bindR_InrE)
    with serve_fixed fixed show ?thesis by metis
  qed
  then show ?thesis by (simp add: fixed_part_def)
qed

theorem loop_keeps_row_count_witness:
  "\<exists>s' ev. loop_step demo_os (Some 9) (Some demo_file) (Ready NoUdp NoTcp) demo_server = Inr (s', ev) \<and>
     g_timetable s' \<noteq> g_timetable demo_server \<and> num_timetables s' = 4 \<and> latest_time s' = 0"
proof -
  have "case loop_step demo_os (Some 9) (Some demo_file) (Ready NoUdp NoTcp) demo_server of
      Inl e \<Rightarrow> False | Inr (s', ev) \<Rightarrow> map_option length (g_timetable s') = Some 2"
    by code_simp
  then obtain s' ev where s': "loop_step demo_os (Some 9) (Some demo_file) (Ready NoUdp NoTcp) demo_server = Inr (s', ev)"
    "map_option length (g_timetable s') = Some 2" by (auto split: sum.splits)
  have "map_option length (g_timetable demo_server) = Some 4" by code_simp
  with s'(2) have "g_timetable s' \<noteq> g_timetable demo_server" by auto
  moreover have "service_ok demo_server" by code_simp
  from loop_keeps_row_count [OF s'(1) this] have "num_timetables s' = 4 \<and> latest_time s' = 0"
    by (simp add: demo_server_def)
  ultimately show ?thesis using s'(1) by blast
qed

text \<open>C40. Starting up never gets to the loop with defined behaviour. Once the stream socket is set up:
  if the first datagram address or else the second binds, the port is read from the address list
  that \<open>setup_UDP\<close> has freed; if there is no second address to fall back to, through a null pointer;
  and if the second one fails too, \<open>setup_UDP\<close> tries it for ever.\<close>

theorem start_never_clean:
  "open_sockets os s =
     (case setup_TCP os 0 (TCP_port s) of
        Inl e \<Rightarrow> Some (Inl e)
      | Inr _ \<Rightarrow>
         (case sys_getaddrinfo os None (UDP_port s)
             \<lparr>h_family = AF_UNSPEC, h_passive = True, h_socktype = SOCK_DGRAM\<rparr> of
            None \<Rightarrow> Some (Inl NullDeref)
          | Some [] \<Rightarrow> Some (Inl NullDeref)
          | Some [a] \<Rightarrow> Some (Inl (if bindable os a then UseAfterFree else NullDeref))
          | Some (a # b # _) \<Rightarrow> if bindable os a \<or> bindable os b then Some (Inl UseAfterFree) else None))"
proof -
  have "open_sockets os s = (case setup_TCP os 0 (TCP_port s) of Inl e \<Rightarrow> Some (Inl e)
      | Inr _ \<Rightarrow> map_option (\<lambda>ai. Inl (if ai = Freed then UseAfterFree else NullDeref))
          (map_option snd (setup_UDP os 0 (UDP_port s))))"
    by (auto simp: open_sockets_def deref_addrinfo_def option.map_comp comp_def
        split: sum.splits ai_ptr.splits intro!: map_option_cong)
  then show ?thesis
    unfolding setup_UDP_bound by (auto simp: udp_bound_def split: sum.splits option.splits list.splits)
qed

end
