(* ===== verification/Protocol.thy ===== *)
theory Protocol
  imports Service
begin

text \<open>
  The protocol between the stations. \<open>msg_step\<close> says abstractly which messages a station may send on
  after a message; the datagram handler is a refinement of it on every input, malformed datagrams
  included (\<open>mute\<close>: nothing is sent for those). Every step keeps messages well-formed and lowers
  \<open>msg_weight\<close>.
\<close>

section \<open>What a message may become\<close>

inductive msg_step :: "server \<Rightarrow> entry list \<Rightarrow> msg \<Rightarrow> msg \<Rightarrow> bool" for s es where
  flood: "m_found m = 0 \<Longrightarrow> m_destination m \<noteq> my_name s \<Longrightarrow> msg_step s es m (flood_msg s m)"
| arrive: "m_found m = 0 \<Longrightarrow> m_destination m = my_name s \<Longrightarrow> m_source m \<noteq> my_name s \<Longrightarrow>
     1 \<le> m_hops m \<Longrightarrow> msg_step s es m (back_msg (arrive_msg s es m))"
| pass_back: "m_found m = 1 \<or> m_found m = 3 \<Longrightarrow> m_source m \<noteq> my_name s \<Longrightarrow>
     2 \<le> m_current m \<Longrightarrow> m_current m \<le> int (m_hops m) + 1 \<Longrightarrow> msg_step s es m (back_msg m)"
| depart: "m_found m = 1 \<Longrightarrow> m_source m = my_name s \<Longrightarrow> 1 \<le> m_current m \<Longrightarrow>
     m_current m < int (m_hops m) \<Longrightarrow> leg_row es (depart_msg es m) \<noteq> - 1 \<Longrightarrow>
     msg_step s es m (fill_msg es (depart_msg es m))"
| fill: "m_found m = 2 \<Longrightarrow> m_destination m \<noteq> my_name s \<Longrightarrow> 1 \<le> m_current m \<Longrightarrow>
     m_current m < int (m_hops m) \<Longrightarrow> leg_row es m \<noteq> - 1 \<Longrightarrow> msg_step s es m (fill_msg es m)"
| confirm: "m_found m = 2 \<Longrightarrow> m_destination m = my_name s \<Longrightarrow> m_source m \<noteq> my_name s \<Longrightarrow>
     2 \<le> m_current m \<Longrightarrow> m_current m \<le> int (m_hops m) + 1 \<Longrightarrow>
     msg_step s es m (back_msg (m\<lparr>m_found := 3\<rparr>))"

inductive_cases msg_stepE: "msg_step s es m m'"

section \<open>The datagrams a phase sends\<close>

definition sends_only :: "event list \<Rightarrow> (string \<Rightarrow> string \<Rightarrow> string \<Rightarrow> bool) \<Rightarrow> bool" where
  "sends_only ev P \<longleftrightarrow> (\<forall>host port t. UdpSend host port t \<in> set ev \<longrightarrow> P host port t)"

lemma sends_onlyD: "sends_only ev P \<Longrightarrow> UdpSend host port t \<in> set ev \<Longrightarrow> P host port t"
  by (simp add: sends_only_def)

lemma sends_only_Nil [simp]: "sends_only [] P"
  by (simp add: sends_only_def)

lemma sends_only_append [simp]: "sends_only (a @ b) P \<longleftrightarrow> sends_only a P \<and> sends_only b P"
  by (auto simp: sends_only_def)

lemma sends_only_mono:
  "sends_only ev P \<Longrightarrow> (\<And>host port t. P host port t \<Longrightarrow> Q host port t) \<Longrightarrow> sends_only ev Q"
  by (simp add: sends_only_def)

text \<open>\<open>m\<close> goes to the address it carries for its current hop, or to a neighbour it has not visited.\<close>

definition routed :: "msg \<Rightarrow> string \<Rightarrow> string \<Rightarrow> string \<Rightarrow> bool" where
  "routed m host port t \<longleftrightarrow> t = wire m \<and> get_ip_port (struct_of m) (m_current m) = Inr (Some host, Some port)"

definition flooded :: "server \<Rightarrow> msg \<Rightarrow> string \<Rightarrow> string \<Rightarrow> string \<Rightarrow> bool" where
  "flooded s m host port t \<longleftrightarrow> t = wire (flood_msg s m) \<and>
     (\<exists>n\<in>set (g_neighbours s). host = ip_addr n \<and> port = udp_port n \<and> addr_and_port n \<notin> set (m_address m))"

lemma spare_found [simp]: "f \<noteq> 0 \<Longrightarrow> spare f = []"
  by (simp add: spare_def)

lemma spare_zero [simp]: "spare 0 = [None]"
  by (simp add: spare_def)

lemma rd_cell_mem_range:
  assumes "lens m" and "rd_cell (address (mem [] m)) i = Inr a \<or> rd_cell (stations (mem [] m)) i = Inr a
    \<or> rd_cell (time (mem [] m)) i = Inr a"
  shows "0 \<le> i \<and> i < int (m_hops m)"
  using assms by (auto simp: rd_cell_Inr_iff mem_def lens_def lens_stations)

lemma forward_Inr:
  assumes "forward os (mem [] m) (m_current m) = Inr ev" and "lens m" and "m_found m \<noteq> 0"
  shows "1 \<le> m_current m \<and> m_current m \<le> int (m_hops m) \<and> sends_only ev (routed m)"
proof -
  obtain ip port body ip' port' rv where f: "get_ip_port (mem [] m) (m_current m) = Inr (ip, port)"
    "craft_payload (mem [] m) = Inr body" "rd_str ip = Inr ip'" "rd_str port = Inr port'"
    "talk_to os ip' port' body = Inr (rv, ev)"
    using assms(1) by (auto simp: forward_def elim!: bindR_InrE)
  obtain a where "rd_cell (address (mem [] m)) (m_current m - 1) = Inr a"
    using f(1) by (auto simp: get_ip_port_def c_int_Inr_iff elim!: bindR_InrE)
  then have "1 \<le> m_current m \<and> m_current m \<le> int (m_hops m)"
    using rd_cell_mem_range [OF assms(2)] by fastforce
  moreover have "body = wire m" using craft_payload_wire [OF denotes_mem [OF assms(2)] f(2)] .
  moreover have "ip = Some ip'" "port = Some port'"
    using f(3,4) by (auto simp: rd_str_def split: option.splits)
  ultimately show ?thesis
    using talk_to_Inr [OF f(5)] f(1) assms(3) by (auto simp: sends_only_def routed_def struct_of_def)
qed

lemma step_back_Inr:
  assumes "step_back os (mem [] m) = Inr ev" and "lens m" and "m_found m \<noteq> 0"
  shows "2 \<le> m_current m \<and> m_current m \<le> int (m_hops m) + 1 \<and> sends_only ev (routed (back_msg m))"
proof -
  have l: "lens (back_msg m)" using assms(2) by (simp add: lens_def back_msg_def)
  have "forward os (mem [] (back_msg m)) (m_current (back_msg m)) = Inr ev"
    using assms(1) by (auto simp: step_back_def c_int_Inr_iff mem_updates back_msg_def elim!: bindR_InrE)
  from forward_Inr [OF this l] assms(3) show ?thesis by simp
qed

lemma search_Inr:
  assumes "server_ok s es" and "search_timetable (g_timetable s) (num_timetables s) t go = Inr k"
  shows "k = first_departure es t go \<and> (k \<noteq> - 1 \<longrightarrow> is_time t)"
proof (cases "is_time t")
  case True
  with server_search [OF assms(1)] assms(2) show ?thesis by simp
next
  case False
  have n: "num_timetables s = int (length es)" "es \<noteq> []" using assms(1) by (simp_all add: server_ok_def)
  show ?thesis
  proof (cases "length es = 1")
    case True
    with assms(2) n show ?thesis by (auto simp: search_timetable_def first_departure_def)
  next
    case long: False
    with n(2) have "length es - 1 \<noteq> 0" by (cases es) auto
    then obtain ks where "[0..<nat (num_timetables s - 1)] = 0 # ks"
      using n(1) by (auto simp: upt_conv_Cons nat_diff_distrib)
    moreover obtain e where "timeToMinutes t = Inl e" using False by (auto simp: is_time_def split: sum.splits)
    ultimately show ?thesis using assms(2) by (simp add: search_timetable_def)
  qed
qed

lemma fill_leg_Inr:
  assumes "fill_leg s (mem [] m) = Inr p" and "lens m" and "server_ok s es" and "in_int (int (m_hops m) + 1)"
  shows "1 \<le> m_current m \<and> m_current m < int (m_hops m) \<and> leg_row es m \<noteq> - 1 \<and> p = mem [] (fill_msg es m)"
proof -
  obtain t nxt k x r where f: "rd_cell (time (mem [] m)) (m_current m - 1) = Inr t"
    "rd_cell (stations (mem [] m)) (m_current m) = Inr nxt"
    "search_timetable (g_timetable s) (num_timetables s) t nxt = Inr k" "tt_at (g_timetable s) k = Inr r"
    using assms(1) unfolding fill_leg_def mem_fields bindR_Inr by (elim bindR_InrE) (auto elim!: bindR_InrE)
  have c: "0 \<le> m_current m - 1" "m_current m - 1 < int (m_hops m)" "0 \<le> m_current m" "m_current m < int (m_hops m)"
    using rd_cell_mem_range [OF assms(2)] f(1,2) by blast+
  have t: "t = m_time m ! nat (m_current m - 1)" "nxt = m_stations m ! nat (m_current m)"
    using f(1,2) mem_rd(4) [OF assms(2) c(1,2), of "[]"] mem_rd(1) [OF assms(2) c(3,4), of "[]"] by simp_all
  have k: "k = leg_row es m" "k \<noteq> - 1 \<longrightarrow> is_time t"
    using search_Inr [OF assms(3) f(3)] by (simp_all add: leg_row_def t)
  have "k \<noteq> - 1" using f(4) by (auto simp: tt_at_def split: option.splits)
  moreover have "in_int (m_current m + 1)" using assms(4) c(3,4) by (simp add: in_int_def)
  ultimately have "fill_leg s (mem [] m) = Inr (mem [] (fill_msg es m))"
    using c k t by (intro fill_leg_mem [OF assms(2,3)]) simp_all
  with assms(1) \<open>k \<noteq> - 1\<close> k(1) c show ?thesis by simp
qed

lemma udp_fill_Inr:
  assumes "udp_fill os s (mem [] m) = Inr (s', ev)" and "lens m" and "server_ok s es"
    and "in_int (int (m_hops m) + 1)" and "m_found m \<noteq> 0"
  shows "1 \<le> m_current m \<and> m_current m < int (m_hops m) \<and> leg_row es m \<noteq> - 1 \<and>
    sends_only ev (routed (fill_msg es m))"
proof -
  obtain p where p: "fill_leg s (mem [] m) = Inr p"
    using assms(1) by (auto simp: udp_fill_def elim!: bindR_InrE)
  note fill = fill_leg_Inr [OF p assms(2-4)]
  have l: "lens (fill_msg es m)" "m_found (fill_msg es m) \<noteq> 0"
    using assms(2,5) by (simp_all add: lens_def fill_msg_def Let_def)
  have "forward os (mem [] (fill_msg es m)) (m_current (fill_msg es m)) = Inr ev"
    using assms(1) p fill by (auto simp: udp_fill_def elim!: bindR_InrE)
  with forward_Inr [OF _ l] fill show ?thesis by blast
qed

lemma source_found_Inr:
  assumes "source_found s (mem [] m) = Inr p" and "lens m" and "server_ok s es"
  shows "0 \<le> m_current m \<and> m_current m < int (m_hops m) \<and> p = mem [] (depart_msg es m)"
proof -
  obtain nxt k where f: "rd_cell (stations (mem [] m)) (m_current m) = Inr nxt"
    "search_timetable (g_timetable s) (num_timetables s) (m_start_time m) nxt = Inr k"
    using assms(1) unfolding source_found_def mem_fields bindR_Inr print_mem_bind [OF assms(2)]
    by (auto elim!: bindR_InrE)
  have c: "0 \<le> m_current m" "m_current m < int (m_hops m)"
    using rd_cell_mem_range [OF assms(2)] f(1) by blast+
  have "nxt = m_stations m ! nat (m_current m)" using f(1) mem_rd(1) [OF assms(2) c, of "[]"] by simp
  with f(2) search_Inr [OF assms(3) f(2)] c show ?thesis
    using source_found_mem [OF assms(2,3) c, of "[]"] assms(1) by simp
qed

lemma serve_clients_sends: "sends_only (snd (serve_clients q cs)) P"
proof (induction q cs rule: serve_clients.induct)
  case (1 q cs)
  then show ?case
    by (subst serve_clients.simps) (auto simp: sends_only_def split: option.splits prod.splits)
qed

lemma udp_finish_sends: "udp_finish s p = Inr (s', ev) \<Longrightarrow> sends_only ev P"
  by (erule udp_finish_Inr) (metis serve_clients_sends snd_conv)

lemma flood_one_Inr:
  assumes "flood_one os s (mem [] (flood_msg s m)) (int (m_hops m)) j ev = Inr ev'" and "lens m"
    and "sends_only ev (flooded s m)"
  shows "sends_only ev' (flooded s m)"
proof -
  have "take (m_hops m) (m_address (flood_msg s m)) = m_address m"
    using assms(2) by (simp add: flood_msg_def lens_def)
  moreover have "m_hops m \<le> m_hops (flood_msg s m)" by (simp add: flood_msg_def)
  ultimately have been: "been_there a (address (mem [] (flood_msg s m))) (map int [0..<m_hops m])
      = Inr (a \<in> set (m_address m))" for a
    using been_there_mem [OF flood_lens [OF assms(2)]] by simp
  obtain n where n: "nb_at s j = Inr n" using assms(1) by (auto simp: flood_one_def elim!: bindR_InrE)
  then have mem: "n \<in> set (g_neighbours s)" by (auto simp: nb_at_def split: if_splits)
  show ?thesis
  proof (cases "addr_and_port n \<in> set (m_address m)")
    case True
    with assms(1,3) n been show ?thesis by (simp add: flood_one_def)
  next
    case False
    with assms(1) n been obtain body rv ev2 where c: "craft_payload (mem [] (flood_msg s m)) = Inr body"
      "talk_to os (ip_addr n) (udp_port n) body = Inr (rv, ev2)" "ev' = ev @ ev2"
      by (auto simp: flood_one_def elim!: bindR_InrE)
    have "body = wire (flood_msg s m)"
      using craft_payload_wire [OF denotes_mem [OF flood_lens [OF assms(2)]] c(1)] .
    then have "sends_only ev2 (flooded s m)"
      using talk_to_Inr [OF c(2)] mem False by (auto simp: sends_only_def flooded_def)
    with assms(3) c(3) show ?thesis by simp
  qed
qed

lemma append_hop_found:
  assumes "append_hop s r t (mem (spare (m_found m)) m) = Inr p" and "lens m"
  shows "m_found m = 0"
proof (rule ccontr)
  assume "m_found m \<noteq> 0"
  then have "address (mem (spare (m_found m)) m) = map Some (m_address m)" by (simp add: mem_def)
  moreover have "length (m_address m) = m_hops m" using assms(2) by (simp add: lens_def)
  ultimately have "append_hop s r t (mem (spare (m_found m)) m) = Inl OutOfBounds"
    by (simp add: append_hop_def Let_def wr_cell_outside)
  with assms(1) show False by simp
qed

lemma udp_flood_Inr:
  assumes "udp_flood os s (mem (spare (m_found m)) m) = Inr (s', ev)" and "wf_msg m" and "server_ok s es"
  shows "m_found m = 0 \<and> sends_only ev (flooded s m)"
proof -
  have l: "lens m" by (rule wf_lens [OF assms(2)])
  obtain p where p: "append_hop s (Inr ''...'') (Inr ''...'') (mem (spare (m_found m)) m) = Inr p"
    "foldR (flood_one os s p (int (m_hops m))) (map int [0..<nat (num_neighbours s)]) [] = Inr ev"
    using assms(1) by (auto simp: udp_flood_def elim!: bindR_InrE)
  have found: "m_found m = 0" by (rule append_hop_found [OF p(1) l])
  then have "in_int (int (m_hops m) + 1)" using assms(2) by (simp add: wf_msg_def)
  then have "append_hop s (Inr ''...'') (Inr ''...'') (mem [None] m) = Inr (mem [] (flood_msg s m))"
    unfolding flood_msg_def
    by (intro append_hop_mem)
      (use assms l server_address_token in \<open>auto simp: server_ok_def simp del: MAX_NAME_LENGTH_def MAX_TIMESTRING_def\<close>)
  with p(1) found have "p = mem [] (flood_msg s m)" by simp
  with p(2) have "foldR (flood_one os s (mem [] (flood_msg s m)) (int (m_hops m)))
      (map int [0..<nat (num_neighbours s)]) [] = Inr ev" by simp
  then have "sends_only ev (flooded s m)"
    by (rule foldR_invariant) (auto dest!: flood_one_Inr [OF _ l])
  with found show ?thesis by simp
qed

lemma udp_self_crash:
  assumes "wf_msg m"
  shows "source_found s (mem [] (arrive_msg s es m)) = Inl OutOfBounds"
proof -
  let ?m = "arrive_msg s es m"
  have l: "lens ?m" using wf_lens [OF assms] by (simp add: lens_def arrive_msg_def m_hops_def)
  have "int (length (stations (mem [] ?m))) \<le> m_current ?m"
    by (simp add: mem_def arrive_msg_def m_hops_def)
  then show ?thesis
    unfolding source_found_def mem_fields bindR_Inr print_mem_bind [OF l]
    by (simp add: rd_cell_outside)
qed

section \<open>The handler refines the message steps\<close>

definition udp_phases :: "os \<Rightarrow> server \<Rightarrow> payload \<Rightarrow> (server \<times> event list) res" where
  "udp_phases os s p = bindR (udp_at_destination s p) (\<lambda>p. bindR (udp_at_source s p) (udp_dispatch os s))"

text \<open>What a station may send on after \<open>m\<close>, and where to.\<close>

definition relayed :: "server \<Rightarrow> entry list \<Rightarrow> msg \<Rightarrow> string \<Rightarrow> string \<Rightarrow> string \<Rightarrow> bool" where
  "relayed s es m host port t \<longleftrightarrow> (\<exists>m'. msg_step s es m m' \<and> t = wire m' \<and>
     (if m_found m' = 0 then flooded s m host port t else routed m' host port t))"

lemma relayed_routed:
  "sends_only ev (routed m') \<Longrightarrow> msg_step s es m m' \<Longrightarrow> m_found m' \<noteq> 0 \<Longrightarrow> sends_only ev (relayed s es m)"
  unfolding relayed_def by (erule sends_only_mono) (auto simp: routed_def)

lemma relayed_flooded:
  assumes "sends_only ev (flooded s m)" and "m_found m = 0" and "m_destination m \<noteq> my_name s"
  shows "sends_only ev (relayed s es m)"
  using assms(1)
proof (rule sends_only_mono)
  fix host port t
  assume "flooded s m host port t"
  moreover have "m_found (flood_msg s m) = 0" using assms(2) by (simp add: flood_msg_def)
  ultimately show "relayed s es m host port t"
    using msg_step.flood [OF assms(2,3), of es] by (auto simp: relayed_def flooded_def)
qed

lemma found_one [simp]: "spare 1 = []"
  by simp

lemma arrive_msg_simps:
  "m_found (arrive_msg s es m) = 1" "m_source (arrive_msg s es m) = m_source m"
  "m_hops (arrive_msg s es m) = Suc (m_hops m)" "m_current (arrive_msg s es m) = int (m_hops m) + 1"
  "lens m \<Longrightarrow> lens (arrive_msg s es m)"
  by (simp_all add: arrive_msg_def lens_def m_hops_def)

lemma udp_backtrace_Inr:
  assumes "udp_dispatch os s (mem [] m) = Inr (s', ev)" and "lens m" and "m_found m = 1 \<or> m_found m = 3"
  shows "2 \<le> m_current m \<and> m_current m \<le> int (m_hops m) + 1 \<and> sends_only ev (routed (back_msg m))"
proof -
  have "step_back os (mem [] m) = Inr ev"
    using assms(1,3) by (auto simp: udp_dispatch_def udp_backtrace_def udp_return_def elim!: bindR_InrE)
  with step_back_Inr [OF _ assms(2)] assms(3) show ?thesis by auto
qed

lemma phases_zero:
  assumes "udp_phases os s (struct_of m) = Inr (s', ev)" and "wf_msg m" and "server_ok s es" and "m_found m = 0"
  shows "sends_only ev (relayed s es m)"
proof (cases "m_destination m = my_name s")
  case dst: True
  let ?a = "arrive_msg s es m"
  note la = arrive_msg_simps(5) [OF wf_lens [OF assms(2)], of s es]
  have p: "bindR (udp_at_source s (mem [] ?a)) (udp_dispatch os s) = Inr (s', ev)"
    using assms(1) dest_arrive [OF assms(2,3,4) dst] assms(4) by (simp add: udp_phases_def struct_of_def)
  show ?thesis
  proof (cases "m_source m = my_name s")
    case True
    then have "udp_at_source s (mem [] ?a) = Inl OutOfBounds"
      using udp_self_crash [OF assms(2), of s es] by (simp add: udp_at_source_def arrive_msg_simps)
    with p show ?thesis by simp
  next
    case False
    then have "udp_dispatch os s (mem [] ?a) = Inr (s', ev)"
      using p source_other [of ?a s "[]"] by (simp add: arrive_msg_simps)
    from udp_backtrace_Inr [OF this la] msg_step.arrive [OF assms(4) dst False, of es] show ?thesis
      by (auto simp: arrive_msg_simps intro: relayed_routed)
  qed
next
  case dst: False
  have "udp_at_destination s (struct_of m) = Inr (struct_of m)" "udp_at_source s (struct_of m) = Inr (struct_of m)"
    using dest_other [of m s] source_other [of m s] dst assms(4) by (simp_all add: struct_of_def)
  with assms(1,4) have "udp_flood os s (mem (spare (m_found m)) m) = Inr (s', ev)"
    by (simp add: udp_phases_def udp_dispatch_def struct_of_def)
  from udp_flood_Inr [OF this assms(2,3)] relayed_flooded [OF _ assms(4) dst] show ?thesis by blast
qed

lemma phases_one:
  assumes "udp_phases os s (struct_of m) = Inr (s', ev)" and "wf_msg m" and "server_ok s es" and "m_found m = 1"
    and "in_int (int (m_hops m) + 1)"
  shows "sends_only ev (relayed s es m)"
proof -
  note l = wf_lens [OF assms(2)]
  have p: "bindR (udp_at_source s (mem [] m)) (udp_dispatch os s) = Inr (s', ev)"
    using assms(1) dest_other [of m s "[]"] assms(4) by (simp add: udp_phases_def struct_of_def)
  show ?thesis
  proof (cases "m_source m = my_name s")
    case True
    obtain p2 where p2: "udp_at_source s (mem [] m) = Inr p2" "udp_dispatch os s p2 = Inr (s', ev)"
      using p by (auto elim: bindR_InrE)
    then obtain p' where f: "source_found s (mem [] m) = Inr p'"
      "(if found p' = 3 then bindR (print_payload p') (\<lambda>_. Inr (p'\<lparr>found := 4\<rparr>)) else Inr p') = Inr p2"
      using assms(4) True by (auto simp: udp_at_source_def elim!: bindR_InrE)
    then have "p2 = mem [] (depart_msg es m)" using source_found_Inr [OF f(1) l assms(3)] by simp
    with p2(2) have "udp_fill os s (mem [] (depart_msg es m)) = Inr (s', ev)" by (simp add: udp_dispatch_def)
    moreover have "lens (depart_msg es m)" using l by (simp add: lens_def)
    moreover have "m_found (fill_msg es (depart_msg es m)) \<noteq> 0" by (simp add: fill_msg_def Let_def)
    ultimately show ?thesis
      using udp_fill_Inr [OF _ _ assms(3), of os "depart_msg es m" s' ev] assms(5)
        msg_step.depart [OF assms(4) True, of es]
      by (auto intro: relayed_routed)
  next
    case False
    then have "udp_dispatch os s (mem [] m) = Inr (s', ev)" using p source_other [of m s "[]"] by simp
    from udp_backtrace_Inr [OF this l] msg_step.pass_back [of m s es] assms(4) False show ?thesis
      by (auto intro: relayed_routed)
  qed
qed

lemma phases_three:
  assumes "bindR (udp_at_source s (mem [] m)) (udp_dispatch os s) = Inr (s', ev)" and "lens m"
    and "m_found m = 3"
  shows "m_source m \<noteq> my_name s \<and> 2 \<le> m_current m \<and> m_current m \<le> int (m_hops m) + 1 \<and>
    sends_only ev (routed (back_msg m)) \<or> (\<forall>P. sends_only ev P)"
proof (cases "m_source m = my_name s")
  case True
  then have "udp_finish s (mem [] (m\<lparr>m_found := 4\<rparr>)) = Inr (s', ev)"
    using assms source_confirm [OF True assms(3,2), of "[]"] by (simp add: udp_dispatch_def)
  with udp_finish_sends show ?thesis by blast
next
  case False
  then have "udp_dispatch os s (mem [] m) = Inr (s', ev)" using assms(1) source_other [of m s "[]"] by simp
  from udp_backtrace_Inr [OF this assms(2)] assms(3) False show ?thesis by blast
qed

lemma phases_two:
  assumes "udp_phases os s (struct_of m) = Inr (s', ev)" and "wf_msg m" and "server_ok s es" and "m_found m = 2"
    and "in_int (int (m_hops m) + 1)"
  shows "sends_only ev (relayed s es m)"
proof (cases "m_destination m = my_name s")
  case dst: True
  let ?m = "m\<lparr>m_found := 3\<rparr>"
  have l: "lens ?m" using wf_lens [OF assms(2)] by (simp add: lens_def)
  have "bindR (udp_at_source s (mem [] ?m)) (udp_dispatch os s) = Inr (s', ev)"
    using assms(1,4) dest_confirm [OF dst assms(4), of "[]"] by (simp add: udp_phases_def struct_of_def)
  from phases_three [OF this l] msg_step.confirm [OF assms(4) dst, of es] show ?thesis
    by (auto intro: relayed_routed)
next
  case dst: False
  have "udp_dispatch os s (mem [] m) = Inr (s', ev)"
    using assms(1,4) dest_other [of m s "[]"] source_other [of m s "[]"] dst
    by (simp add: udp_phases_def struct_of_def)
  then have "udp_fill os s (mem [] m) = Inr (s', ev)" using assms(4) by (simp add: udp_dispatch_def)
  from udp_fill_Inr [OF this wf_lens [OF assms(2)] assms(3,5)] msg_step.fill [OF assms(4) dst, of es] assms(4)
  show ?thesis by (auto simp: fill_msg_def Let_def intro: relayed_routed)
qed

lemma phases_other:
  assumes "udp_phases os s (struct_of m) = Inr (s', ev)" and "wf_msg m" and "server_ok s es"
    and "m_found m \<notin> {0, 1, 2}"
  shows "sends_only ev (relayed s es m)"
proof -
  have p: "bindR (udp_at_source s (mem [] m)) (udp_dispatch os s) = Inr (s', ev)"
    using assms(1,4) dest_other [of m s "[]"] by (simp add: udp_phases_def struct_of_def)
  show ?thesis
  proof (cases "m_found m = 3")
    case True
    from phases_three [OF p wf_lens [OF assms(2)] True] msg_step.pass_back [of m s es] True show ?thesis
      by (auto intro: relayed_routed)
  next
    case False
    then have d: "udp_dispatch os s (mem [] m) = Inr (s', ev)"
      using p assms(4) source_other [of m s "[]"] by simp
    show ?thesis
    proof (cases "m_found m = 4")
      case True
      with d have "udp_finish s (mem [] m) = Inr (s', ev)" by (simp add: udp_dispatch_def)
      then show ?thesis by (rule udp_finish_sends)
    next
      case False
      with d assms(4) \<open>m_found m \<noteq> 3\<close> have "udp_flood os s (mem (spare (m_found m)) m) = Inr (s', ev)"
        by (simp add: udp_dispatch_def)
      from udp_flood_Inr [OF this assms(2,3)] assms(4) show ?thesis by simp
    qed
  qed
qed

lemma phases_simulate:
  assumes "udp_phases os s (struct_of m) = Inr (s', ev)" and "wf_msg m" and "server_ok s es"
    and "in_int (int (m_hops m) + 1)"
  shows "sends_only ev (relayed s es m)"
proof -
  consider "m_found m = 0" | "m_found m = 1" | "m_found m = 2" | "m_found m \<notin> {0, 1, 2}" by auto
  then show ?thesis
    using phases_zero [OF assms(1-3)] phases_one [OF assms(1-3)] phases_two [OF assms(1-3)]
      phases_other [OF assms(1-3)] assms(4) by cases blast+
qed

section \<open>Datagrams that are not well-formed messages\<close>

text \<open>A structure on which every phase fails before it sends.\<close>

definition mute :: "os \<Rightarrow> server \<Rightarrow> payload \<Rightarrow> bool" where
  "mute os s p \<longleftrightarrow> (\<forall>f r t. \<exists>e. append_hop s r t (p\<lparr>found := f\<rparr>) = Inl e) \<and>
     (\<forall>f. (\<exists>e. source_found s (p\<lparr>found := f\<rparr>) = Inl e) \<and> (\<exists>e. step_back os (p\<lparr>found := f\<rparr>) = Inl e) \<and>
       (\<exists>e. fill_leg s (p\<lparr>found := f\<rparr>) = Inl e))"

lemma mute_found: "mute os s p \<Longrightarrow> mute os s (p\<lparr>found := f\<rparr>)"
  by (simp add: mute_def)

lemma found_idle: "p\<lparr>found := found p\<rparr> = p"
  by simp

lemma mute_dispatch:
  assumes "udp_dispatch os s p = Inr (s', ev)" and "mute os s p"
  shows "sends_only ev P"
proof (cases "found p = 4")
  case True
  with assms(1) udp_finish_sends show ?thesis by (simp add: udp_dispatch_def)
next
  case False
  have "\<exists>e. append_hop s r t p = Inl e" "\<exists>e. step_back os p = Inl e" "\<exists>e. fill_leg s p = Inl e" for r t
    using assms(2) unfolding mute_def by (metis found_idle)+
  then have "\<exists>e. udp_dispatch os s p = Inl e"
    using False
    by (auto simp: udp_dispatch_def udp_return_def udp_backtrace_def udp_fill_def udp_flood_def)
      (metis bindR_Inl)+
  with assms(1) show ?thesis by auto
qed

lemma mute_phases:
  assumes "udp_phases os s p = Inr (s', ev)" and "mute os s p"
  shows "sends_only ev P"
proof -
  obtain p1 p2 where p: "udp_at_destination s p = Inr p1" "udp_at_source s p1 = Inr p2"
    "udp_dispatch os s p2 = Inr (s', ev)"
    using assms(1) by (auto simp: udp_phases_def elim!: bindR_InrE)
  have a: "append_hop s r t (p\<lparr>found := f\<rparr>) \<noteq> Inr x" for r t f x
    using assms(2) unfolding mute_def by (metis Inl_Inr_False)
  have "p1 = p \<or> p1 = p\<lparr>found := 3\<rparr>"
    using p(1) a by (auto simp: udp_at_destination_def Let_def split: if_splits elim!: bindR_InrE)
  then have m1: "mute os s p1" using assms(2) mute_found by auto
  then have "source_found s p1 \<noteq> Inr x" for x
    unfolding mute_def by (metis Inl_Inr_False found_idle)
  then have "p2 = p1 \<or> p2 = p1\<lparr>found := 4\<rparr>"
    using p(2) by (auto simp: udp_at_source_def split: if_splits elim!: bindR_InrE)
  then have "mute os s p2" using m1 mute_found by auto
  with p(3) show ?thesis by (rule mute_dispatch)
qed

lemma bindR_all_Inl: "(\<And>x. m = Inr x \<Longrightarrow> \<exists>e. f x = Inl e) \<Longrightarrow> \<exists>e. bindR m f = Inl e"
  by (cases m) auto

lemma rd_cell_Nil [simp]: "rd_cell [] i = Inl OutOfBounds"
  by (auto simp: rd_cell_def)

lemma wr_cell_Nil [simp]: "wr_cell cap [] i x = Inl OutOfBounds"
  by (auto simp: wr_cell_def)

lemma mute_empty:
  assumes "stations p = []" and "address p = []" and "time p = []"
  shows "mute os s p"
  unfolding mute_def append_hop_def source_found_def step_back_def fill_leg_def forward_def get_ip_port_def Let_def
  using assms by (auto intro!: bindR_all_Inl elim!: bindR_InrE)

lemma mute_no_current:
  assumes "current p = None" and "\<And>r t x. append_hop s r t p \<noteq> Inr x"
  shows "mute os s p"
proof -
  have f: "append_hop s r t (p\<lparr>found := f\<rparr>) = map_sum id (\<lambda>q. q\<lparr>found := f\<rparr>) (append_hop s r t p)" for r t f
    by (auto simp: append_hop_def Let_def bindR_def map_sum_def split: sum.splits)
  have "\<exists>e. append_hop s r t (p\<lparr>found := f\<rparr>) = Inl e" for r t f
    unfolding f using assms(2) [of r t] by (cases "append_hop s r t p") auto
  with assms(1) show ?thesis
    by (simp add: mute_def source_found_def step_back_def fill_leg_def rd_current_def)
qed

lemma append_hop_current: "append_hop s r t (p\<lparr>current := c\<rparr>) = append_hop s r t p"
  by (simp add: append_hop_def Let_def)

text \<open>While the destination is not found, \<open>current\<close> is only written.\<close>

lemma phases_current:
  assumes "found p = 0"
  shows "udp_phases os s (p\<lparr>current := c\<rparr>) = udp_phases os s p"
proof -
  have swap: "p\<lparr>current := c, found := f\<rparr> = p\<lparr>found := f, current := c\<rparr>" for f by simp
  have d: "udp_at_destination s (p\<lparr>current := c\<rparr>) = (if destination p \<noteq> my_name s then Inr (p\<lparr>current := c\<rparr>)
      else udp_at_destination s p)"
    using assms unfolding udp_at_destination_def by (simp add: swap append_hop_current del: payload.update_convs)
  have "udp_flood os s (p\<lparr>current := c\<rparr>) = udp_flood os s p"
    by (simp add: udp_flood_def append_hop_current)
  with assms show ?thesis
    unfolding udp_phases_def d by (simp add: udp_at_destination_def udp_at_source_def udp_dispatch_def)
qed

section \<open>Any datagram\<close>

text \<open>
  \<open>d\<close> carries the message \<open>m\<close>: \<open>load_payload\<close> makes \<open>m\<close> of it. A datagram that has no third
  number leaves \<open>current\<close> unassigned, which is harmless while the destination is not found.
\<close>

definition carries :: "string \<Rightarrow> msg \<Rightarrow> bool" where
  "carries d m \<longleftrightarrow> wf_msg m \<and> m_hops m < MAXDATASIZE \<and>
     (load_payload (cstr d) = Inr (struct_of m) \<or>
      m_found m = 0 \<and> load_payload (cstr d) = Inr ((struct_of m)\<lparr>current := None\<rparr>))"

lemma udp_handler_InrE:
  assumes "udp_handler os s d = Inr r"
  obtains p where "length d < MAXDATASIZE" and "load_payload (cstr d) = Inr p" and "udp_phases os s p = Inr r"
proof -
  have "length (take MAXDATASIZE d) < MAXDATASIZE"
    using assms by (auto simp only: udp_handler_def checkR_bind_Inr_iff)
  then have "length d < MAXDATASIZE" "take MAXDATASIZE d = d" by simp_all
  with assms that show thesis
    by (auto simp: udp_handler_def udp_phases_def simp del: MAXDATASIZE_def elim!: bindR_InrE)
qed

lemma length_cstr: "length (cstr d) \<le> length d"
  by (simp add: cstr_def length_takeWhile_le)

lemma handler_simulates:
  assumes "udp_handler os s d = Inr (s', ev)" and "server_ok s es" and "UdpSend host port t \<in> set ev"
  shows "\<exists>m. carries d m \<and> relayed s es m host port t"
proof -
  obtain p where p: "length d < MAXDATASIZE" "load_payload (cstr d) = Inr p" "udp_phases os s p = Inr (s', ev)"
    using assms(1) by (rule udp_handler_InrE)
  have "\<not> mute os s p"
    using mute_phases [OF p(3), of "\<lambda>_ _ _. False"] assms(3) by (auto simp: sends_only_def)
  then have h: "0 \<le> hops p"
    using load_payload_negative [OF p(2)] mute_empty [of p os s] by linarith
  obtain m where m: "wf_msg m" "p = (struct_of m)\<lparr>current := current p\<rparr>"
    "\<And>c. current p = Some c \<Longrightarrow> m_current m = c"
    using load_payload_cells [OF p(2) NUL_cstr h] by metis
  have hm: "int (m_hops m) = hops p" "m_found m = found p"
    by (subst m(2), simp add: struct_of_def)+
  then have hops: "m_hops m < MAXDATASIZE"
    using load_payload_hops [OF p(2)] length_cstr [of d] p(1) by linarith
  then have n: "in_int (int (m_hops m) + 1)" by (simp add: in_int_def)
  have "carries d m \<and> udp_phases os s (struct_of m) = Inr (s', ev)"
  proof (cases "current p")
    case (Some c)
    then have "p = struct_of m" using m(2,3) by (simp add: struct_of_def mem_def)
    with m(1) hops p(2,3) show ?thesis by (simp add: carries_def)
  next
    case None
    have "m_found m = 0"
    proof (rule ccontr)
      assume f: "m_found m \<noteq> 0"
      have "append_hop s r t p \<noteq> Inr x" for r t x
        using append_hop_found [OF _ wf_lens [OF m(1)], of s r t x] f m(2)
        by (metis append_hop_current struct_of_def)
      with mute_no_current [OF None, of s os] \<open>\<not> mute os s p\<close> show False by blast
    qed
    moreover from this have "udp_phases os s p = udp_phases os s (struct_of m)"
      using phases_current [of "struct_of m" os s "current p"] m(2) by (simp add: struct_of_def)
    ultimately show ?thesis using m(1,2) hops p(2,3) None by (simp add: carries_def)
  qed
  with sends_onlyD [OF phases_simulate [OF _ m(1) assms(2) n] assms(3)] show ?thesis by blast
qed

section \<open>Well-formed messages stay well-formed\<close>

lemma tokens_append: "tokens cap n ts \<Longrightarrow> token cap t \<Longrightarrow> tokens cap (Suc n) (ts @ [t])"
  by (simp add: tokens_def)

lemma tokens_update: "tokens cap n ts \<Longrightarrow> token cap t \<Longrightarrow> tokens cap n (ts[i := t])"
  using set_update_subset_insert [of ts i t] by (auto simp: tokens_def list_all_iff)

lemma hop_msg_wf:
  assumes "wf_msg m" and "server_ok s es" and "token MAX_NAME_LENGTH r" and "token MAX_TIMESTRING t"
    and "in_int (int (m_hops m) + 2)"
  shows "wf_msg (hop_msg s r t m)"
  using assms server_address_token [OF assms(2)] hops_in_int
  by (auto simp: wf_msg_def server_ok_def in_int_def intro!: tokens_append
      simp del: MAX_NAME_LENGTH_def MAX_TIMESTRING_def)

lemma fill_msg_wf:
  assumes "wf_msg m" and "server_ok s es" and "leg_row es m \<noteq> - 1" and "in_int (m_current m + 1)"
  shows "wf_msg (fill_msg es m)"
proof -
  have "entry_ok (es ! nat (leg_row es m))"
    using server_row(2) [OF assms(2) _ assms(3)] by (simp add: leg_row_def)
  with assms(1,4) show ?thesis
    by (auto simp: wf_msg_def fill_msg_def Let_def m_hops_def entry_ok_def intro!: tokens_update
        simp del: MAX_NAME_LENGTH_def MAX_TIMESTRING_def)
qed

lemma depart_time_token: "server_ok s es \<Longrightarrow> token MAX_TIMESTRING (depart_time es m)"
  using server_row(2) [of s es "m_start_time m" "m_stations m ! nat (m_current m)"]
  by (auto simp: depart_time_def Let_def entry_ok_def token_def NUL_def)

lemma depart_msg_wf:
  assumes "wf_msg m" and "server_ok s es"
  shows "wf_msg (depart_msg es m)"
  using assms(1) depart_time_token [OF assms(2), of m]
  by (auto simp: wf_msg_def intro!: tokens_update simp del: MAX_NAME_LENGTH_def MAX_TIMESTRING_def)
    (simp_all add: in_int_def)

lemma back_msg_wf: "wf_msg m \<Longrightarrow> 2 \<le> m_current m \<Longrightarrow> wf_msg (back_msg m)"
  by (auto simp: wf_msg_def back_msg_def m_hops_def in_int_def)

lemma msg_step_wf:
  assumes "msg_step s es m m'" and "wf_msg m" and "server_ok s es" and "m_hops m < MAXDATASIZE"
  shows "wf_msg m'"
proof -
  have h: "in_int (int (m_hops m) + 2)" using assms(4) by (simp add: in_int_def)
  have cur: "in_int (m_current m + 1)" if "m_current m < int (m_hops m)" "1 \<le> m_current m"
    using that h by (simp add: in_int_def)
  from assms(1) show ?thesis
  proof cases
    case flood
    then show ?thesis using hop_msg_wf [OF assms(2,3) _ _ h] by (simp add: flood_msg_def del: MAX_NAME_LENGTH_def MAX_TIMESTRING_def)
  next
    case arrive
    have e: "entry_ok (hd es)"
      using server_entry [OF assms(3), of 0] assms(3) by (auto simp: server_ok_def hd_conv_nth)
    have "wf_msg (m\<lparr>m_found := 1\<rparr>)" using assms(2) by (simp add: wf_msg_def m_hops_def) (simp add: in_int_def)
    then have "wf_msg (arrive_msg s es m)"
      using hop_msg_wf [OF _ assms(3), of "m\<lparr>m_found := 1\<rparr>"] e h
      by (simp add: arrive_msg_def entry_ok_def del: MAX_NAME_LENGTH_def MAX_TIMESTRING_def)
    then show ?thesis using arrive by (simp add: back_msg_wf arrive_msg_def)
  next
    case pass_back
    with assms(2) show ?thesis by (simp add: back_msg_wf)
  next
    case depart
    then show ?thesis using fill_msg_wf [OF depart_msg_wf [OF assms(2,3)] assms(3)] cur by simp
  next
    case fill
    then show ?thesis using fill_msg_wf [OF assms(2,3)] cur by simp
  next
    case confirm
    have "wf_msg (m\<lparr>m_found := 3\<rparr>)" using assms(2) by (simp add: wf_msg_def m_hops_def) (simp add: in_int_def)
    with confirm show ?thesis by (simp add: back_msg_wf)
  qed
qed

section \<open>Every step brings the answer nearer\<close>

text \<open>\<open>n\<close> bounds the number of stations a query can be flooded through.\<close>

definition weight :: "nat \<Rightarrow> int \<Rightarrow> nat \<Rightarrow> int \<Rightarrow> nat" where
  "weight n f h c =
     (if f = 0 then 3 * n + 10 + (n - h)
      else if f = 1 then 2 * (h + 3) + nat c
      else if f = 2 then (h + 3) + nat (int h + 1 - c)
      else if f = 3 then nat c
      else 0)"

definition msg_weight :: "nat \<Rightarrow> msg \<Rightarrow> nat" where
  "msg_weight n m = weight n (m_found m) (m_hops m) (m_current m)"

lemma fill_msg_simps:
  "m_hops (fill_msg es m) = m_hops m" "m_current (fill_msg es m) = m_current m + 1"
  "m_address (fill_msg es m) = m_address m"
  by (simp_all add: fill_msg_def Let_def m_hops_def)

lemma msg_step_weight:
  assumes "msg_step s es m m'" and "m_found m = 0 \<longrightarrow> m_hops m \<le> n" and "m_found m' = 0 \<longrightarrow> m_hops m' \<le> n"
  shows "msg_weight n m' < msg_weight n m"
  using assms(1)
proof cases
  case flood
  then show ?thesis using assms(3) by (simp add: msg_weight_def weight_def flood_msg_def)
next
  case arrive
  then show ?thesis using assms(2) by (simp add: msg_weight_def weight_def arrive_msg_def)
next
  case pass_back
  then show ?thesis by (auto simp: msg_weight_def weight_def)
next
  case depart
  then show ?thesis by (simp add: msg_weight_def weight_def fill_msg_simps)
next
  case fill
  then show ?thesis by (simp add: msg_weight_def weight_def fill_msg_simps)
next
  case confirm
  have "m_hops (m\<lparr>m_found := 3\<rparr>) = m_hops m" by simp
  with confirm show ?thesis by (simp add: msg_weight_def weight_def)
qed

section \<open>Refinement\<close>

text \<open>C8. Whatever bytes arrive, a station only sends what the protocol allows: if its datagram block
  sends anything, the datagram carries a well-formed message and the text sent is that of a
  well-formed message that is one protocol step further. A query goes to a neighbour whose address
  it does not carry; every other message to the host and port recorded for its current hop.\<close>

theorem udp_simulates:
  assumes "udp_handler os s d = Inr (s', ev)" and "server_ok s es" and "UdpSend host port t \<in> set ev"
  shows "\<exists>m m'. carries d m \<and> msg_step s es m m' \<and> wf_msg m' \<and> t = wire m' \<and>
    (if m_found m' = 0
     then \<exists>n\<in>set (g_neighbours s). host = ip_addr n \<and> port = udp_port n \<and> addr_and_port n \<notin> set (m_address m)
     else get_ip_port (struct_of m') (m_current m') = Inr (Some host, Some port))"
proof -
  obtain m m' where m: "carries d m" "msg_step s es m m'" "t = wire m'"
    "if m_found m' = 0 then flooded s m host port t else routed m' host port t"
    using handler_simulates [OF assms] unfolding relayed_def by blast
  moreover have "wf_msg m'"
    using msg_step_wf [OF m(2) _ assms(2)] m(1) unfolding carries_def by blast
  ultimately show ?thesis by (intro exI [of _ m] exI [of _ m']) (auto simp: flooded_def routed_def)
qed

theorem udp_simulates_witness:
  "\<exists>m m'. carries (wire (demo_query ''StationA'' ''TerminalR'')) m \<and> msg_step demo_server demo_entries m m' \<and>
    wf_msg m' \<and> wire (flood_msg demo_server (demo_query ''StationA'' ''TerminalR'')) = wire m' \<and>
    (if m_found m' = 0
     then \<exists>n\<in>set (g_neighbours demo_server). ''10.0.0.1'' = ip_addr n \<and> ''4006'' = udp_port n \<and>
       addr_and_port n \<notin> set (m_address m)
     else get_ip_port (struct_of m') (m_current m') = Inr (Some ''10.0.0.1'', Some ''4006''))"
proof (rule udp_simulates [OF _ demo_server_ok])
  show "udp_handler demo_os demo_server (wire (demo_query ''StationA'' ''TerminalR'')) =
    Inr (demo_server, flood_events demo_server (demo_query ''StationA'' ''TerminalR''))" by code_simp
  show "UdpSend ''10.0.0.1'' ''4006'' (wire (flood_msg demo_server (demo_query ''StationA'' ''TerminalR'')))
    \<in> set (flood_events demo_server (demo_query ''StationA'' ''TerminalR''))" by code_simp
qed

end
