(* ===== verification/Network.thy ===== *)
theory Network
  imports Protocol "HOL-Library.Multiset"
begin

text \<open>
  The network: stations that each run the loop of \<open>src/main.c\<close>, and the datagrams in flight between
  them. A \<open>world\<close> is what surrounds the programs: the system calls, the timetable file and its
  time stamp at each host, and which station a datagram for a host and port is handed to. A
  \<open>delivery\<close> hands one datagram to a station whose \<open>select\<close> then reports it (a browser may be
  served in the same round), or loses it; every other round of a station is a \<open>net_step\<close> too. A
  round without defined behaviour takes the station down.
\<close>

section \<open>Networks\<close>

type_synonym datagram = "string \<times> string \<times> string"

definition datagrams :: "event list \<Rightarrow> datagram multiset" where
  "datagrams ev = mset (concat (map (\<lambda>e. case e of UdpSend h p t \<Rightarrow> [(h, p, t)] | _ \<Rightarrow> []) ev))"

record world =
  sys :: "nat \<Rightarrow> os"
  stat_of :: "nat \<Rightarrow> int option"
  file_of :: "nat \<Rightarrow> string option"
  route :: "string \<Rightarrow> string \<Rightarrow> nat option"

record net =
  up :: "nat \<Rightarrow> server option"
  flight :: "datagram multiset"

abbreviation round_of :: "world \<Rightarrow> nat \<Rightarrow> selected \<Rightarrow> server \<Rightarrow> (server \<times> event list) res" where
  "round_of W i \<equiv> loop_step (sys W i) (stat_of W i) (file_of W i)"

inductive delivery :: "world \<Rightarrow> net \<Rightarrow> net \<Rightarrow> bool" for W n where
  hand_over: "(h, p, d) \<in># flight n \<Longrightarrow> route W h p = Some i \<Longrightarrow> up n i = Some s \<Longrightarrow>
    round_of W i (Ready (UdpData d) t) s = Inr (s', ev) \<Longrightarrow>
    delivery W n \<lparr>up = (up n)(i \<mapsto> s'), flight = flight n - {#(h, p, d)#} + datagrams ev\<rparr>"
| take_down: "(h, p, d) \<in># flight n \<Longrightarrow> route W h p = Some i \<Longrightarrow> up n i = Some s \<Longrightarrow>
    round_of W i (Ready (UdpData d) t) s = Inl e \<Longrightarrow>
    delivery W n \<lparr>up = (up n)(i := None), flight = flight n - {#(h, p, d)#}\<rparr>"
| lose: "x \<in># flight n \<Longrightarrow> delivery W n (n\<lparr>flight := flight n - {#x#}\<rparr>)"

definition no_datagram :: "selected \<Rightarrow> bool" where
  "no_datagram sel \<longleftrightarrow> (\<forall>d t. sel \<noteq> Ready (UdpData d) t)"

inductive net_step :: "world \<Rightarrow> net \<Rightarrow> net \<Rightarrow> bool" for W n where
  deliver: "delivery W n n' \<Longrightarrow> net_step W n n'"
| idle_round: "up n i = Some s \<Longrightarrow> no_datagram sel \<Longrightarrow> round_of W i sel s = Inr (s', ev) \<Longrightarrow>
    net_step W n \<lparr>up = (up n)(i \<mapsto> s'), flight = flight n + datagrams ev\<rparr>"
| stop: "up n i = Some s \<Longrightarrow> no_datagram sel \<Longrightarrow> round_of W i sel s = Inl e \<Longrightarrow>
    net_step W n (n\<lparr>up := (up n)(i := None)\<rparr>)"

inductive_cases deliveryE: "delivery W n n'"
inductive_cases net_stepE: "net_step W n n'"

text \<open>The networks that come out of \<open>n0\<close>.\<close>

inductive network :: "world \<Rightarrow> net \<Rightarrow> net \<Rightarrow> bool" for W n0 where
  initial: "network W n0 n0"
| onward: "network W n0 n \<Longrightarrow> net_step W n n' \<Longrightarrow> network W n0 n'"

lemma in_datagrams: "(h, p, t) \<in># datagrams ev \<longleftrightarrow> UdpSend h p t \<in> set ev"
  by (auto simp: datagrams_def split: event.splits)

lemma datagrams_append: "datagrams (a @ b) = datagrams a + datagrams b"
  by (simp add: datagrams_def)

section \<open>One round of a station\<close>

text \<open>A server whose timetable is \<open>es\<close>, in a consistent state, with a file that is not newer.\<close>

definition station_ok :: "int option \<Rightarrow> server \<Rightarrow> bool" where
  "station_ok stat s \<longleftrightarrow> (\<exists>es. server_ok s es) \<and> service_ok s \<and> get_file_mtime stat \<le> latest_time s"

lemma loop_step_quiet:
  assumes "get_file_mtime stat \<le> latest_time s" and "loop_step os stat file sel s = r"
  shows "(case sel of
       SelectError \<Rightarrow> Inl (Exit 1)
     | Timeout is_open \<Rightarrow> timeout_walk os is_open s 0
     | Ready u t \<Rightarrow> bindR (serve_udp os s u) (\<lambda>(s, ev).
         bindR (serve_tcp s t) (\<lambda>(s, ev'). Inr (s, ev @ ev')))) = r \<or> (\<exists>e. r = Inl e)"
proof (cases "check_update_timetable stat file (latest_time s) (g_station s) (g_timetable s)")
  case (Inl e)
  with assms(2) show ?thesis by (auto simp: loop_step_def)
next
  case (Inr q)
  then have q: "q = (g_station s, g_timetable s)" using reload_Inr assms(1) by (cases q) auto
  have same: "s\<lparr>g_station := g_station s, g_timetable := g_timetable s\<rparr> = s" by (cases s) simp
  from assms(2) show ?thesis unfolding loop_step_def Let_def Inr q bindR_Inr prod.case same by (rule disjI1)
qed

lemma server_ok_clients: "server_ok (s\<lparr>clients := cs\<rparr>) es \<longleftrightarrow> server_ok s es"
  by (simp add: server_ok_def my_name_def my_address_def)

lemma round_frame:
  assumes "loop_step os stat file sel s = Inr (s', ev)" and "station_ok stat s"
  shows "\<exists>cs. s' = s\<lparr>clients := cs\<rparr>"
proof -
  have ok: "service_ok s" "get_file_mtime stat \<le> latest_time s" using assms(2) by (simp_all add: station_ok_def)
  have udp: "\<exists>cs. s2 = s1\<lparr>clients := cs\<rparr>" if "serve_udp os s1 u = Inr (s2, e)" for u s1 s2 e
    using that udp_handler_frame by (auto simp: serve_udp_def split: udp_input.splits intro: exI [of _ "clients s1"])
  have tcp: "\<exists>cs. s2 = s1\<lparr>clients := cs\<rparr>" if "serve_tcp s1 t = Inr (s2, e)" for t s1 s2 e
    using that tcp_handler_frame by (auto simp: serve_tcp_def split: tcp_input.splits intro: exI [of _ "clients s1"])
  show ?thesis
  proof (cases sel)
    case SelectError
    with loop_step_quiet [OF ok(2) assms(1)] show ?thesis by simp
  next
    case (Timeout is_open)
    with loop_step_quiet [OF ok(2) assms(1)] have "s' = s"
      using ok(1) timeout_walk_same [of s os is_open 0 s' ev] by (simp add: service_ok_def)
    then show ?thesis by (intro exI [of _ "clients s"]) simp
  next
    case (Ready u t)
    with loop_step_quiet [OF ok(2) assms(1)] obtain s1 e1 e2 where
      "serve_udp os s u = Inr (s1, e1)" "serve_tcp s1 t = Inr (s', e2)" by (auto elim!: bindR_InrE)
    then obtain cs cs' where "s1 = s\<lparr>clients := cs\<rparr>" "s' = s1\<lparr>clients := cs'\<rparr>"
      using udp tcp by blast
    then show ?thesis by (intro exI [of _ cs']) simp
  qed
qed

lemma station_ok_round:
  assumes "loop_step os stat file sel s = Inr (s', ev)" and "station_ok stat s"
  shows "station_ok stat s'"
  using round_frame [OF assms] loop_step_ok [OF assms(1)] assms(2)
  by (auto simp: station_ok_def server_ok_clients)

lemma serve_tcp_sends: "serve_tcp s t = Inr (s', ev) \<Longrightarrow> datagrams ev = {#}"
  by (auto simp: serve_tcp_def datagrams_def dest!: tcp_handler_Inr split: tcp_input.splits)

lemma round_datagram:
  assumes "loop_step os stat file (Ready (UdpData d) t) s = Inr (s', ev)" and "station_ok stat s"
  shows "\<exists>s1 ev1. udp_handler os s d = Inr (s1, ev1) \<and> datagrams ev = datagrams ev1"
proof -
  have "get_file_mtime stat \<le> latest_time s" using assms(2) by (simp add: station_ok_def)
  from loop_step_quiet [OF this assms(1)] obtain s1 ev1 ev2 where
    "udp_handler os s d = Inr (s1, ev1)" "serve_tcp s1 t = Inr (s', ev2)" "ev = ev1 @ ev2"
    by (auto simp: serve_udp_def elim!: bindR_InrE)
  with serve_tcp_sends show ?thesis by (auto simp: datagrams_append)
qed

text \<open>The queries of a timeout are those of waiting browsers; they go to the station itself.\<close>

definition asks :: "server \<Rightarrow> datagram \<Rightarrow> bool" where
  "asks s x \<longleftrightarrow>
     (\<exists>c\<in>set (head_client (clients s)). x = (local_ip s, UDP_port s, wire (ask_msg s (c_query c))))"

lemma query_text_wire: "query_text s (q_destination q) (q_start_time q) = Inr d \<Longrightarrow> d = wire (ask_msg s q)"
  by (simp add: query_text_def fit_Inr_iff wire_def ask_msg_def m_hops_def dec_zero spaced_Cons)

lemma resend_asks:
  assumes "resend os s q = Inr ev" and "x \<in># datagrams ev"
  shows "x = (local_ip s, UDP_port s, wire (ask_msg s q))"
proof -
  obtain rv d where "query_text s (q_destination q) (q_start_time q) = Inr d"
    "talk_to os (local_ip s) (UDP_port s) d = Inr (rv, ev)"
    using assms(1) by (auto simp: resend_def elim!: bindR_InrE)
  with talk_to_Inr [of os "local_ip s" "UDP_port s" d rv ev] assms(2) show ?thesis
    by (auto simp: datagrams_def dest: query_text_wire)
qed

lemma timeout_asks_only:
  assumes "clients_ok (clients s)"
  shows "timeout_walk os is_open s i = Inr (s', ev) \<Longrightarrow> x \<in># datagrams ev \<Longrightarrow> asks s x"
proof (induction "length (head_client (clients s)) - i" arbitrary: i ev)
  case 0
  then show ?case by (simp add: timeout_walk_end datagrams_def)
next
  case (Suc k)
  then have i: "i < length (head_client (clients s))" by simp
  let ?n = "head_client (clients s) ! i"
  have d: "first_with_fd (fd ?n) (head_client (clients s)) = i"
    using assms i by (intro first_with_fd_nth) (simp_all add: clients_ok_def)
  show ?case
  proof (cases "is_open (fd ?n)")
    case True
    from Suc.prems(1) obtain ev1 ev2 where
      ev: "(if q_answers (c_query ?n) = [] then resend os s (c_query ?n) else Inr []) = Inr ev1"
      "timeout_walk os is_open s (i + 1) = Inr (s', ev2)" "ev = ev1 @ ev2"
      unfolding timeout_walk_open [of i s is_open, OF i True] by (auto elim!: bindR_InrE)
    have "k = length (head_client (clients s)) - (i + 1)" using Suc.hyps(2) by simp
    note rest = Suc.hyps(1) [OF this ev(2)]
    have "asks s x" if "x \<in># datagrams ev1"
      using ev(1) that resend_asks [of os s "c_query ?n" ev1 x] i
      by (cases "q_answers (c_query ?n) = []") (auto simp: asks_def datagrams_def intro: bexI [of _ ?n])
    with rest ev(3) Suc.prems(2) show ?thesis by (auto simp: datagrams_append)
  next
    case False
    with Suc.prems d show ?thesis by (simp add: timeout_walk_closed [OF i] Let_def)
  qed
qed

lemma round_asks:
  assumes "loop_step os stat file sel s = Inr (s', ev)" and "station_ok stat s" and "no_datagram sel"
    and "x \<in># datagrams ev"
  shows "asks s x"
proof -
  have ok: "clients_ok (clients s)" "get_file_mtime stat \<le> latest_time s"
    using assms(2) by (simp_all add: station_ok_def service_ok_def)
  note q = loop_step_quiet [OF ok(2) assms(1)]
  show ?thesis
  proof (cases sel)
    case SelectError
    with q show ?thesis by simp
  next
    case (Timeout is_open)
    with q timeout_asks_only [OF ok(1)] assms(4) show ?thesis by simp
  next
    case (Ready u t)
    with q assms(3) obtain s1 ev2 where "serve_tcp s1 t = Inr (s', ev2)" "ev = ev2"
      by (auto simp: serve_udp_def no_datagram_def split: udp_input.splits elim!: bindR_InrE)
    with serve_tcp_sends assms(4) show ?thesis by simp
  qed
qed

section \<open>Deliveries run out\<close>

text \<open>What the network needs of the stations for that: that a step takes one item out of flight and
  puts only lighter ones in its place, while an invariant holds.\<close>

locale shrinking_flight =
  fixes step :: "'n \<Rightarrow> 'n \<Rightarrow> bool" and flying :: "'n \<Rightarrow> 'd multiset" and heft :: "'d \<Rightarrow> nat"
    and ok :: "'n \<Rightarrow> bool"
  assumes replaces: "step n n' \<Longrightarrow> ok n \<Longrightarrow>
      \<exists>x K. x \<in># flying n \<and> flying n' = flying n - {#x#} + K \<and> (\<forall>y\<in>#K. heft y < heft x)"
    and keeps_ok: "step n n' \<Longrightarrow> ok n \<Longrightarrow> ok n'"
begin

lemma lowers:
  assumes "step n n'" and "ok n"
  shows "(image_mset heft (flying n'), image_mset heft (flying n)) \<in> mult1 less_than"
proof -
  obtain x K where x: "x \<in># flying n" "flying n' = flying n - {#x#} + K" "\<forall>y\<in>#K. heft y < heft x"
    using replaces [OF assms] by blast
  obtain F where F: "flying n = add_mset x F" using multi_member_split [OF x(1)] by blast
  have "(image_mset heft F + image_mset heft K, image_mset heft (flying n)) \<in> mult1 less_than"
    by (rule mult1I [of _ "heft x" "image_mset heft F"]) (use x(3) F in auto)
  with x(2) F show ?thesis by simp
qed

lemma stuck:
  assumes "ok (f 0)"
  shows "\<exists>k. \<not> step (f k) (f (Suc k))"
proof (rule ccontr)
  assume "\<nexists>k. \<not> step (f k) (f (Suc k))"
  then have st: "step (f k) (f (Suc k))" for k by blast
  have ok: "ok (f k)" for k by (induction k) (simp add: assms, rule keeps_ok [OF st])
  have "\<exists>g. \<forall>k. (g (Suc k), g k) \<in> mult1 (less_than :: (nat \<times> nat) set)"
    by (rule exI [of _ "\<lambda>k. image_mset heft (flying (f k))"]) (simp add: lowers [OF st ok])
  moreover have "wf (mult1 (less_than :: (nat \<times> nat) set))" by (rule wf_mult1) simp
  ultimately show False by (simp add: wf_iff_no_infinite_down_chain)
qed

end

lemma load_struct_unique:
  assumes "wf_msg m" and "wf_msg m'" and "struct_of m = struct_of m'"
  shows "m = m'"
  using denotes_struct_of [OF assms(1)] denotes_struct_of [OF assms(2)] assms(3) denotes_unique by metis

lemma load_wire_cstr: "wf_msg m \<Longrightarrow> load_payload (cstr (wire m)) = Inr (struct_of m)"
  by (simp add: load_wire cstr_id NUL_wire)

lemma carries_wire:
  assumes "carries (wire m) m'" and "wf_msg m"
  shows "m' = m"
proof -
  have "wf_msg m'" and "struct_of m' = struct_of m \<or> (struct_of m')\<lparr>current := None\<rparr> = struct_of m"
    using assms load_wire_cstr [OF assms(2)] by (auto simp: carries_def)
  moreover have "(struct_of m')\<lparr>current := None\<rparr> \<noteq> struct_of m"
    by (simp add: struct_of_def mem_def)
  ultimately show ?thesis using load_struct_unique [OF _ assms(2)] by blast
qed

definition text_weight :: "string \<Rightarrow> nat" where
  "text_weight d =
     (case load_payload (cstr d) of
        Inl _ \<Rightarrow> 0
      | Inr p \<Rightarrow> weight MAXDATASIZE (found p) (nat (hops p)) (case current p of None \<Rightarrow> 0 | Some c \<Rightarrow> c))"

definition datagram_weight :: "datagram \<Rightarrow> nat" where
  "datagram_weight x = (case x of (h, p, d) \<Rightarrow> text_weight d)"

lemma weight_carries: "carries d m \<Longrightarrow> text_weight d = msg_weight MAXDATASIZE m"
  by (auto simp: carries_def text_weight_def msg_weight_def struct_of_def weight_def)

lemma weight_wire: "wf_msg m \<Longrightarrow> text_weight (wire m) = msg_weight MAXDATASIZE m"
  by (simp add: text_weight_def load_wire_cstr msg_weight_def struct_of_def del: MAXDATASIZE_def)

lemma flood_step_hops: "msg_step s es m m' \<Longrightarrow> m_found m' = 0 \<Longrightarrow> m' = flood_msg s m \<and> m_found m = 0"
  by (auto elim!: msg_stepE simp: arrive_msg_simps fill_msg_def Let_def)

text \<open>What a station sends weighs less than what it was sent.\<close>

lemma handler_lowers:
  assumes "udp_handler os s d = Inr (s', ev)" and "server_ok s es" and "(h, p, t) \<in># datagrams ev"
  shows "text_weight t < text_weight d"
proof -
  obtain m m' where m: "carries d m" "msg_step s es m m'" "t = wire m'"
    using handler_simulates [OF assms(1,2)] assms(3) unfolding relayed_def in_datagrams by blast
  have hops: "m_hops m < MAXDATASIZE" and wf: "wf_msg m" using m(1) by (simp_all add: carries_def)
  have "m_hops m' \<le> MAXDATASIZE" if "m_found m' = 0"
    using flood_step_hops [OF m(2) that] hops by (simp add: flood_msg_def)
  then have "msg_weight MAXDATASIZE m' < msg_weight MAXDATASIZE m"
    using msg_step_weight [OF m(2)] hops by simp
  then show ?thesis
    using weight_carries [OF m(1)] weight_wire [OF msg_step_wf [OF m(2) wf assms(2) hops]] m(3) by simp
qed

definition stations_ok :: "world \<Rightarrow> net \<Rightarrow> bool" where
  "stations_ok W n \<longleftrightarrow> (\<forall>i s. up n i = Some s \<longrightarrow> station_ok (stat_of W i) s)"

lemma delivery_replaces:
  assumes "delivery W n n'" and "stations_ok W n"
  shows "\<exists>x K. x \<in># flight n \<and> flight n' = flight n - {#x#} + K \<and>
    (\<forall>y\<in>#K. datagram_weight y < datagram_weight x)"
  using assms(1)
proof cases
  case (hand_over h p d i s t s' ev)
  have ok: "station_ok (stat_of W i) s" using assms(2) hand_over(4) by (simp add: stations_ok_def)
  then obtain es where es: "server_ok s es" by (auto simp: station_ok_def)
  obtain s1 ev1 where "udp_handler (sys W i) s d = Inr (s1, ev1)" "datagrams ev = datagrams ev1"
    using round_datagram [OF hand_over(5) ok] by blast
  then have "datagram_weight y < datagram_weight (h, p, d)" if "y \<in># datagrams ev" for y
    using handler_lowers [OF _ es] that by (cases y) (metis datagram_weight_def case_prod_conv)
  with hand_over(1,2) show ?thesis by (intro exI [of _ "(h, p, d)"] exI [of _ "datagrams ev"]) simp
next
  case (take_down h p d i s t e)
  then show ?thesis by (intro exI [of _ "(h, p, d)"] exI [of _ "{#}"]) simp
next
  case (lose x)
  then show ?thesis by (intro exI [of _ x] exI [of _ "{#}"]) simp
qed

lemma stations_ok_delivery:
  assumes "delivery W n n'" and "stations_ok W n"
  shows "stations_ok W n'"
  using assms(1)
proof cases
  case hand_over
  with assms(2) station_ok_round show ?thesis by (auto simp: stations_ok_def)
qed (use assms(2) in \<open>auto simp: stations_ok_def\<close>)

text \<open>The stations' handler provides the contract.\<close>

interpretation deliveries: shrinking_flight "delivery W" flight datagram_weight "stations_ok W" for W
  by unfold_locales (rule delivery_replaces, assumption+, rule stations_ok_delivery)

section \<open>Floods visit a station once\<close>

definition addresses :: "net \<Rightarrow> string set" where
  "addresses n = {my_address s | i s. up n i = Some s}"

text \<open>
  Every neighbour is listed under the address under which the station it reaches enters itself, and
  no station lists itself.
\<close>

definition addressed :: "world \<Rightarrow> net \<Rightarrow> bool" where
  "addressed W n \<longleftrightarrow> (\<forall>i s nb. up n i = Some s \<longrightarrow> nb \<in> set (g_neighbours s) \<longrightarrow>
     addr_and_port nb \<noteq> my_address s \<and>
     (\<forall>j r. route W (ip_addr nb) (udp_port nb) = Some j \<longrightarrow> up n j = Some r \<longrightarrow> addr_and_port nb = my_address r))"

definition fresh_for :: "world \<Rightarrow> net \<Rightarrow> net \<Rightarrow> datagram \<Rightarrow> bool" where
  "fresh_for W n0 n x \<longleftrightarrow> (case x of (h, p, d) \<Rightarrow> \<forall>m. carries d m \<longrightarrow> m_found m = 0 \<longrightarrow>
     distinct (m_address m) \<and> set (m_address m) \<subseteq> addresses n0 \<and>
     (\<forall>j r. route W h p = Some j \<longrightarrow> up n j = Some r \<longrightarrow> my_address r \<notin> set (m_address m)))"

text \<open>The stations of \<open>n\<close> are those of \<open>n0\<close> that are still up, with other browsers waiting.\<close>

definition comes_from :: "net \<Rightarrow> net \<Rightarrow> bool" where
  "comes_from n0 n \<longleftrightarrow> (\<forall>i s. up n i = Some s \<longrightarrow> (\<exists>s0 cs. up n0 i = Some s0 \<and> s = s0\<lparr>clients := cs\<rparr>))"

lemma my_address_clients [simp]: "my_address (s\<lparr>clients := cs\<rparr>) = my_address s"
  by (simp add: my_address_def)

lemma comes_from_address: "comes_from n0 n \<Longrightarrow> up n i = Some s \<Longrightarrow> my_address s \<in> addresses n0"
  unfolding comes_from_def addresses_def by fastforce

lemma net_step_up:
  assumes "net_step W n n'" and "stations_ok W n"
  shows "stations_ok W n'" and "comes_from n n'"
proof -
  have same: "comes_from n n" by (auto simp: comes_from_def intro: exI [of _ "clients _"]) (metis server.surjective server.update_convs(11))
  have round: "stations_ok W \<lparr>up = (up n)(i \<mapsto> s'), flight = F\<rparr> \<and> comes_from n \<lparr>up = (up n)(i \<mapsto> s'), flight = F\<rparr>"
    if "up n i = Some s" "round_of W i sel s = Inr (s', ev)" for i s sel s' ev F
  proof -
    have ok: "station_ok (stat_of W i) s" using assms(2) that(1) by (simp add: stations_ok_def)
    show ?thesis
      using station_ok_round [OF that(2) ok] round_frame [OF that(2) ok] assms(2) same that(1)
      by (auto simp: stations_ok_def comes_from_def)
  qed
  have "stations_ok W n' \<and> comes_from n n'"
    using assms(1)
  proof cases
    case deliver
    then show ?thesis
    proof cases
      case hand_over
      with round show ?thesis by blast
    qed (use assms(2) same in \<open>auto simp: stations_ok_def comes_from_def\<close>)
  next
    case idle_round
    with round show ?thesis by blast
  qed (use assms(2) same in \<open>auto simp: stations_ok_def comes_from_def\<close>)
  then show "stations_ok W n'" "comes_from n n'" by blast+
qed

lemma comes_from_trans: "comes_from n0 n \<Longrightarrow> comes_from n n' \<Longrightarrow> comes_from n0 n'"
  unfolding comes_from_def by (metis server.update_convs(11) server.surjective)

lemma fresh_mono:
  assumes "fresh_for W n0 n x" and "comes_from n n'"
  shows "fresh_for W n0 n' x"
  using assms unfolding fresh_for_def comes_from_def by (fastforce split: prod.splits)

text \<open>What a station forwards after a query that has not visited it.\<close>

lemma fresh_flood:
  assumes "udp_handler os s d = Inr (s1, ev)" and "server_ok s es" and "(h', p', t) \<in># datagrams ev"
    and "up n i = Some s" and "addressed W n0" and "comes_from n0 n" and "comes_from n n'"
    and "\<And>m. carries d m \<Longrightarrow> m_found m = 0 \<Longrightarrow>
      distinct (m_address m) \<and> set (m_address m) \<subseteq> addresses n0 \<and> my_address s \<notin> set (m_address m)"
  shows "fresh_for W n0 n' (h', p', t)"
  unfolding fresh_for_def prod.case
proof (intro allI impI)
  fix m1 assume c1: "carries t m1" "m_found m1 = 0"
  obtain m m' where m: "carries d m" "msg_step s es m m'" "t = wire m'"
    "if m_found m' = 0 then flooded s m h' p' t else routed m' h' p' t"
    using handler_simulates [OF assms(1,2)] assms(3) unfolding relayed_def in_datagrams by blast
  have "wf_msg m'"
    using msg_step_wf [OF m(2) _ assms(2)] m(1) by (simp add: carries_def)
  then have m1: "m1 = m'" using carries_wire c1(1) m(3) by blast
  then have f: "m' = flood_msg s m" "m_found m = 0" using flood_step_hops [OF m(2)] c1(2) by simp_all
  obtain nb where nb: "nb \<in> set (g_neighbours s)" "h' = ip_addr nb" "p' = udp_port nb"
    "addr_and_port nb \<notin> set (m_address m)"
    using m(4) m1 c1(2) by (auto simp: flooded_def)
  note old = assms(8) [OF m(1) f(2)]
  have addr: "m_address m1 = m_address m @ [my_address s]" by (simp add: m1 f(1) flood_msg_def)
  have "my_address r \<notin> set (m_address m1)" if r: "route W h' p' = Some j" "up n' j = Some r" for j r
  proof -
    obtain s0 cs where s0: "up n0 i = Some s0" "s = s0\<lparr>clients := cs\<rparr>"
      using assms(4,6) unfolding comes_from_def by blast
    obtain r0 cs' where r0: "up n0 j = Some r0" "r = r0\<lparr>clients := cs'\<rparr>"
      using comes_from_trans [OF assms(6,7)] r(2) unfolding comes_from_def by blast
    have "nb \<in> set (g_neighbours s0)" using nb(1) s0(2) by simp
    then have "addr_and_port nb \<noteq> my_address s0 \<and> addr_and_port nb = my_address r0"
      using assms(5) s0(1) r0(1) r(1) nb(2,3) unfolding addressed_def by blast
    with nb(4) show ?thesis by (auto simp: addr s0(2) r0(2))
  qed
  with old comes_from_address [OF assms(6,4)]
  show "distinct (m_address m1) \<and> set (m_address m1) \<subseteq> addresses n0 \<and>
      (\<forall>j r. route W h' p' = Some j \<longrightarrow> up n' j = Some r \<longrightarrow> my_address r \<notin> set (m_address m1))"
    by (simp add: addr)
qed

lemma load_asked:
  assumes "load_payload (cstr (''0 0 0 '' @ r)) = Inr p"
  shows "hops p = 0"
proof -
  have z: "dec 0 = ''0''" by code_simp
  have nd: "\<not> isdigit CHR '' ''" by (simp add: isdigit_iff)
  have c: "cstr (''0 0 0 '' @ r) = dec 0 @ CHR '' '' # dec 0 @ CHR '' '' # dec 0 @ CHR '' '' # cstr r"
    by (simp add: cstr_def NUL_def z)
  have "load_header (cstr (''0 0 0 '' @ r)) = Inr (found p, hops p, current p)"
    using assms load_payload_InrE by blast
  moreover have "load_header (cstr (''0 0 0 '' @ r)) = Inr (0, 0, Some 0)"
    unfolding c by (simp add: load_header_def sscanf_int sscanf_space_dec nd in_int_def del: sscanf.simps(3-6))
  ultimately show ?thesis by simp
qed

lemma carries_load: "carries d m \<Longrightarrow> \<exists>p. load_payload (cstr d) = Inr p \<and> hops p = int (m_hops m)"
  by (auto simp: carries_def struct_of_def)

lemma fresh_asked:
  assumes "asks s x"
  shows "fresh_for W n0 n x"
proof -
  obtain q where "x = (local_ip s, UDP_port s, wire (ask_msg s q))" using assms by (auto simp: asks_def)
  then obtain r where x: "x = (local_ip s, UDP_port s, ''0 0 0 '' @ r)"
    by (simp add: wire_def ask_msg_def m_hops_def dec_zero spaced_Cons)
  have "m_address m = []" if "carries (''0 0 0 '' @ r) m" for m
  proof -
    have "m_hops m = 0" using carries_load [OF that] load_asked [of r] by auto
    with that show ?thesis by (simp add: carries_def wf_msg_def tokens_def)
  qed
  then have "distinct (m_address m) \<and> set (m_address m) \<subseteq> addresses n0 \<and> my_address q \<notin> set (m_address m)"
    if "carries (''0 0 0 '' @ r) m" for m q
    using that by simp
  then show ?thesis unfolding x fresh_for_def prod.case by blast
qed

lemma fresh_step:
  assumes "net_step W n n'" and "stations_ok W n" and "addressed W n0" and "comes_from n0 n"
    and "\<And>x. x \<in># flight n \<Longrightarrow> fresh_for W n0 n x" and "x \<in># flight n'"
  shows "fresh_for W n0 n' x"
proof -
  note up' = net_step_up [OF assms(1,2)]
  have old: "fresh_for W n0 n' x" if "x \<in># flight n" for x
    using fresh_mono [OF assms(5) [OF that] up'(2)] .
  from assms(1) show ?thesis
  proof cases
    case deliver
    then show ?thesis
    proof cases
      case (hand_over h p d i s t s' ev)
      have ok: "station_ok (stat_of W i) s" using assms(2) hand_over(4) by (simp add: stations_ok_def)
      then obtain es where es: "server_ok s es" by (auto simp: station_ok_def)
      obtain s1 ev1 where u: "udp_handler (sys W i) s d = Inr (s1, ev1)" "datagrams ev = datagrams ev1"
        using round_datagram [OF hand_over(5) ok] by blast
      have d: "distinct (m_address m) \<and> set (m_address m) \<subseteq> addresses n0 \<and> my_address s \<notin> set (m_address m)"
        if "carries d m" "m_found m = 0" for m
        using assms(5) [OF hand_over(2)] that hand_over(3,4) by (simp add: fresh_for_def)
      have "fresh_for W n0 n' x" if "x \<in># datagrams ev"
        using fresh_flood [OF u(1) es _ hand_over(4) assms(3,4) up'(2) d] that u(2) by (cases x) auto
      moreover have "x \<in># flight n \<or> x \<in># datagrams ev"
        using assms(6) hand_over(1) by (auto dest: in_diffD)
      ultimately show ?thesis using old by blast
    next
      case (take_down h p d i s t e)
      then have "x \<in># flight n" using assms(6) by (auto dest: in_diffD)
      then show ?thesis by (rule old)
    next
      case (lose y)
      then have "x \<in># flight n" using assms(6) by (auto dest: in_diffD)
      then show ?thesis by (rule old)
    qed
  next
    case (idle_round i s sel s' ev)
    have ok: "station_ok (stat_of W i) s" using assms(2) idle_round(2) by (simp add: stations_ok_def)
    have "fresh_for W n0 n' x" if "x \<in># datagrams ev"
      by (rule fresh_asked [OF round_asks [OF idle_round(4) ok idle_round(3) that]])
    moreover have "x \<in># flight n \<or> x \<in># datagrams ev" using assms(6) idle_round(1) by auto
    ultimately show ?thesis using old by blast
  qed (use assms(6) old in auto)
qed

lemma network_fresh:
  assumes "network W n0 n" and "flight n0 = {#}" and "stations_ok W n0" and "addressed W n0"
  shows "stations_ok W n \<and> comes_from n0 n \<and> (\<forall>x\<in>#flight n. fresh_for W n0 n x)"
  using assms(1)
proof induction
  case initial
  have "comes_from n0 n0"
    unfolding comes_from_def by (metis server.surjective server.update_convs(11))
  with assms(2,3) show ?case by simp
next
  case (onward n n')
  then have ok: "stations_ok W n" "comes_from n0 n" and f: "\<And>x. x \<in># flight n \<Longrightarrow> fresh_for W n0 n x"
    by simp_all
  from net_step_up [OF onward.hyps(2) ok(1)] comes_from_trans [OF ok(2)]
    fresh_step [OF onward.hyps(2) ok(1) assms(4) ok(2) f]
  show ?case by blast
qed

text \<open>What freshness says of the hops of a query.\<close>

lemma network_floods:
  assumes "network W n0 n" and "flight n0 = {#}" and "stations_ok W n0" and "addressed W n0"
    and "(h, p, d) \<in># flight n" and "carries d m" and "m_found m = 0"
  shows "distinct (m_address m) \<and> set (m_address m) \<subseteq> addresses n0 \<and> m_hops m = card (set (m_address m)) \<and>
    (\<forall>j r. \<not> (route W h p = Some j \<and> up n j = Some r \<and> my_address r \<in> set (m_address m)))"
proof -
  have "fresh_for W n0 n (h, p, d)" using network_fresh [OF assms(1-4)] assms(5) by blast
  then have f: "distinct (m_address m)" "set (m_address m) \<subseteq> addresses n0"
    "\<forall>j r. \<not> (route W h p = Some j \<and> up n j = Some r \<and> my_address r \<in> set (m_address m))"
    using assms(6,7) unfolding fresh_for_def by blast+
  have "m_hops m = card (set (m_address m))"
    using assms(6) distinct_card [OF f(1)] by (simp add: carries_def wf_msg_def tokens_def)
  with f show ?thesis by blast
qed

lemma finite_addresses: "finite (dom (up n)) \<Longrightarrow> finite (addresses n)"
proof -
  assume "finite (dom (up n))"
  moreover have "addresses n \<subseteq> (\<lambda>i. my_address (the (up n i))) ` dom (up n)"
    unfolding addresses_def by force
  ultimately show "finite (addresses n)" by (meson finite_imageI finite_subset)
qed

section \<open>Two stations\<close>

text \<open>JunctionC, where a browser waits for TerminalR, and its neighbour StationA.\<close>

definition demo_pair :: "string \<Rightarrow> net" where
  "demo_pair host = \<lparr>up =
     [0 \<mapsto> demo_server\<lparr>g_neighbours := [nb (host, ''4002'')], num_neighbours := 1,
        clients := add_client 7 (demo_ask ''TerminalR'') (add_query (demo_ask ''TerminalR'') init_clients)\<rparr>,
      1 \<mapsto> demo_server\<lparr>g_station := demo_station\<lparr>station_name := ''StationA''\<rparr>, UDP_port := ''4002'',
        g_neighbours := [nb (host, ''4004'')], num_neighbours := 1\<rparr>],
     flight = {#}\<rparr>"

definition demo_world :: world where
  "demo_world = \<lparr>sys = \<lambda>_. demo_os, stat_of = \<lambda>_. None, file_of = \<lambda>_. None,
     route = \<lambda>h p. if p = ''4004'' then Some 0 else if p = ''4002'' then Some 1 else None\<rparr>"

definition station_C :: "string \<Rightarrow> server" where "station_C host = the (up (demo_pair host) 0)"

definition station_A :: "string \<Rightarrow> server" where "station_A host = the (up (demo_pair host) 1)"

text \<open>JunctionC's query as it was asked, and after each hop.\<close>

definition asked_msg :: msg where
  "asked_msg = \<lparr>m_found = 0, m_current = 0, m_stations = [], m_address = [], m_routes = [], m_time = [],
     m_destination = ''TerminalR'', m_source = ''JunctionC'', m_start_time = ''05:30''\<rparr>"

definition hop1 :: msg where "hop1 = flood_msg (station_C []) asked_msg"
definition hop2 :: msg where "hop2 = flood_msg (station_A []) hop1"
definition hop3 :: msg where "hop3 = flood_msg (station_C []) hop2"

lemma demo_pair_up: "up (demo_pair host) = [0 \<mapsto> station_C host, 1 \<mapsto> station_A host]"
  by (simp add: demo_pair_def station_C_def station_A_def)

lemma demo_stations_ok:
  "stations_ok demo_world (demo_pair ''10.0.0.1'')" "stations_ok demo_world (demo_pair ''localhost'')"
proof -
  have "server_ok (station_C ''10.0.0.1'') demo_entries" "server_ok (station_A ''10.0.0.1'') demo_entries"
    "server_ok (station_C ''localhost'') demo_entries" "server_ok (station_A ''localhost'') demo_entries"
    "service_ok (station_C ''10.0.0.1'')" "service_ok (station_A ''10.0.0.1'')"
    "service_ok (station_C ''localhost'')" "service_ok (station_A ''localhost'')"
    "get_file_mtime None \<le> latest_time (station_C ''10.0.0.1'')"
    "get_file_mtime None \<le> latest_time (station_A ''10.0.0.1'')"
    "get_file_mtime None \<le> latest_time (station_C ''localhost'')"
    "get_file_mtime None \<le> latest_time (station_A ''localhost'')"
    by code_simp+
  then show "stations_ok demo_world (demo_pair ''10.0.0.1'')" "stations_ok demo_world (demo_pair ''localhost'')"
    by (auto simp: stations_ok_def station_ok_def demo_pair_up demo_world_def)
qed

lemma demo_timeout:
  "loop_step demo_os None None (Timeout (\<lambda>_. True)) (station_C ''10.0.0.1'') =
     Inr (station_C ''10.0.0.1'', [UdpSend ''10.0.0.1'' ''4004'' (wire asked_msg)])"
  "loop_step demo_os None None (Timeout (\<lambda>_. True)) (station_C ''localhost'') =
     Inr (station_C ''localhost'', [UdpSend ''10.0.0.1'' ''4004'' (wire asked_msg)])"
  by code_simp+

lemma demo_flood_C:
  "loop_step demo_os None None (Ready (UdpData (wire asked_msg)) NoTcp) (station_C ''10.0.0.1'') =
     Inr (station_C ''10.0.0.1'', [UdpSend ''10.0.0.1'' ''4002'' (wire hop1)])"
  "loop_step demo_os None None (Ready (UdpData (wire asked_msg)) NoTcp) (station_C ''localhost'') =
     Inr (station_C ''localhost'', [UdpSend ''localhost'' ''4002'' (wire hop1)])"
  "loop_step demo_os None None (Ready (UdpData (wire hop1)) NoTcp) (station_A ''localhost'') =
     Inr (station_A ''localhost'', [UdpSend ''localhost'' ''4004'' (wire hop2)])"
  "loop_step demo_os None None (Ready (UdpData (wire hop2)) NoTcp) (station_C ''localhost'') =
     Inr (station_C ''localhost'', [UdpSend ''localhost'' ''4002'' (wire hop3)])"
  by code_simp+

lemma steady_round:
  assumes "network W n0 \<lparr>up = u, flight = F\<rparr>" and "u i = Some s" and "no_datagram sel"
    and "round_of W i sel s = Inr (s, [UdpSend h p d])"
  shows "network W n0 \<lparr>up = u, flight = add_mset (h, p, d) F\<rparr>"
proof -
  have "net_step W \<lparr>up = u, flight = F\<rparr> \<lparr>up = u(i \<mapsto> s), flight = F + datagrams [UdpSend h p d]\<rparr>"
    using net_step.idle_round [of "\<lparr>up = u, flight = F\<rparr>" i s sel W s "[UdpSend h p d]"] assms(2-4) by simp
  moreover have "u(i \<mapsto> s) = u" using assms(2) by (simp add: fun_upd_idem)
  ultimately show ?thesis using network.onward [OF assms(1)] by (simp add: datagrams_def)
qed

lemma steady_delivery:
  assumes "route W h p = Some i" and "u i = Some s"
    and "round_of W i (Ready (UdpData d) NoTcp) s = Inr (s, [UdpSend h' p' d'])"
  shows "delivery W \<lparr>up = u, flight = {#(h, p, d)#}\<rparr> \<lparr>up = u, flight = {#(h', p', d')#}\<rparr>"
proof -
  have "delivery W \<lparr>up = u, flight = {#(h, p, d)#}\<rparr>
      \<lparr>up = u(i \<mapsto> s), flight = {#(h, p, d)#} - {#(h, p, d)#} + datagrams [UdpSend h' p' d']\<rparr>"
    using delivery.hand_over [of h p d "\<lparr>up = u, flight = {#(h, p, d)#}\<rparr>" W i s NoTcp s "[UdpSend h' p' d']"]
      assms by simp
  moreover have "u(i \<mapsto> s) = u" using assms(2) by (simp add: fun_upd_idem)
  ultimately show ?thesis by (simp add: datagrams_def)
qed

lemma steady_hand_over:
  assumes "network W n0 \<lparr>up = u, flight = {#(h, p, d)#}\<rparr>" and "route W h p = Some i" and "u i = Some s"
    and "round_of W i (Ready (UdpData d) NoTcp) s = Inr (s, [UdpSend h' p' d'])"
  shows "network W n0 \<lparr>up = u, flight = {#(h', p', d')#}\<rparr>"
  using network.onward [OF assms(1) net_step.deliver] steady_delivery [of W h p i u s d, OF assms(2-4)] by blast

lemma demo_asked:
  "host = ''10.0.0.1'' \<or> host = ''localhost'' \<Longrightarrow> network demo_world (demo_pair host)
     \<lparr>up = up (demo_pair host), flight = {#(''10.0.0.1'', ''4004'', wire asked_msg)#}\<rparr>"
proof (rule steady_round [of _ _ _ _ 0 "station_C host" "Timeout (\<lambda>_. True)"])
  have "\<lparr>up = up (demo_pair host), flight = {#}\<rparr> = demo_pair host" by (simp add: demo_pair_def)
  then show "network demo_world (demo_pair host) \<lparr>up = up (demo_pair host), flight = {#}\<rparr>"
    using network.initial by metis
qed (use demo_timeout in \<open>auto simp: demo_pair_up no_datagram_def demo_world_def\<close>)

lemma demo_flooded:
  "network demo_world (demo_pair ''10.0.0.1'')
     \<lparr>up = up (demo_pair ''10.0.0.1''), flight = {#(''10.0.0.1'', ''4002'', wire hop1)#}\<rparr>"
  by (rule steady_hand_over [OF demo_asked, of _ 0 "station_C ''10.0.0.1''"])
    (simp_all add: demo_world_def demo_pair_up demo_flood_C del: loop_step_def)

lemma demo_echoed:
  "network demo_world (demo_pair ''localhost'')
     \<lparr>up = up (demo_pair ''localhost''), flight = {#(''localhost'', ''4002'', wire hop3)#}\<rparr>"
proof -
  let ?n = "\<lambda>p m. network demo_world (demo_pair ''localhost'')
    \<lparr>up = up (demo_pair ''localhost''), flight = {#(''localhost'', p, wire m)#}\<rparr>"
  have "?n ''4002'' hop1"
    by (rule steady_hand_over [OF demo_asked, of _ 0 "station_C ''localhost''"])
      (simp_all add: demo_world_def demo_pair_up demo_flood_C)
  then have "?n ''4004'' hop2"
    by (rule steady_hand_over [of _ _ _ _ _ _ 1 "station_A ''localhost''"])
      (simp_all add: demo_world_def demo_pair_up demo_flood_C)
  then show "?n ''4002'' hop3"
    by (rule steady_hand_over [of _ _ _ _ _ _ 0 "station_C ''localhost''"])
      (simp_all add: demo_world_def demo_pair_up demo_flood_C)
qed

lemma demo_carries: "carries (wire hop1) hop1" "carries (wire hop3) hop3"
proof -
  have "wf_msg hop1" "wf_msg hop3" "m_hops hop1 < MAXDATASIZE" "m_hops hop3 < MAXDATASIZE" by code_simp+
  then show "carries (wire hop1) hop1" "carries (wire hop3) hop3"
    unfolding carries_def using load_wire_cstr by blast+
qed

lemma demo_addressed: "addressed demo_world (demo_pair ''10.0.0.1'')"
proof -
  have "addr_and_port (nb (''10.0.0.1'', ''4002'')) = my_address (station_A ''10.0.0.1'')"
    "addr_and_port (nb (''10.0.0.1'', ''4004'')) = my_address (station_C ''10.0.0.1'')"
    "my_address (station_A ''10.0.0.1'') \<noteq> my_address (station_C ''10.0.0.1'')"
    "g_neighbours (station_C ''10.0.0.1'') = [nb (''10.0.0.1'', ''4002'')]"
    "g_neighbours (station_A ''10.0.0.1'') = [nb (''10.0.0.1'', ''4004'')]"
    "udp_port (nb (''10.0.0.1'', ''4002'')) = ''4002''" "udp_port (nb (''10.0.0.1'', ''4004'')) = ''4004''"
    by code_simp+
  then show ?thesis
    unfolding addressed_def by (auto simp: demo_pair_up demo_world_def split: if_splits)
qed

section \<open>Properties of the network\<close>

text \<open>C9. Deliveries run out: however the system orders, loses and interleaves the datagrams in
  flight, and whatever browsers do meanwhile, a network of stations cannot go on handing over
  datagrams for ever. Each one handed over is replaced by datagrams of smaller weight.\<close>

theorem deliveries_terminate:
  assumes "stations_ok W (f 0)"
  shows "\<exists>k. \<not> delivery W (f k) (f (Suc k))"
  using assms by (rule deliveries.stuck)

theorem deliveries_terminate_witness:
  "\<exists>f. up (f 0) = up (demo_pair ''10.0.0.1'') \<and> flight (f 0) = {#(''10.0.0.1'', ''4004'', wire asked_msg)#} \<and>
     delivery demo_world (f 0) (f 1) \<and> (\<exists>k. \<not> delivery demo_world (f k) (f (Suc k)))"
proof -
  let ?net = "\<lambda>p m. \<lparr>up = up (demo_pair ''10.0.0.1''), flight = {#(''10.0.0.1'', p, wire m)#}\<rparr>"
  let ?f = "\<lambda>k::nat. if k = 0 then ?net ''4004'' asked_msg else ?net ''4002'' hop1"
  have "delivery demo_world (?net ''4004'' asked_msg) (?net ''4002'' hop1)"
    by (rule steady_delivery [of _ _ _ 0 _ "station_C ''10.0.0.1''"])
      (simp_all add: demo_world_def demo_pair_up demo_flood_C del: loop_step_def)
  moreover have "stations_ok demo_world (?f 0)"
    using demo_stations_ok(1) by (simp add: stations_ok_def)
  then have "\<exists>k. \<not> delivery demo_world (?f k) (?f (Suc k))" by (rule deliveries_terminate)
  ultimately show ?thesis by (intro exI [of _ ?f]) simp
qed

text \<open>C10. Floods are loop-free: when every neighbour is listed under the address under which that
  station enters itself, a query in flight has not passed any station twice, has not yet passed the
  station it is handed to next, and so carries at most as many hops as there are stations.\<close>

theorem flood_loop_free:
  assumes "network W n0 n" and "flight n0 = {#}" and "stations_ok W n0" and "addressed W n0"
    and "finite (dom (up n0))" and "(h, p, d) \<in># flight n" and "carries d m" and "m_found m = 0"
  shows "distinct (m_address m) \<and> set (m_address m) \<subseteq> addresses n0 \<and> m_hops m \<le> card (addresses n0) \<and>
    (\<forall>j r. \<not> (route W h p = Some j \<and> up n j = Some r \<and> my_address r \<in> set (m_address m)))"
  using network_floods [OF assms(1-4,6-8)] card_mono [OF finite_addresses [OF assms(5)]] by auto

theorem flood_loop_free_witness:
  "distinct (m_address hop1) \<and> set (m_address hop1) \<subseteq> addresses (demo_pair ''10.0.0.1'') \<and>
   m_hops hop1 \<le> card (addresses (demo_pair ''10.0.0.1'')) \<and>
   (\<forall>j r. \<not> (route demo_world ''10.0.0.1'' ''4002'' = Some j \<and> up (demo_pair ''10.0.0.1'') j = Some r \<and>
     my_address r \<in> set (m_address hop1)))"
proof -
  have f: "flight (demo_pair ''10.0.0.1'') = {#}" by (simp add: demo_pair_def)
  have d: "finite (dom (up (demo_pair ''10.0.0.1'')))" by (simp add: demo_pair_up)
  have m: "m_found hop1 = 0" by code_simp
  show ?thesis
    using flood_loop_free [OF demo_flooded f demo_stations_ok(1) demo_addressed d _ demo_carries(1) m]
    unfolding net.select_convs by simp
qed

text \<open>The addresses the set-up scripts hand out do not match: they list neighbours as
  \<open>localhost:port\<close>, while a station enters itself under the address of its network interface. Then
  no neighbour is ever recognised as visited and two stations send a query back and forth: here it
  has left JunctionC twice.\<close>

lemma flood_echoes:
  "\<exists>n m. network demo_world (demo_pair ''localhost'') n \<and> (''localhost'', ''4002'', wire m) \<in># flight n \<and>
     carries (wire m) m \<and> m_found m = 0 \<and> m_address m = [''10.0.0.1:4004'', ''10.0.0.1:4002'', ''10.0.0.1:4004'']"
proof (intro exI conjI)
  show "m_found hop3 = 0" "m_address hop3 = [''10.0.0.1:4004'', ''10.0.0.1:4002'', ''10.0.0.1:4004'']"
    by code_simp+
  show "carries (wire hop3) hop3" by (rule demo_carries)
  show "network demo_world (demo_pair ''localhost'') \<lparr>up = up (demo_pair ''localhost''),
      flight = {#(''localhost'', ''4002'', wire hop3)#}\<rparr>" by (rule demo_echoed)
qed simp

end
