(* ===== verification/Journey.thy ===== *)
theory Journey
  imports Network
begin

text \<open>
  A query from end to end: along a path of stations that can reach each other, the query a timeout
  sends is flooded out to the destination, comes back, is filled in leg by leg on a second trip,
  is confirmed back, and is delivered to every browser that waits for it.
\<close>

section \<open>Deliveries that leave the stations as they are\<close>

lemma round_hand_over:
  assumes "get_file_mtime stat \<le> latest_time s" and "udp_handler os s d = Inr (s', ev)"
  shows "loop_step os stat file (Ready (UdpData d) NoTcp) s = Inr (s', ev)"
proof -
  have "check_update_timetable stat file (latest_time s) (g_station s) (g_timetable s) =
      Inr (g_station s, g_timetable s)"
    using assms(1) by (simp add: check_update_timetable_def)
  moreover have "s\<lparr>g_station := g_station s, g_timetable := g_timetable s\<rparr> = s" by (cases s) simp
  ultimately show ?thesis
    using assms(2) unfolding loop_step_def Let_def by (simp only: bindR_Inr prod.case) (simp add: serve_udp_def serve_tcp_def)
qed

lemma round_timeout:
  assumes "get_file_mtime stat \<le> latest_time s"
  shows "loop_step os stat file (Timeout is_open) s = timeout_walk os is_open s 0"
proof -
  have "check_update_timetable stat file (latest_time s) (g_station s) (g_timetable s) =
      Inr (g_station s, g_timetable s)"
    using assms by (simp add: check_update_timetable_def)
  moreover have "s\<lparr>g_station := g_station s, g_timetable := g_timetable s\<rparr> = s" by (cases s) simp
  ultimately show ?thesis unfolding loop_step_def Let_def by (simp only: bindR_Inr prod.case selected.case)
qed

text \<open>A station of \<open>P\<close> that is handed the datagram \<open>x\<close> stays as it is and sends \<open>y\<close>.\<close>

definition onward :: "world \<Rightarrow> net \<Rightarrow> nat set \<Rightarrow> datagram \<Rightarrow> datagram \<Rightarrow> bool" where
  "onward W n P x y \<longleftrightarrow> (\<exists>h p d i s ev h' p' t. x = (h, p, d) \<and> y = (h', p', t) \<and>
     route W h p = Some i \<and> i \<in> P \<and> up n i = Some s \<and> get_file_mtime (stat_of W i) \<le> latest_time s \<and>
     udp_handler (sys W i) s d = Inr (s, ev) \<and> UdpSend h' p' t \<in> set ev)"

lemma onward_delivery:
  assumes "onward W n P x y" and "x \<in># flight n1" and "up n1 = up n"
  shows "\<exists>n2. delivery W n1 n2 \<and> up n2 = up n \<and> y \<in># flight n2"
proof -
  obtain h p d i s ev h' p' t where o: "x = (h, p, d)" "y = (h', p', t)" "route W h p = Some i" "up n i = Some s"
    "get_file_mtime (stat_of W i) \<le> latest_time s" "udp_handler (sys W i) s d = Inr (s, ev)" "UdpSend h' p' t \<in> set ev"
    using assms(1) unfolding onward_def by blast
  let ?n2 = "\<lparr>up = (up n1)(i \<mapsto> s), flight = flight n1 - {#(h, p, d)#} + datagrams ev\<rparr>"
  have "round_of W i (Ready (UdpData d) NoTcp) s = Inr (s, ev)" by (rule round_hand_over [OF o(5,6)])
  then have "delivery W n1 ?n2" using delivery.hand_over [of h p d n1 W i s NoTcp s ev] assms(2,3) o(1,3,4) by simp
  moreover have "up ?n2 = up n" using assms(3) o(4) by (simp add: fun_upd_idem)
  moreover have "y \<in># flight ?n2" using o(2,7) by (simp add: in_datagrams)
  ultimately show ?thesis by blast
qed

lemma onward_deliveries:
  assumes "(onward W n P)\<^sup>*\<^sup>* x y" and "x \<in># flight n"
  shows "\<exists>n'. (delivery W)\<^sup>*\<^sup>* n n' \<and> up n' = up n \<and> y \<in># flight n'"
  using assms(1)
proof (induction rule: rtranclp_induct)
  case (step y z)
  then obtain n1 where n1: "(delivery W)\<^sup>*\<^sup>* n n1" "up n1 = up n" "y \<in># flight n1" by blast
  obtain n2 where "delivery W n1 n2" "up n2 = up n" "z \<in># flight n2"
    using onward_delivery [OF step.hyps(2) n1(3,2)] by blast
  then show ?case using n1(1) by (meson rtranclp.rtrancl_into_rtrancl)
qed (use assms(2) in blast)

section \<open>Paths\<close>

text \<open>The station at place \<open>j\<close> of a path of station numbers.\<close>

definition stop :: "net \<Rightarrow> (nat \<Rightarrow> nat) \<Rightarrow> nat \<Rightarrow> server" where
  "stop n is j = the (up n (is j))"

text \<open>
  Place \<open>j\<close> of the path runs with timetable \<open>E j\<close> and can be reached under the address it enters;
  only the first is called \<open>src\<close> and only the last, place \<open>k\<close>, \<open>dst\<close>.
\<close>

definition place_ok :: "world \<Rightarrow> net \<Rightarrow> (nat \<Rightarrow> nat) \<Rightarrow> (nat \<Rightarrow> entry list) \<Rightarrow> nat \<Rightarrow> string \<Rightarrow> string \<Rightarrow> nat \<Rightarrow> bool"
where
  "place_ok W n is E k src dst j \<longleftrightarrow>
     (let s = stop n is j in
      j \<le> k \<and> up n (is j) = Some s \<and> server_ok s (E j) \<and> service_ok s \<and>
      get_file_mtime (stat_of W (is j)) \<le> latest_time s \<and> benign (sys W (is j)) \<and>
      num_neighbours s = int (length (g_neighbours s)) \<and>
      route W (local_ip s) (UDP_port s) = Some (is j) \<and>
      (my_name s = src \<longleftrightarrow> j = 0) \<and> (my_name s = dst \<longleftrightarrow> j = k))"

text \<open>Each place lists the next one, under an address none of the places before it has.\<close>

definition link_ok :: "world \<Rightarrow> net \<Rightarrow> (nat \<Rightarrow> nat) \<Rightarrow> nat \<Rightarrow> bool" where
  "link_ok W n is j \<longleftrightarrow> (\<exists>nb\<in>set (g_neighbours (stop n is j)).
     route W (ip_addr nb) (udp_port nb) = Some (is (Suc j)) \<and>
     (\<forall>i<j. addr_and_port nb \<noteq> my_address (stop n is i)))"

definition path_ok :: "world \<Rightarrow> net \<Rightarrow> (nat \<Rightarrow> nat) \<Rightarrow> (nat \<Rightarrow> entry list) \<Rightarrow> nat \<Rightarrow> string \<Rightarrow> string \<Rightarrow> bool" where
  "path_ok W n is E k src dst \<longleftrightarrow>
     1 \<le> k \<and> (\<forall>j\<le>k. place_ok W n is E k src dst j) \<and> (\<forall>j<k. link_ok W n is j)"

text \<open>The query on its way out, when it arrives at each place.\<close>

fun out_msg :: "(nat \<Rightarrow> server) \<Rightarrow> msg \<Rightarrow> nat \<Rightarrow> msg" where
  "out_msg S m 0 = m"
| "out_msg S m (Suc j) = flood_msg (S j) (out_msg S m j)"

definition found_msg :: "(nat \<Rightarrow> server) \<Rightarrow> (nat \<Rightarrow> entry list) \<Rightarrow> nat \<Rightarrow> msg \<Rightarrow> msg" where
  "found_msg S E k m = arrive_msg (S k) (E k) (out_msg S m k)"

text \<open>The route with its first \<open>j\<close> legs.\<close>

fun leg_msg :: "(nat \<Rightarrow> entry list) \<Rightarrow> msg \<Rightarrow> nat \<Rightarrow> msg" where
  "leg_msg E m 0 = depart_msg (E 0) m"
| "leg_msg E m (Suc j) = fill_msg (E j) (leg_msg E m j)"

definition at_hop :: "int \<Rightarrow> msg \<Rightarrow> msg" where
  "at_hop c m = m\<lparr>m_current := c\<rparr>"

text \<open>The route that comes back to the source.\<close>

definition route_msg :: "(nat \<Rightarrow> server) \<Rightarrow> (nat \<Rightarrow> entry list) \<Rightarrow> nat \<Rightarrow> msg \<Rightarrow> msg" where
  "route_msg S E k m = (leg_msg E (at_hop 1 (found_msg S E k m)) k)\<lparr>m_found := 3\<rparr>"

text \<open>Both the sender's allocation and the receiver's buffer hold the message.\<close>

definition fits :: "msg \<Rightarrow> bool" where
  "fits m \<longleftrightarrow> length (wire m) < 183 * m_hops m + 128 \<and> length (wire m) < MAXDATASIZE"

text \<open>Every message of the journey fits.\<close>

definition journey_fits :: "(nat \<Rightarrow> server) \<Rightarrow> (nat \<Rightarrow> entry list) \<Rightarrow> nat \<Rightarrow> msg \<Rightarrow> bool" where
  "journey_fits S E k m \<longleftrightarrow>
     (\<forall>j\<le>k. fits (out_msg S m j)) \<and>
     (\<forall>c\<in>{1..k}. fits (at_hop (int c) (found_msg S E k m))) \<and>
     (\<forall>j\<in>{1..k}. fits (leg_msg E (at_hop 1 (found_msg S E k m)) j)) \<and>
     (\<forall>c\<in>{1..k}. fits (at_hop (int c) (route_msg S E k m))) \<and>
     fits ((at_hop 1 (route_msg S E k m))\<lparr>m_found := 4\<rparr>)"

text \<open>Every place but the last has a connection for its leg.\<close>

definition legs_ok :: "(nat \<Rightarrow> server) \<Rightarrow> (nat \<Rightarrow> entry list) \<Rightarrow> nat \<Rightarrow> msg \<Rightarrow> bool" where
  "legs_ok S E k m \<longleftrightarrow> (\<forall>j<k. leg_row (E j) (leg_msg E (at_hop 1 (found_msg S E k m)) j) \<noteq> - 1)"

lemma fits_sendable: "wf_msg m \<Longrightarrow> fits m \<Longrightarrow> sendable m"
  by (simp add: sendable_def fits_def)

lemma fits_hops: "fits m \<Longrightarrow> m_hops m < MAXDATASIZE"
  using hops_below_length [of m] by (simp add: fits_def)

lemma out_msg_simps [simp]:
  "m_found (out_msg S m j) = m_found m" "m_destination (out_msg S m j) = m_destination m"
  "m_source (out_msg S m j) = m_source m" "m_start_time (out_msg S m j) = m_start_time m"
  "m_hops (out_msg S m j) = m_hops m + j"
  "m_address (out_msg S m j) = m_address m @ map (\<lambda>i. my_address (S i)) [0..<j]"
  by (induction j) (simp_all add: flood_msg_def)

lemma leg_msg_simps [simp]:
  "m_found (leg_msg E m j) = 2" "m_destination (leg_msg E m j) = m_destination m"
  "m_source (leg_msg E m j) = m_source m" "m_hops (leg_msg E m j) = m_hops m"
  "m_address (leg_msg E m j) = m_address m" "m_current (leg_msg E m j) = m_current m + int j"
  by (induction j) (simp_all add: fill_msg_def Let_def m_hops_def)

declare out_msg.simps(2) [simp del] leg_msg.simps(2) [simp del]

lemma at_hop_simps [simp]:
  "m_found (at_hop c m) = m_found m" "m_destination (at_hop c m) = m_destination m"
  "m_source (at_hop c m) = m_source m" "m_start_time (at_hop c m) = m_start_time m"
  "m_hops (at_hop c m) = m_hops m" "m_address (at_hop c m) = m_address m" "m_current (at_hop c m) = c"
  "m_time (at_hop c m) = m_time m" "m_stations (at_hop c m) = m_stations m"
  by (simp_all add: at_hop_def m_hops_def)

lemma back_at_hop: "back_msg (at_hop c m) = at_hop (c - 1) m"
  by (simp add: back_msg_def at_hop_def)

lemma wf_at_hop: "wf_msg m \<Longrightarrow> in_int c \<Longrightarrow> wf_msg (at_hop c m)"
  by (simp add: at_hop_def wf_msg_def)

text \<open>An address a place entered leads back to it.\<close>

lemma addr_at_place:
  assumes "server_ok s es" and "i < m_hops m" and "m_address m ! i = my_address s"
  shows "addr_at m i (local_ip s) (UDP_port s)"
  using assms by (simp add: addr_at_def server_ok_def my_address_def)

section \<open>The query goes out\<close>

text \<open>The datagram \<open>x\<close> leads to \<open>d\<close> arriving at place \<open>j\<close>.\<close>

definition arrives :: "world \<Rightarrow> net \<Rightarrow> datagram \<Rightarrow> (nat \<Rightarrow> nat) \<Rightarrow> nat \<Rightarrow> nat \<Rightarrow> string \<Rightarrow> bool" where
  "arrives W n x is k j d \<longleftrightarrow>
     (\<exists>h p. route W h p = Some (is j) \<and> (onward W n (is ` {..k}))\<^sup>*\<^sup>* x (h, p, d))"

lemma arrives_on:
  assumes "arrives W n x is k j d" and "place_ok W n is E k src dst j"
    and "udp_handler (sys W (is j)) (stop n is j) d = Inr (stop n is j, ev)"
    and "UdpSend h p t \<in> set ev" and "route W h p = Some (is j')"
  shows "arrives W n x is k j' t"
proof -
  obtain h0 p0 where 0: "route W h0 p0 = Some (is j)" "(onward W n (is ` {..k}))\<^sup>*\<^sup>* x (h0, p0, d)"
    using assms(1) by (auto simp: arrives_def)
  moreover have "onward W n (is ` {..k}) (h0, p0, d) (h, p, t)"
    using 0(1) assms(2-4) unfolding onward_def place_ok_def Let_def by (auto intro!: imageI)
  ultimately show ?thesis unfolding arrives_def using assms(5) by (meson rtranclp.rtrancl_into_rtrancl)
qed

lemma path_place: "path_ok W n is E k src dst \<Longrightarrow> j \<le> k \<Longrightarrow> place_ok W n is E k src dst j"
  by (simp add: path_ok_def)

lemma place_server: "place_ok W n is E k src dst j \<Longrightarrow> server_ok (stop n is j) (E j)"
  by (simp add: place_ok_def Let_def)

lemma flood_event:
  "b \<in> set (g_neighbours s) \<Longrightarrow> addr_and_port b \<notin> set (m_address m) \<Longrightarrow>
   UdpSend (ip_addr b) (udp_port b) (wire (flood_msg s m)) \<in> set (flood_events s m)"
  by (auto simp: flood_events_def)

lemma reach_out:
  assumes "path_ok W n is E k src dst" and "arrives W n x is k 0 (wire m)" and "wf_msg m"
    and "m_found m = 0" and "m_hops m = 0" and "m_destination m = dst"
    and "\<forall>j\<le>k. fits (out_msg (stop n is) m j)" and "j \<le> k"
  shows "arrives W n x is k j (wire (out_msg (stop n is) m j)) \<and> wf_msg (out_msg (stop n is) m j)"
  using assms(8)
proof (induction j)
  case 0
  with assms(2,3) show ?case by simp
next
  case (Suc j)
  let ?s = "stop n is j" and ?m = "out_msg (stop n is) m j"
  have j: "j < k" "j \<le> k" using Suc.prems by simp_all
  note pl = path_place [OF assms(1) j(2)]
  have IH: "arrives W n x is k j (wire ?m)" "wf_msg ?m" using Suc.IH j(2) by blast+
  have fit: "fits ?m" "fits (flood_msg ?s ?m)" using spec [OF assms(7), of j] spec [OF assms(7), of "Suc j"] Suc.prems j(2)
    by (simp_all add: out_msg.simps(2))
  have s: "server_ok ?s (E j)" "num_neighbours ?s = int (length (g_neighbours ?s))"
    "benign (sys W (is j))" "dst \<noteq> my_name ?s"
    using pl j(1) by (auto simp: place_ok_def Let_def)
  have "msg_step ?s (E j) ?m (flood_msg ?s ?m)"
    using assms(4,6) s(4) by (intro msg_step.flood) simp_all
  then have wf: "wf_msg (flood_msg ?s ?m)"
    using msg_step_wf [OF _ IH(2) s(1)] fits_hops [OF fit(1)] by blast
  have "udp_handler (sys W (is j)) ?s (wire ?m) = Inr (?s, flood_events ?s ?m)"
    using IH(2) fit wf assms(4,6) s by (intro floods_step) (simp_all add: fits_def fits_sendable)
  moreover obtain nb where nb: "nb \<in> set (g_neighbours ?s)" "route W (ip_addr nb) (udp_port nb) = Some (is (Suc j))"
    "\<forall>i<j. addr_and_port nb \<noteq> my_address (stop n is i)"
    using assms(1) j(1) by (auto simp: path_ok_def link_ok_def)
  have "m_address m = []" using assms(3,5) by (simp add: wf_msg_def tokens_def)
  then have "addr_and_port nb \<notin> set (m_address ?m)" using nb(3) by auto
  ultimately have "arrives W n x is k (Suc j) (wire (flood_msg ?s ?m))"
    using arrives_on [OF IH(1) pl _ flood_event [OF nb(1)] nb(2)] by blast
  with wf show ?case by (simp add: out_msg.simps(2))
qed

section \<open>Back to the source\<close>

text \<open>The first \<open>k\<close> hops of \<open>m\<close> are the places of the path.\<close>

definition along :: "net \<Rightarrow> (nat \<Rightarrow> nat) \<Rightarrow> nat \<Rightarrow> msg \<Rightarrow> bool" where
  "along n is k m \<longleftrightarrow> m_hops m = Suc k \<and> (\<forall>i\<le>k. m_address m ! i = my_address (stop n is i))"

lemma along_at_hop [simp]: "along n is k (at_hop c m) = along n is k m"
  by (simp add: along_def)

lemma along_addr:
  assumes "along n is k m" and "path_ok W n is E k src dst" and "i \<le> k"
  shows "addr_at m i (local_ip (stop n is i)) (UDP_port (stop n is i))"
    and "route W (local_ip (stop n is i)) (UDP_port (stop n is i)) = Some (is i)"
  using addr_at_place [OF place_server [OF path_place [OF assms(2,3)]], where m = m] assms(1,3)
    path_place [OF assms(2,3)]
  by (auto simp: along_def place_ok_def Let_def)

lemma reach_back:
  assumes "path_ok W n is E k src dst" and "along n is k m" and "wf_msg m" and "m_found m = 1 \<or> m_found m = 3"
    and "m_source m = src" and "\<forall>c\<in>{1..k}. fits (at_hop (int c) m)"
  shows "c \<le> k \<Longrightarrow> 1 \<le> c \<Longrightarrow> arrives W n x is k (c - 1) (wire (at_hop (int c) m)) \<Longrightarrow>
    arrives W n x is k 0 (wire (at_hop 1 m))"
proof (induction c)
  case (Suc c)
  show ?case
  proof (cases c)
    case 0
    with Suc.prems show ?thesis by simp
  next
    case (Suc i)
    let ?s = "stop n is c" and ?m = "at_hop (int (Suc c)) m"
    have c: "c \<le> k" "1 \<le> c" "i \<le> k" using Suc.prems Suc by simp_all
    note pl = path_place [OF assms(1) c(1)]
    have int: "in_int (int (Suc c))" "in_int (int c)"
      using Suc.prems(1) assms(2,3) by (auto simp: in_int_def wf_msg_def along_def)
    have wf: "wf_msg ?m" "wf_msg (at_hop (int c) m)" using wf_at_hop [OF assms(3)] int by blast+
    have fit: "fits ?m" "fits (at_hop (int c) m)" using bspec [OF assms(6), of "Suc c"] bspec [OF assms(6), of c] Suc.prems(1) c by simp_all
    have b: "back_msg ?m = at_hop (int c) m" by (simp add: back_at_hop)
    note addr = along_addr [OF _ assms(1) c(3), of ?m]
    have sent: "udp_handler (sys W (is c)) ?s (wire ?m) =
        Inr (?s, [UdpSend (local_ip (stop n is i)) (UDP_port (stop n is i)) (wire (back_msg ?m))])"
    proof (rule back_step)
      show "addr_at ?m i (local_ip (stop n is i)) (UDP_port (stop n is i))"
        by (rule addr(1)) (use assms(2) in simp)
      show "sendable (back_msg ?m)" unfolding b by (rule fits_sendable [OF wf(2) fit(2)])
      show "m_source ?m \<noteq> my_name ?s" "benign (sys W (is c))"
        using pl c(2) assms(5) by (auto simp: place_ok_def Let_def)
    qed (use wf(1) fit(1) assms(4) Suc in \<open>simp_all add: fits_def\<close>)
    have "arrives W n x is k i (wire (back_msg ?m))"
      by (rule arrives_on [OF _ pl sent]) (use Suc.prems(3) addr(2) assms(2) in simp_all)
    with Suc.IH c Suc b show ?thesis by simp
  qed
qed simp

section \<open>At the destination and back at the source\<close>

lemma found_msg_simps [simp]:
  "m_found (found_msg S E k m) = 1" "m_source (found_msg S E k m) = m_source m"
  "m_destination (found_msg S E k m) = m_destination m" "m_start_time (found_msg S E k m) = m_start_time m"
  "m_hops (found_msg S E k m) = Suc (m_hops m + k)" "m_current (found_msg S E k m) = int (m_hops m + k) + 1"
  "m_address (found_msg S E k m) = m_address m @ map (\<lambda>i. my_address (S i)) [0..<Suc k]"
  by (simp_all add: found_msg_def arrive_msg_def)

lemma no_hops: "wf_msg m \<Longrightarrow> m_hops m = 0 \<Longrightarrow> m_address m = []"
  by (simp add: wf_msg_def tokens_def)

lemma found_along: "wf_msg m \<Longrightarrow> m_hops m = 0 \<Longrightarrow> along n is k (found_msg (stop n is) E k m)"
  using no_hops by (auto simp: along_def nth_append simp del: upt_Suc)

lemma path_ends:
  assumes "path_ok W n is E k src dst"
  shows "1 \<le> k" and "my_name (stop n is 0) = src" and "my_name (stop n is k) = dst"
    and "src \<noteq> my_name (stop n is k)"
  using assms path_place [OF assms, of 0] path_place [OF assms, of k]
  by (auto simp: path_ok_def place_ok_def Let_def)

lemma reach_found:
  assumes "path_ok W n is E k src dst" and "wf_msg m" and "m_found m = 0" and "m_hops m = 0"
    and "m_destination m = dst" and "m_source m = src" and "journey_fits (stop n is) E k m"
    and "arrives W n x is k k (wire (out_msg (stop n is) m k))" and "wf_msg (out_msg (stop n is) m k)"
  shows "arrives W n x is k (k - 1) (wire (at_hop (int k) (found_msg (stop n is) E k m)))"
    and "wf_msg (at_hop (int k) (found_msg (stop n is) E k m))"
proof -
  let ?s = "stop n is k" and ?m = "out_msg (stop n is) m k" and ?a = "found_msg (stop n is) E k m"
  note ends = path_ends [OF assms(1)]
  note pl = path_place [OF assms(1) order_refl]
  note s = place_server [OF pl]
  obtain i where i: "k = Suc i" "i \<le> k" using ends(1) by (cases k) auto
  have b: "back_msg (arrive_msg ?s (E k) ?m) = at_hop (int k) ?a"
    using assms(4) by (simp add: back_msg_def at_hop_def found_msg_def arrive_msg_def)
  have fit: "fits ?m" "fits (at_hop (int k) ?a)" using assms(7) ends(1) by (auto simp: journey_fits_def)
  have "msg_step ?s (E k) ?m (back_msg (arrive_msg ?s (E k) ?m))"
    using assms(3-6) ends(1,3,4) by (intro msg_step.arrive) simp_all
  from msg_step_wf [OF this assms(9) s fits_hops [OF fit(1)]]
  show wf: "wf_msg (at_hop (int k) ?a)" unfolding b .
  have "addr_at ?m i (local_ip (stop n is i)) (UDP_port (stop n is i))"
    using no_hops [OF assms(2,4)] i assms(4)
    by (intro addr_at_place [OF place_server [OF path_place [OF assms(1) i(2)]]]) (simp_all add: nth_append flood_msg_def)
  then have "udp_handler (sys W (is k)) ?s (wire ?m) =
      Inr (?s, [UdpSend (local_ip (stop n is i)) (UDP_port (stop n is i)) (wire (back_msg (arrive_msg ?s (E k) ?m)))])"
    using assms(3-6,9) fit ends i pl s wf b
    by (intro arrives_step [where i = i]) (simp_all add: fits_def place_ok_def Let_def sendable_def)
  from arrives_on [OF assms(8) pl this] along_addr(2) [OF found_along [OF assms(2,4)] assms(1) i(2)]
  show "arrives W n x is k (k - 1) (wire (at_hop (int k) ?a))"
    unfolding b using i(1) by auto
qed

section \<open>Out again, leg by leg\<close>

lemma fill_time:
  assumes "server_ok s es" and "leg_row es m \<noteq> - 1" and "m_current m = int c" and "c < length (m_time m)"
  shows "is_time (m_time (fill_msg es m) ! c)"
  using server_row(2) [OF assms(1) _ assms(2)] assms(3,4)
  by (simp add: fill_msg_def Let_def leg_row_def entry_ok_def)

lemma reach_legs:
  assumes "path_ok W n is E k src dst" and "along n is k b" and "wf_msg b" and "m_found b = 1" and "m_current b = 1"
    and "m_source b = src" and "m_destination b = dst" and "is_time (m_start_time b)"
    and "fits b" and "\<forall>j\<in>{1..k}. fits (leg_msg E b j)" and "\<forall>j<k. leg_row (E j) (leg_msg E b j) \<noteq> - 1"
    and "arrives W n x is k 0 (wire b)" and "1 \<le> j" and "j \<le> k"
  shows "arrives W n x is k j (wire (leg_msg E b j)) \<and> wf_msg (leg_msg E b j) \<and> is_time (m_time (leg_msg E b j) ! j)"
  using assms(13,14)
proof (induction j rule: dec_induct)
  case base
  let ?s = "stop n is 0"
  note ends = path_ends [OF assms(1)]
  note pl = path_place [OF assms(1), of 0]
  have s: "server_ok ?s (E 0)" "benign (sys W (is 0))" using pl by (auto simp: place_ok_def Let_def)
  have al: "along n is k b" "1 \<le> k" using assms(2) ends(1) by simp_all
  note addr = along_addr [OF al(1) assms(1) al(2)]
  have one: "leg_msg E b 1 = fill_msg (E 0) (depart_msg (E 0) b)" by (simp add: leg_msg.simps(2) [of _ _ 0, simplified])
  have fit: "fits (leg_msg E b 1)" using bspec [OF assms(10), of 1] ends(1) by simp
  have row: "leg_row (E 0) (depart_msg (E 0) b) \<noteq> - 1" using assms(11) ends(1) by fastforce
  have wfd: "wf_msg (depart_msg (E 0) b)" by (rule depart_msg_wf [OF assms(3) s(1)])
  then have wf: "wf_msg (leg_msg E b 1)"
    unfolding one using fill_msg_wf [OF _ s(1) row] assms(5) by (simp add: in_int_def)
  have "udp_handler (sys W (is 0)) ?s (wire b) =
      Inr (?s, [UdpSend (local_ip (stop n is 1)) (UDP_port (stop n is 1)) (wire (fill_msg (E 0) (depart_msg (E 0) b)))])"
    using assms(3-6,8,9) ends(2) s row addr(1) fits_sendable [OF wf fit] unfolding one
    by (intro departs_step) (simp_all add: fits_def)
  from arrives_on [OF assms(12) pl this] addr(2) have "arrives W n x is k 1 (wire (leg_msg E b 1))"
    unfolding one by auto
  moreover have "is_time (m_time (leg_msg E b 1) ! 1)"
    unfolding one using fill_time [OF s(1) row, of 1] assms(5) al wf_lens [OF wfd]
    by (simp add: along_def lens_def)
  ultimately show ?case using wf by simp
next
  case (step j)
  let ?s = "stop n is j" and ?m = "leg_msg E b j"
  have j: "j < k" "j \<le> k" "Suc j \<le> k" using step.prems by simp_all
  note pl = path_place [OF assms(1) j(2)]
  have s: "server_ok ?s (E j)" "benign (sys W (is j))" "dst \<noteq> my_name ?s"
    using pl j(1) by (auto simp: place_ok_def Let_def)
  have IH: "arrives W n x is k j (wire ?m)" "wf_msg ?m" "is_time (m_time ?m ! j)" using step.IH j(2) by blast+
  have al: "along n is k ?m" using assms(2) by (simp add: along_def)
  note addr = along_addr [OF al assms(1) j(3)]
  have fit: "fits ?m" "fits (leg_msg E b (Suc j))" using assms(10) step.hyps(1) j by auto
  have row: "leg_row (E j) ?m \<noteq> - 1" using assms(11) j(1) by blast
  have h: "in_int (m_current ?m + 1)"
    using fits_hops [OF fit(1)] al j(1) assms(5) by (simp add: in_int_def along_def)
  have wf: "wf_msg (leg_msg E b (Suc j))" using fill_msg_wf [OF IH(2) s(1) row h] by (simp add: leg_msg.simps(2))
  have "udp_handler (sys W (is j)) ?s (wire ?m) =
      Inr (?s, [UdpSend (local_ip (stop n is (Suc j))) (UDP_port (stop n is (Suc j))) (wire (fill_msg (E j) ?m))])"
    using IH fit(1) s row addr(1) fits_sendable [OF wf fit(2)] assms(5,7)
    by (intro fills_step [where i = "Suc j"]) (simp_all add: fits_def leg_msg.simps(2))
  from arrives_on [OF IH(1) pl this] addr(2) have "arrives W n x is k (Suc j) (wire (leg_msg E b (Suc j)))"
    unfolding leg_msg.simps(2) by auto
  moreover have "is_time (m_time (leg_msg E b (Suc j)) ! Suc j)"
    unfolding leg_msg.simps(2) using fill_time [OF s(1) row, of "Suc j"] assms(5) al j(1) wf_lens [OF IH(2)]
    by (simp add: along_def lens_def)
  ultimately show ?case using wf by blast
qed

lemma reach_route:
  assumes "path_ok W n is E k src dst" and "along n is k m" and "wf_msg m" and "m_found m = 2"
    and "m_current m = int k + 1" and "m_source m = src" and "m_destination m = dst" and "fits m"
    and "fits (at_hop (int k) (m\<lparr>m_found := 3\<rparr>))" and "arrives W n x is k k (wire m)"
  shows "arrives W n x is k (k - 1) (wire (at_hop (int k) (m\<lparr>m_found := 3\<rparr>)))"
proof -
  let ?s = "stop n is k" and ?r = "m\<lparr>m_found := 3\<rparr>"
  note ends = path_ends [OF assms(1)]
  note pl = path_place [OF assms(1) order_refl]
  obtain i where i: "k = Suc i" "i \<le> k" using ends(1) by (cases k) auto
  note addr = along_addr [OF assms(2,1) i(2)]
  have b: "back_msg ?r = at_hop (int k) ?r" using assms(5) by (simp add: back_msg_def at_hop_def)
  have wf: "wf_msg (at_hop (int k) ?r)"
    using assms(2,3) by (simp add: at_hop_def wf_msg_def m_hops_def along_def) (simp add: in_int_def)
  have "udp_handler (sys W (is k)) ?s (wire m) =
      Inr (?s, [UdpSend (local_ip (stop n is i)) (UDP_port (stop n is i)) (wire (back_msg ?r))])"
    using assms ends i pl addr(1) b fits_sendable [OF wf assms(9)]
    by (intro confirms_step) (simp_all add: fits_def place_ok_def Let_def)
  from arrives_on [OF assms(10) pl this] addr(2) show ?thesis unfolding b using i(1) by auto
qed

section \<open>The answer\<close>

text \<open>The query as a timeout asks it.\<close>

definition query_msg :: "string \<Rightarrow> string \<Rightarrow> string \<Rightarrow> msg" where
  "query_msg src dst t = \<lparr>m_found = 0, m_current = 0, m_stations = [], m_address = [], m_routes = [],
     m_time = [], m_destination = dst, m_source = src, m_start_time = t\<rparr>"

lemma query_msg_simps [simp]:
  "m_found (query_msg src dst t) = 0" "m_hops (query_msg src dst t) = 0"
  "m_destination (query_msg src dst t) = dst" "m_source (query_msg src dst t) = src"
  "m_start_time (query_msg src dst t) = t"
  by (simp_all add: query_msg_def m_hops_def)

lemma leg_msg_start [simp]: "m_start_time (leg_msg E m j) = m_start_time m"
  by (induction j) (simp_all add: leg_msg.simps(2) fill_msg_def Let_def)

lemma journey:
  assumes path: "path_ok W n is E k src dst" and wf: "wf_msg (query_msg src dst t)" and t: "is_time t"
    and fit: "journey_fits (stop n is) E k (query_msg src dst t)" and legs: "legs_ok (stop n is) E k (query_msg src dst t)"
  defines "r \<equiv> at_hop 1 (route_msg (stop n is) E k (query_msg src dst t))"
    and "x \<equiv> (local_ip (stop n is 0), UDP_port (stop n is 0), wire (query_msg src dst t))"
  shows "arrives W n x is k 0 (wire r) \<and> wf_msg r"
proof -
  let ?m = "query_msg src dst t" and ?S = "stop n is"
  let ?a = "found_msg ?S E k ?m"
  let ?b = "at_hop 1 ?a"
  let ?l = "leg_msg E ?b k"
  note ends = path_ends [OF path]
  have pl: "place_ok W n is E k src dst 0" by (rule path_place [OF path]) simp
  have start: "arrives W n x is k 0 (wire ?m)"
    using pl by (auto simp: arrives_def place_ok_def Let_def x_def)
  have f: "\<forall>j\<le>k. fits (out_msg ?S ?m j)" "\<forall>c\<in>{1..k}. fits (at_hop (int c) ?a)"
    "\<forall>j\<in>{1..k}. fits (leg_msg E ?b j)" "\<forall>c\<in>{1..k}. fits (at_hop (int c) (?l\<lparr>m_found := 3\<rparr>))"
    using fit by (simp_all add: journey_fits_def route_msg_def)
  have out: "arrives W n x is k k (wire (out_msg ?S ?m k))" "wf_msg (out_msg ?S ?m k)"
    using reach_out [OF path start wf _ _ _ f(1) order_refl] by simp_all
  note found = reach_found [OF path wf _ _ _ _ fit out]
  have al: "along n is k ?a" by (rule found_along [OF wf]) simp
  have wfb: "wf_msg ?b" using wf_at_hop [OF found(2), of 1] by (simp add: at_hop_def in_int_def)
  have k: "at_hop (int k) ?b = at_hop (int k) ?a" "at_hop 1 ?b = ?b" "at_hop c ?b = at_hop c ?a" for c
    by (simp_all add: at_hop_def)
  have "arrives W n x is k 0 (wire ?b)"
    using reach_back [where m = ?b and c = k, OF path _ wfb] al f(2) found(1) ends(1) unfolding k by simp
  moreover have "fits ?b" using f(2) ends(1) by force
  ultimately have l: "arrives W n x is k k (wire ?l) \<and> wf_msg ?l \<and> is_time (m_time ?l ! k)"
    using reach_legs [where b = ?b and j = k, OF path _ wfb] al f(3) legs t ends(1)
    unfolding legs_ok_def by simp
  let ?r = "?l\<lparr>m_found := 3\<rparr>"
  have all: "along n is k ?l" "along n is k ?r" using al by (simp_all add: along_def)
  have wfr: "wf_msg ?r" using l by (simp add: wf_msg_def m_hops_def) (simp add: in_int_def)
  have "fits ?l" "fits (at_hop (int k) ?r)" using f(3,4) ends(1) by simp_all
  then have "arrives W n x is k (k - 1) (wire (at_hop (int k) ?r))"
    using l all(1) by (intro reach_route [OF path]) simp_all
  then have "arrives W n x is k 0 (wire (at_hop 1 ?r))"
    using reach_back [OF path all(2) wfr _ _ f(4), of k] ends(1) by simp
  moreover have "wf_msg (at_hop 1 ?r)" by (rule wf_at_hop [OF wfr]) (simp add: in_int_def)
  ultimately show ?thesis by (simp add: r_def route_msg_def)
qed

lemma answer_fits:
  assumes "1 \<le> k" and "wf_msg (at_hop 1 (route_msg S E k m))" and "journey_fits S E k m"
  shows "length (wire (at_hop 1 (route_msg S E k m))) < MAXDATASIZE"
    and "sendable ((at_hop 1 (route_msg S E k m))\<lparr>m_found := 4\<rparr>)"
proof -
  let ?r = "at_hop 1 (route_msg S E k m)"
  have fit: "fits ?r" "fits (?r\<lparr>m_found := 4\<rparr>)"
    using assms(1,3) unfolding journey_fits_def by force+
  have "wf_msg (?r\<lparr>m_found := 4\<rparr>)"
    using assms(2) by (simp add: wf_msg_def m_hops_def) (simp add: in_int_def)
  then show "sendable (?r\<lparr>m_found := 4\<rparr>)" using fit(2) by (rule fits_sendable)
  show "length (wire ?r) < MAXDATASIZE" using fit(1) by (simp add: fits_def)
qed

text \<open>From the query in flight to the answer.\<close>

lemma flooded_query_answered:
  assumes "path_ok W n is E k src dst" and "wf_msg (query_msg src dst t)" and "is_time t"
    and "journey_fits (stop n is) E k (query_msg src dst t)" and "legs_ok (stop n is) E k (query_msg src dst t)"
    and "(local_ip (stop n is 0), UDP_port (stop n is 0), wire (query_msg src dst t)) \<in># flight n"
    and "ring_has (clients (stop n is 0)) (dst, t)"
  shows "let s = stop n is 0; r = at_hop 1 (route_msg (stop n is) E k (query_msg src dst t)); q = asked dst t in
    (\<exists>n' h p. (delivery W)\<^sup>*\<^sup>* n n' \<and> up n' = up n \<and> route W h p = Some (is 0) \<and> (h, p, wire r) \<in># flight n') \<and>
    udp_handler (sys W (is 0)) s (wire r) = Inr (s\<lparr>clients := drop_waiting q (clients s)\<rparr>,
      concat (map (\<lambda>f. [TcpSend f (wire (r\<lparr>m_found := 4\<rparr>)), TcpClose f]) (waiting (clients s) q)))"
proof -
  let ?s = "stop n is 0" and ?r = "at_hop 1 (route_msg (stop n is) E k (query_msg src dst t))"
  let ?x = "(local_ip ?s, UDP_port ?s, wire (query_msg src dst t))"
  have j: "arrives W n ?x is k 0 (wire ?r)" "wf_msg ?r" using journey [OF assms(1-5)] by simp_all
  then have run: "\<exists>n' h p. (delivery W)\<^sup>*\<^sup>* n n' \<and> up n' = up n \<and> route W h p = Some (is 0) \<and>
      (h, p, wire ?r) \<in># flight n'"
    using onward_deliveries [OF _ assms(6)] unfolding arrives_def by blast
  have pl: "place_ok W n is E k src dst 0" by (rule path_place [OF assms(1)]) simp
  have r: "m_found ?r = 3" "m_source ?r = src" "m_destination ?r = dst" "m_start_time ?r = t"
    by (simp_all add: route_msg_def)
  note fit = answer_fits [OF path_ends(1) [OF assms(1)] j(2) assms(4)]
  have s: "service_ok ?s" "src = my_name ?s" using pl by (auto simp: place_ok_def Let_def)
  have ring: "ring_has (clients ?s) (m_destination ?r, m_start_time ?r)" using assms(7) r by simp
  from answers_step [OF s(1) j(2) fit(1) r(1) _ fit(2) ring, of "sys W (is 0)"] r(2-4) s(2) run
  show ?thesis unfolding Let_def by auto
qed

section \<open>The timeout starts it\<close>

text \<open>What a path needs of the network are its stations, not what is in flight.\<close>

lemma stop_up: "up n' = up n \<Longrightarrow> stop n' is = stop n is"
  by (simp add: stop_def fun_eq_iff)

lemma path_ok_up:
  assumes "up n' = up n"
  shows "path_ok W n' is E k src dst = path_ok W n is E k src dst"
  by (simp only: path_ok_def place_ok_def link_ok_def stop_up [OF assms] assms)

lemma query_asked:
  assumes "path_ok W n is E k src dst" and "c \<in> set (head_client (clients (stop n is 0)))"
    and "\<forall>c\<in>set (head_client (clients (stop n is 0))). ask_fits (stop n is 0) (c_query c)"
    and "q_destination (c_query c) = dst" and "q_start_time (c_query c) = t"
  shows "\<exists>n1. net_step W n n1 \<and> up n1 = up n \<and>
    (local_ip (stop n is 0), UDP_port (stop n is 0), wire (query_msg src dst t)) \<in># flight n1"
proof -
  let ?s = "stop n is 0" and ?sel = "Timeout (\<lambda>_. True)"
  have pl: "up n (is 0) = Some ?s" "service_ok ?s" "benign (sys W (is 0))" "src = my_name ?s"
    "get_file_mtime (stat_of W (is 0)) \<le> latest_time ?s"
    using path_place [OF assms(1), of 0] by (auto simp: place_ok_def Let_def)
  define ev where "ev = map (ask_event ?s) (head_client (clients ?s))"
  have "timeout_walk (sys W (is 0)) (\<lambda>_. True) ?s 0 = Inr (?s, ev)"
    using timeout_walk_asks [of ?s "sys W (is 0)" "\<lambda>_. True" 0] pl(2,3) assms(3)
    by (simp add: service_ok_def ev_def)
  then have "round_of W (is 0) ?sel ?s = Inr (?s, ev)"
    using round_timeout [OF pl(5)] by simp
  then have "net_step W n \<lparr>up = (up n)(is 0 \<mapsto> ?s), flight = flight n + datagrams ev\<rparr>"
    by (rule net_step.idle_round [OF pl(1), rotated]) (simp add: no_datagram_def)
  moreover have "(up n)(is 0 \<mapsto> ?s) = up n" using pl(1) by (simp add: fun_upd_idem)
  moreover have "ask_event ?s c = UdpSend (local_ip ?s) (UDP_port ?s) (wire (query_msg src dst t))"
    using assms(4,5) pl(4) by (simp add: ask_event_def ask_msg_def query_msg_def)
  then have "(local_ip ?s, UDP_port ?s, wire (query_msg src dst t)) \<in># datagrams ev"
    using assms(2) by (auto simp: in_datagrams ev_def image_iff intro: bexI [of _ c])
  ultimately show ?thesis by (intro exI [of _ "\<lparr>up = up n, flight = flight n + datagrams ev\<rparr>"]) simp
qed

section \<open>Two stations, end to end\<close>

definition demo_line :: net where
  "demo_line = \<lparr>up =
     [0 \<mapsto> station_C ''10.0.0.1'',
      1 \<mapsto> (station_A ''10.0.0.1'')\<lparr>g_station := demo_station\<lparr>station_name := ''TerminalR''\<rparr>\<rparr>],
     flight = {#}\<rparr>"

definition demo_stop :: "nat \<Rightarrow> server" where
  "demo_stop j = (if j = 0 then station_C ''10.0.0.1''
     else (station_A ''10.0.0.1'')\<lparr>g_station := demo_station\<lparr>station_name := ''TerminalR''\<rparr>\<rparr>)"

lemma demo_line_up: "j \<le> 1 \<Longrightarrow> up demo_line j = Some (demo_stop j)" "j \<le> 1 \<Longrightarrow> stop demo_line (\<lambda>j. j) j = demo_stop j"
  by (cases j; simp add: demo_line_def demo_stop_def stop_def)+

lemma demo_line_path:
  "path_ok demo_world demo_line (\<lambda>j. j) (\<lambda>_. demo_entries) 1 ''JunctionC'' ''TerminalR''"
proof -
  have c0: "server_ok (demo_stop 0) demo_entries" "service_ok (demo_stop 0)"
    "get_file_mtime None \<le> latest_time (demo_stop 0)"
    "num_neighbours (demo_stop 0) = int (length (g_neighbours (demo_stop 0)))"
    "UDP_port (demo_stop 0) = ''4004''" "my_name (demo_stop 0) = ''JunctionC''" by code_simp+
  have c1: "server_ok (demo_stop 1) demo_entries" "service_ok (demo_stop 1)"
    "get_file_mtime None \<le> latest_time (demo_stop 1)"
    "num_neighbours (demo_stop 1) = int (length (g_neighbours (demo_stop 1)))"
    "UDP_port (demo_stop 1) = ''4002''" "my_name (demo_stop 1) = ''TerminalR''" by code_simp+
  let ?ok = "place_ok demo_world demo_line (\<lambda>j. j) (\<lambda>_. demo_entries) 1 ''JunctionC'' ''TerminalR''"
  have "?ok 0" "?ok 1"
    using c0 c1 demo_line_up [of 0] demo_line_up [of 1] demo_benign
    by (simp_all add: place_ok_def Let_def demo_world_def)
  then have "?ok j" if "j \<le> 1" for j using that by (cases j) auto
  moreover have nbs: "g_neighbours (demo_stop 0) = [nb (''10.0.0.1'', ''4002'')]"
    "udp_port (nb (''10.0.0.1'', ''4002'')) = ''4002''" by code_simp+
  then have "link_ok demo_world demo_line (\<lambda>j. j) 0"
    by (simp add: link_ok_def demo_line_up demo_world_def)
  ultimately show ?thesis by (simp add: path_ok_def)
qed

text \<open>The messages of this journey: asked, arrived, and with the leg filled in.\<close>

definition demo_query_msg :: msg where "demo_query_msg = query_msg ''JunctionC'' ''TerminalR'' ''05:30''"

definition demo_trip :: "int \<Rightarrow> int \<Rightarrow> string \<Rightarrow> msg" where
  "demo_trip f c t0 = \<lparr>m_found = f, m_current = c, m_stations = [''JunctionC'', ''TerminalR''],
     m_address = [''10.0.0.1:4004'', ''10.0.0.1:4002''], m_routes = [''...'', ''busC_R''],
     m_time = [t0, ''06:13''], m_destination = ''TerminalR'', m_source = ''JunctionC'', m_start_time = ''05:30''\<rparr>"

lemma demo_trip_found: "found_msg demo_stop (\<lambda>_. demo_entries) 1 demo_query_msg = demo_trip 1 2 ''...''"
  by code_simp

lemma demo_trip_depart: "depart_msg demo_entries (demo_trip 1 1 ''...'') = demo_trip 2 1 ''06:02''"
  by code_simp

lemma demo_trip_leg: "fill_msg demo_entries (demo_trip 2 1 ''06:02'') = demo_trip 2 2 ''06:02''"
  by code_simp

lemma demo_trip_at: "at_hop c (demo_trip f c' t0) = demo_trip f c t0"
  "(demo_trip f c t0)\<lparr>m_found := f'\<rparr> = demo_trip f' c t0"
  by (simp_all add: at_hop_def demo_trip_def)

lemma demo_legs:
  "leg_msg (\<lambda>_. demo_entries) (demo_trip 1 1 ''...'') 1 = demo_trip 2 2 ''06:02''"
  "leg_msg (\<lambda>_. demo_entries) (demo_trip 1 1 ''...'') 0 = demo_trip 2 1 ''06:02''"
  using demo_trip_depart demo_trip_leg by (simp_all add: leg_msg.simps(2) [of _ _ 0, simplified])

lemma demo_route_msg: "route_msg demo_stop (\<lambda>_. demo_entries) 1 demo_query_msg = demo_trip 3 2 ''06:02''"
  unfolding route_msg_def demo_trip_found demo_trip_at demo_legs(1) ..

lemma demo_wf_ask: "wf_msg demo_query_msg"
  by code_simp

lemma demo_fits: "journey_fits demo_stop (\<lambda>_. demo_entries) 1 demo_query_msg"
proof -
  have "fits demo_query_msg" "fits (flood_msg (demo_stop 0) demo_query_msg)" "fits (demo_trip 1 1 ''...'')"
    "fits (demo_trip 2 2 ''06:02'')" "fits (demo_trip 3 1 ''06:02'')" "fits (demo_trip 4 1 ''06:02'')"
    by code_simp+
  moreover have "out_msg demo_stop demo_query_msg (Suc 0) = flood_msg (demo_stop 0) demo_query_msg"
    by (simp add: out_msg.simps(2))
  then have "out_msg demo_stop demo_query_msg j = demo_query_msg \<or>
      out_msg demo_stop demo_query_msg j = flood_msg (demo_stop 0) demo_query_msg" if "j \<le> 1" for j
    using that by (cases j) auto
  ultimately show ?thesis
    unfolding journey_fits_def demo_trip_found demo_route_msg demo_trip_at
    using demo_legs(1) by (metis atLeastAtMost_singleton of_nat_1 singletonD)
qed

lemma demo_legs_ok: "legs_ok demo_stop (\<lambda>_. demo_entries) 1 demo_query_msg"
proof -
  have "leg_row demo_entries (demo_trip 2 1 ''06:02'') \<noteq> - 1" by code_simp
  then show ?thesis
    unfolding legs_ok_def demo_trip_found demo_trip_at using demo_legs(2) by simp
qed

lemma demo_ring: "ring_has (clients (demo_stop 0)) (''TerminalR'', ''05:30'')"
  by code_simp

text \<open>What the journey of this query needs of the two stations.\<close>

lemma demo_line_journey:
  "route_msg (stop demo_line (\<lambda>j. j)) (\<lambda>_. demo_entries) 1 demo_query_msg = demo_trip 3 2 ''06:02''"
  "journey_fits (stop demo_line (\<lambda>j. j)) (\<lambda>_. demo_entries) 1 demo_query_msg"
  "legs_ok (stop demo_line (\<lambda>j. j)) (\<lambda>_. demo_entries) 1 demo_query_msg"
proof -
  let ?is = "\<lambda>j::nat. j" and ?E = "\<lambda>_::nat. demo_entries"
  have stop: "stop demo_line ?is j = demo_stop j" if "j \<le> 1" for j using demo_line_up(2) [OF that] .
  have "out_msg (stop demo_line ?is) demo_query_msg j = out_msg demo_stop demo_query_msg j" if "j \<le> 1" for j
    using that stop by (cases j) (auto simp: out_msg.simps(2))
  then have f: "found_msg (stop demo_line ?is) ?E 1 demo_query_msg = found_msg demo_stop ?E 1 demo_query_msg"
    and o: "\<forall>j\<le>1. out_msg (stop demo_line ?is) demo_query_msg j = out_msg demo_stop demo_query_msg j"
    using stop by (simp_all add: found_msg_def)
  show r: "route_msg (stop demo_line ?is) ?E 1 demo_query_msg = demo_trip 3 2 ''06:02''"
    using demo_route_msg f by (simp add: route_msg_def)
  show "journey_fits (stop demo_line ?is) ?E 1 demo_query_msg"
    using demo_fits o f r demo_route_msg by (simp add: journey_fits_def)
  show "legs_ok (stop demo_line ?is) ?E 1 demo_query_msg"
    using demo_legs_ok f by (simp add: legs_ok_def)
qed

lemma demo_line_start: "stop demo_line (\<lambda>j. j) 0 = demo_stop 0" "is_time ''05:30''"
  "\<lparr>fd = 7, c_query = asked ''TerminalR'' ''05:30''\<rparr> \<in> set (head_client (clients (demo_stop 0)))"
  "local_ip (demo_stop 0) = ''10.0.0.1''" "UDP_port (demo_stop 0) = ''4004''"
  using demo_line_up(2) [of 0] by simp code_simp+

section \<open>From the timeout to the answer\<close>

text \<open>A query is answered: if the stations along some path are up, list each other under addresses
  that lead to them and have a connection for every leg, and a browser waits at the first for the
  last, then the network can run, from a timeout on, so that the query comes back as a confirmed route, with
  every leg filled in, and on that message the station sends the answer to every browser that waits for
  it, this one among them, and closes their connections. No station changes its state before that.\<close>

lemma query_answered:
  assumes "path_ok W n is E k src dst" and "wf_msg (query_msg src dst t)" and "is_time t"
    and "journey_fits (stop n is) E k (query_msg src dst t)" and "legs_ok (stop n is) E k (query_msg src dst t)"
    and "c \<in> set (head_client (clients (stop n is 0)))" and "c_query c = asked dst t"
    and "\<forall>c\<in>set (head_client (clients (stop n is 0))). ask_fits (stop n is 0) (c_query c)"
    and "ring_has (clients (stop n is 0)) (dst, t)"
  shows "let s = stop n is 0; r = at_hop 1 (route_msg (stop n is) E k (query_msg src dst t)); q = asked dst t in
    (\<exists>n' h p. (net_step W)\<^sup>*\<^sup>* n n' \<and> up n' = up n \<and> route W h p = Some (is 0) \<and> (h, p, wire r) \<in># flight n') \<and>
    fd c \<in> set (waiting (clients s) q) \<and>
    udp_handler (sys W (is 0)) s (wire r) = Inr (s\<lparr>clients := drop_waiting q (clients s)\<rparr>,
      concat (map (\<lambda>f. [TcpSend f (wire (r\<lparr>m_found := 4\<rparr>)), TcpClose f]) (waiting (clients s) q)))"
proof -
  obtain n1 where n1: "net_step W n n1" "up n1 = up n"
    "(local_ip (stop n is 0), UDP_port (stop n is 0), wire (query_msg src dst t)) \<in># flight n1"
    using query_asked [OF assms(1,6,8), of t] assms(7) by (auto simp: asked_def)
  have fd: "fd c \<in> set (waiting (clients (stop n is 0)) (asked dst t))"
    using assms(6,7) by (auto simp: waiting_def same_query_def)
  have path: "path_ok W n1 is E k src dst" using assms(1) path_ok_up [OF n1(2)] by simp
  note answered = flooded_query_answered [OF path assms(2,3), unfolded stop_up [OF n1(2)] n1(2),
      OF assms(4,5) n1(3) assms(9), unfolded Let_def]
  have "(net_step W)\<^sup>*\<^sup>* n n'" if "(delivery W)\<^sup>*\<^sup>* n1 n'" for n'
    using that by (induction rule: rtranclp_induct) (use n1(1) net_step.deliver in \<open>auto intro: rtranclp.rtrancl_into_rtrancl\<close>)
  with answered fd show ?thesis unfolding Let_def by blast
qed

end
