(* ===== verification/Liveness.thy ===== *)
theory Liveness
  imports Journey
begin

text \<open>
  A query along a path of stations is not only answerable, it is answered: in every run of the
  network that goes on for as long as it can, in which the path's stations stay up and no datagram
  to them is lost, the browser gets a confirmed route. The other stations may do what they like:
  go down, lose datagrams, send other queries and garbage.
\<close>

section \<open>Progress\<close>

text \<open>
  When a predicate stays true at every step until the goal is reached, and a step is possible
  while it holds, then a run that does not stop early reaches the goal, because the flight shrinks.
\<close>

locale progress = shrinking_flight step flying heft ok
  for step :: "'n \<Rightarrow> 'n \<Rightarrow> bool" and flying :: "'n \<Rightarrow> 'd multiset" and heft :: "'d \<Rightarrow> nat" and ok :: "'n \<Rightarrow> bool" +
  fixes track :: "'n \<Rightarrow> bool" and goal :: "'n \<Rightarrow> 'n \<Rightarrow> bool"
  assumes track_ok: "track n \<Longrightarrow> ok n"
    and track_step: "track n \<Longrightarrow> step n n' \<Longrightarrow> goal n n' \<or> track n'"
    and track_moves: "track n \<Longrightarrow> \<exists>n'. step n n'"
begin

lemma reaches_goal:
  assumes "track (f 0)" and "\<And>k. step (f k) (f (Suc k)) \<or> f (Suc k) = f k \<and> (\<nexists>n'. step (f k) n')"
  shows "\<exists>k. goal (f k) (f (Suc k))"
proof (rule ccontr)
  assume never: "\<nexists>k. goal (f k) (f (Suc k))"
  have moves: "step (f k) (f (Suc k))" if "track (f k)" for k
    using assms(2) track_moves [OF that] by blast
  have "track (f k)" for k
  proof (induction k)
    case (Suc k)
    with track_step [OF Suc.IH moves] never show ?case by blast
  qed (rule assms(1))
  with moves stuck [of f] track_ok show False by blast
qed

end

section \<open>Deliveries that spare a set of stations\<close>

text \<open>The stations of \<open>P\<close> get their datagrams and do not go down. No browser connects meanwhile.\<close>

inductive sparing :: "world \<Rightarrow> nat set \<Rightarrow> net \<Rightarrow> net \<Rightarrow> bool" for W P n where
  handed: "(h, p, d) \<in># flight n \<Longrightarrow> route W h p = Some i \<Longrightarrow> up n i = Some s \<Longrightarrow>
    round_of W i (Ready (UdpData d) NoTcp) s = Inr (s', ev) \<Longrightarrow>
    sparing W P n \<lparr>up = (up n)(i \<mapsto> s'), flight = flight n - {#(h, p, d)#} + datagrams ev\<rparr>"
| downed: "(h, p, d) \<in># flight n \<Longrightarrow> route W h p = Some i \<Longrightarrow> i \<notin> P \<Longrightarrow> up n i = Some s \<Longrightarrow>
    round_of W i (Ready (UdpData d) NoTcp) s = Inl e \<Longrightarrow>
    sparing W P n \<lparr>up = (up n)(i := None), flight = flight n - {#(h, p, d)#}\<rparr>"
| lost: "(h, p, d) \<in># flight n \<Longrightarrow> (\<forall>i\<in>P. route W h p \<noteq> Some i) \<Longrightarrow>
    sparing W P n (n\<lparr>flight := flight n - {#(h, p, d)#}\<rparr>)"

lemma sparing_delivery: "sparing W P n n' \<Longrightarrow> delivery W n n'"
  by (induction rule: sparing.induct) (blast intro: delivery.intros)+

text \<open>A run that stops only when no step is left.\<close>

definition full_run :: "world \<Rightarrow> nat set \<Rightarrow> (nat \<Rightarrow> net) \<Rightarrow> bool" where
  "full_run W P f \<longleftrightarrow>
     (\<forall>k. sparing W P (f k) (f (Suc k)) \<or> f (Suc k) = f k \<and> (\<nexists>n'. sparing W P (f k) n'))"

section \<open>What the handler does with the browsers\<close>

text \<open>A text that answers the query for \<open>dst\<close> at \<open>t\<close>: what \<open>craft_payload\<close> prints for a route that is found.\<close>

definition answer_text :: "string \<Rightarrow> string \<Rightarrow> string \<Rightarrow> bool" where
  "answer_text dst t x \<longleftrightarrow>
     (\<exists>p. craft_payload p = Inr x \<and> found p = 4 \<and> destination p = dst \<and> start_time p = t)"

lemma udp_finish_answers:
  assumes "udp_finish s p = Inr (s', ev)" and "service_ok s" and "found p = 4"
  shows "\<exists>q x. answer_text (q_destination q) (q_start_time q) x \<and>
    s' = s\<lparr>clients := drop_waiting q (clients s)\<rparr> \<and>
    ev = concat (map (\<lambda>f. [TcpSend f x, TcpClose f]) (waiting (clients s) q))"
proof -
  from assms(1) obtain x where x: "craft_payload p = Inr x"
    by (auto simp: udp_finish_def elim!: bindR_InrE)
  with assms(1) obtain qs where qs: "search_query (destination p) (start_time p) (clients s) = Some qs"
    by (auto simp: udp_finish_def split: option.splits)
  have d: "distinct (fds_of (clients s))" using assms(2) by (simp add: service_ok_def distinct_fds)
  have "q_answers (hd qs) = []"
    using assms(2) search_query_Some(2) [OF qs] by (simp add: service_ok_def unanswered_def)
  with assms(1) x qs serve_clients_spec [OF d] have
    "s' = s\<lparr>clients := drop_waiting ((hd qs)\<lparr>q_answers := x\<rparr>) (clients s)\<rparr>"
    "ev = answer_events (clients s) ((hd qs)\<lparr>q_answers := x\<rparr>)"
    by (auto simp: udp_finish_def Let_def fit_Inr_iff simp del: MAXDATASIZE_def elim!: bindR_InrE)
  moreover have "answer_text (q_destination (hd qs)) (q_start_time (hd qs)) x"
    using x assms(3) search_query_Some(3,4) [OF qs] by (auto simp: answer_text_def)
  ultimately show ?thesis
    by (intro exI [of _ "(hd qs)\<lparr>q_answers := x\<rparr>"] exI [of _ x]) (simp add: answer_events_def)
qed

lemma udp_dispatch_other:
  assumes "udp_dispatch os s p = Inr (s', ev)" and "found p \<noteq> 4"
  shows "s' = s"
  using assms by (auto simp: udp_dispatch_def udp_return_def udp_fill_def udp_backtrace_def udp_flood_def
      split: if_splits elim!: bindR_InrE)

lemma udp_handler_answers:
  assumes "udp_handler os s d = Inr (s', ev)" and "service_ok s"
  shows "s' = s \<or> (\<exists>q x. answer_text (q_destination q) (q_start_time q) x \<and>
    s' = s\<lparr>clients := drop_waiting q (clients s)\<rparr> \<and>
    ev = concat (map (\<lambda>f. [TcpSend f x, TcpClose f]) (waiting (clients s) q)))"
proof -
  obtain p where p: "udp_dispatch os s p = Inr (s', ev)"
    using assms(1) by (auto simp only: udp_handler_def elim!: bindR_InrE)
  show ?thesis
  proof (cases "found p = 4")
    case True
    with p have "udp_finish s p = Inr (s', ev)" by (simp add: udp_dispatch_def)
    from udp_finish_answers [OF this assms(2) True] show ?thesis by blast
  next
    case False
    from udp_dispatch_other [OF p this] show ?thesis by blast
  qed
qed

text \<open>Only the finishing phase looks at the browsers, and it sends no datagram.\<close>

lemma append_hop_clients [simp]: "append_hop (s\<lparr>clients := cs\<rparr>) r t p = append_hop s r t p"
  by (cases s) (simp add: append_hop_def my_address_def my_name_def cong: if_cong)

lemma source_found_clients [simp]: "source_found (s\<lparr>clients := cs\<rparr>) p = source_found s p"
  by (cases s) (simp add: source_found_def cong: if_cong)

lemma fill_leg_clients [simp]: "fill_leg (s\<lparr>clients := cs\<rparr>) p = fill_leg s p"
  by (cases s) (simp add: fill_leg_def cong: if_cong)

lemma flood_one_clients [simp]: "flood_one os (s\<lparr>clients := cs\<rparr>) = flood_one os s"
  by (cases s) (simp add: flood_one_def nb_at_def fun_eq_iff)

lemma at_destination_clients [simp]: "udp_at_destination (s\<lparr>clients := cs\<rparr>) p = udp_at_destination s p"
  by (simp add: udp_at_destination_def my_name_def cong: if_cong)

lemma at_source_clients [simp]: "udp_at_source (s\<lparr>clients := cs\<rparr>) p = udp_at_source s p"
  by (simp add: udp_at_source_def my_name_def cong: if_cong)

lemma dispatch_clients:
  assumes "udp_dispatch os s p = Inr (s', ev)" and "found p \<noteq> 4"
  shows "udp_dispatch os (s\<lparr>clients := cs\<rparr>) p = Inr (s\<lparr>clients := cs\<rparr>, ev)"
  using assms
  by (auto simp: udp_dispatch_def udp_return_def udp_fill_def udp_backtrace_def udp_flood_def
      split: if_splits elim!: bindR_InrE)

lemma handler_any_clients:
  assumes "udp_handler os s d = Inr (s', ev)" and "UdpSend h p t \<in> set ev"
  shows "udp_handler os (s\<lparr>clients := cs\<rparr>) d = Inr (s\<lparr>clients := cs\<rparr>, ev)"
proof -
  let ?b = "take MAXDATASIZE d"
  obtain u p0 p1 p2 where p: "checkR (length ?b < MAXDATASIZE) OutOfBounds = Inr u"
    "load_payload (cstr ?b) = Inr p0" "udp_at_destination s p0 = Inr p1" "udp_at_source s p1 = Inr p2"
    "udp_dispatch os s p2 = Inr (s', ev)"
    using assms(1) by (auto simp only: udp_handler_def elim!: bindR_InrE)
  have "found p2 \<noteq> 4"
  proof
    assume "found p2 = 4"
    with p(5) have "udp_finish s p2 = Inr (s', ev)" by (simp add: udp_dispatch_def)
    with sends_onlyD [OF udp_finish_sends assms(2)] show False by blast
  qed
  from dispatch_clients [OF p(5) this] p(1-4) show ?thesis
    by (simp add: udp_handler_def del: MAXDATASIZE_def)
qed

lemma round_handler:
  assumes "get_file_mtime stat \<le> latest_time s"
  shows "loop_step os stat file (Ready (UdpData d) NoTcp) s = udp_handler os s d"
proof (cases "udp_handler os s d")
  case (Inr r)
  then show ?thesis using round_hand_over [OF assms, of os d "fst r" "snd r"] by simp
next
  case (Inl e)
  have "check_update_timetable stat file (latest_time s) (g_station s) (g_timetable s) =
      Inr (g_station s, g_timetable s)"
    using assms by (simp add: check_update_timetable_def)
  moreover have "s\<lparr>g_station := g_station s, g_timetable := g_timetable s\<rparr> = s" by (cases s) simp
  ultimately show ?thesis
    unfolding loop_step_def Let_def by (simp only: bindR_Inr prod.case) (simp add: serve_udp_def Inl)
qed

section \<open>On track\<close>

text \<open>The datagram \<open>z\<close> is the confirmed route that answers the browser \<open>c\<close> of station \<open>i\<close>.\<close>

definition confirmed :: "world \<Rightarrow> net \<Rightarrow> nat \<Rightarrow> client_node \<Rightarrow> datagram \<Rightarrow> bool" where
  "confirmed W n i c z \<longleftrightarrow> (\<exists>h p m s. z = (h, p, wire m) \<and> route W h p = Some i \<and> up n i = Some s \<and>
     wf_msg m \<and> length (wire m) < MAXDATASIZE \<and> m_found m = 3 \<and> m_source m = my_name s \<and>
     sendable (m\<lparr>m_found := 4\<rparr>) \<and> m_destination m = q_destination (c_query c) \<and>
     m_start_time m = q_start_time (c_query c))"

definition waits :: "net \<Rightarrow> nat \<Rightarrow> client_node \<Rightarrow> bool" where
  "waits n i c \<longleftrightarrow> (\<exists>s. up n i = Some s \<and> c \<in> set (head_client (clients s)) \<and>
     ring_has (clients s) (q_destination (c_query c), q_start_time (c_query c)))"

text \<open>The stations of \<open>P\<close> differ from what they were only in their browsers.\<close>

definition alike :: "nat set \<Rightarrow> net \<Rightarrow> net \<Rightarrow> bool" where
  "alike P n n' \<longleftrightarrow> (\<forall>j\<in>P. \<exists>s cs. up n j = Some s \<and> up n' j = Some (s\<lparr>clients := cs\<rparr>))"

text \<open>While the browser waits, a datagram that leads to its answer is in flight.\<close>

definition tracked :: "world \<Rightarrow> nat set \<Rightarrow> net \<Rightarrow> nat \<Rightarrow> client_node \<Rightarrow> datagram \<Rightarrow> net \<Rightarrow> bool" where
  "tracked W P n0 i c z n \<longleftrightarrow> stations_ok W n \<and> alike P n0 n \<and> i \<in> P \<and> confirmed W n0 i c z \<and> waits n i c \<and>
     (\<exists>x. (onward W n0 P)\<^sup>*\<^sup>* x z \<and> x \<in># flight n)"

text \<open>The step from \<open>n\<close> to \<open>n'\<close> answers the browser: it is sent the text and its connection is closed.\<close>

definition answered :: "world \<Rightarrow> nat \<Rightarrow> client_node \<Rightarrow> net \<Rightarrow> net \<Rightarrow> bool" where
  "answered W i c n n' \<longleftrightarrow> (\<exists>h p d s s' ev x. (h, p, d) \<in># flight n \<and> route W h p = Some i \<and> up n i = Some s \<and>
     round_of W i (Ready (UdpData d) NoTcp) s = Inr (s', ev) \<and>
     n' = \<lparr>up = (up n)(i \<mapsto> s'), flight = flight n - {#(h, p, d)#} + datagrams ev\<rparr> \<and>
     answer_text (q_destination (c_query c)) (q_start_time (c_query c)) x \<and>
     TcpSend (fd c) x \<in> set ev \<and> TcpClose (fd c) \<in> set ev)"

lemma confirmed_here:
  assumes "confirmed W n i c (h, p, d)" and "alike P n n'" and "i \<in> P" and "waits n' i c"
    and "stations_ok W n'"
  shows "route W h p = Some i \<and> (\<exists>s ev. up n' i = Some s \<and>
    udp_handler (sys W i) s d = Inr (s\<lparr>clients := drop_waiting (c_query c) (clients s)\<rparr>, ev))"
proof -
  obtain m s where m: "d = wire m" "route W h p = Some i" "up n i = Some s" "wf_msg m"
    "length (wire m) < MAXDATASIZE" "m_found m = 3" "m_source m = my_name s" "sendable (m\<lparr>m_found := 4\<rparr>)"
    "m_destination m = q_destination (c_query c)" "m_start_time m = q_start_time (c_query c)"
    using assms(1) unfolding confirmed_def by blast
  obtain cs where cs: "up n' i = Some (s\<lparr>clients := cs\<rparr>)" using assms(2,3) m(3) by (fastforce simp: alike_def)
  let ?s = "s\<lparr>clients := cs\<rparr>"
  have "service_ok ?s" using assms(5) cs unfolding stations_ok_def station_ok_def by blast
  moreover have "my_name ?s = my_name s" by (simp add: my_name_def)
  moreover have "ring_has (clients ?s) (m_destination m, m_start_time m)"
    using assms(4) cs m(9,10) by (auto simp: waits_def)
  ultimately have "\<exists>ev. udp_handler (sys W i) ?s (wire m) =
      Inr (?s\<lparr>clients := drop_waiting (asked (m_destination m) (m_start_time m)) (clients ?s)\<rparr>, ev)"
    using answers_step [OF _ m(4-6) _ m(8), of ?s "sys W i"] m(7) by (simp add: Let_def)
  moreover have "drop_waiting (asked (m_destination m) (m_start_time m)) cs = drop_waiting (c_query c) cs"
    by (rule drop_waiting_same) (simp_all add: asked_def m(9,10))
  ultimately show ?thesis using cs m(1,2) by auto
qed

lemma onward_here:
  assumes "onward W n P (h, p, d) y" and "alike P n n'"
  shows "\<exists>j s ev. route W h p = Some j \<and> j \<in> P \<and> up n' j = Some s \<and>
    udp_handler (sys W j) s d = Inr (s, ev) \<and> y \<in># datagrams ev"
proof -
  obtain j s ev h' p' t where o: "y = (h', p', t)" "route W h p = Some j" "j \<in> P" "up n j = Some s"
    "udp_handler (sys W j) s d = Inr (s, ev)" "UdpSend h' p' t \<in> set ev"
    using assms(1) unfolding onward_def by blast
  obtain cs where "up n' j = Some (s\<lparr>clients := cs\<rparr>)" using assms(2) o(3,4) by (fastforce simp: alike_def)
  with o handler_any_clients [OF o(5,6), of cs] show ?thesis by (auto simp: in_datagrams)
qed

text \<open>The next datagram on the track can be handed over; what then happens to it.\<close>

lemma next_here:
  assumes "tracked W P n0 i c z n" and "(onward W n0 P)\<^sup>*\<^sup>* (h, p, d) z"
  shows "\<exists>j s s' ev. route W h p = Some j \<and> j \<in> P \<and> up n j = Some s \<and> udp_handler (sys W j) s d = Inr (s', ev) \<and>
    ((\<exists>y. (onward W n0 P)\<^sup>*\<^sup>* y z \<and> y \<in># datagrams ev) \<or> j = i \<and> c \<notin> set (head_client (clients s')))"
proof -
  have t: "alike P n0 n" "i \<in> P" "confirmed W n0 i c z" "waits n i c" "stations_ok W n"
    using assms(1) by (simp_all add: tracked_def)
  from assms(2) show ?thesis
  proof (cases rule: converse_rtranclpE)
    case base
    then have "confirmed W n0 i c (h, p, d)" using t(3) by simp
    from confirmed_here [OF this t(1,2,4,5)] obtain s ev where "route W h p = Some i" "up n i = Some s"
      "udp_handler (sys W i) s d = Inr (s\<lparr>clients := drop_waiting (c_query c) (clients s)\<rparr>, ev)" by blast
    moreover have "c \<notin> set (head_client (drop_waiting (c_query c) (clients s)))"
      by (simp add: drop_waiting_def same_query_def)
    ultimately show ?thesis using t(2) by fastforce
  next
    case (step y)
    from onward_here [OF step(1) t(1)] step(2) show ?thesis by blast
  qed
qed

lemma station_up: "stations_ok W n \<Longrightarrow> up n j = Some s \<Longrightarrow>
    service_ok s \<and> get_file_mtime (stat_of W j) \<le> latest_time s"
  by (auto simp: stations_ok_def station_ok_def)

lemma tracked_moves:
  assumes "tracked W P n0 i c z n"
  shows "\<exists>n'. sparing W P n n'"
proof -
  have ok: "stations_ok W n" using assms by (simp add: tracked_def)
  obtain h p d where x: "(onward W n0 P)\<^sup>*\<^sup>* (h, p, d) z" "(h, p, d) \<in># flight n"
    using assms by (auto simp: tracked_def)
  from next_here [OF assms x(1)] obtain j s s' ev where j: "route W h p = Some j" "up n j = Some s"
    "udp_handler (sys W j) s d = Inr (s', ev)" by blast
  then have "round_of W j (Ready (UdpData d) NoTcp) s = Inr (s', ev)"
    using station_up [OF ok j(2)] by (simp add: round_handler)
  from sparing.handed [OF x(2) j(1,2) this] show ?thesis by blast
qed

lemma alike_round:
  assumes "alike P n0 n" and "up n j = Some s" and "udp_handler os s d = Inr (s', ev)"
  shows "alike P n0 \<lparr>up = (up n)(j \<mapsto> s'), flight = F\<rparr>"
  using assms(1,2) udp_handler_frame [OF assms(3)] by (fastforce simp: alike_def)

lemma ring_has_drop [simp]: "ring_has (drop_waiting q cs) k = ring_has cs k"
  by (simp add: ring_has_def search_query_def drop_waiting_def)

lemma waits_round:
  assumes "waits n i c" and "stations_ok W n" and "(h, p, d) \<in># flight n" and "route W h p = Some j"
    and "up n j = Some s" and "round_of W j (Ready (UdpData d) NoTcp) s = Inr (s', ev)"
  shows "answered W i c n \<lparr>up = (up n)(j \<mapsto> s'), flight = flight n - {#(h, p, d)#} + datagrams ev\<rparr> \<or>
    waits \<lparr>up = (up n)(j \<mapsto> s'), flight = flight n - {#(h, p, d)#} + datagrams ev\<rparr> i c"
proof (cases "j = i")
  case False
  with assms(1) show ?thesis by (simp add: waits_def)
next
  case True
  note ok = station_up [OF assms(2,5)]
  have "udp_handler (sys W j) s d = Inr (s', ev)" using assms(6) ok by (simp add: round_handler)
  from udp_handler_answers [OF this] ok consider "s' = s" |
    q x where "answer_text (q_destination q) (q_start_time q) x" "s' = s\<lparr>clients := drop_waiting q (clients s)\<rparr>"
      "ev = concat (map (\<lambda>f. [TcpSend f x, TcpClose f]) (waiting (clients s) q))" by blast
  then show ?thesis
  proof cases
    case 1
    with assms(1,5) True show ?thesis by (simp add: waits_def)
  next
    case 2
    have c: "c \<in> set (head_client (clients s))" using assms(1,5) True by (simp add: waits_def)
    show ?thesis
    proof (cases "same_query (c_query c) q")
      case same: True
      then have "fd c \<in> set (waiting (clients s) q)" using c by (auto simp: waiting_def)
      then have "TcpSend (fd c) x \<in> set ev" "TcpClose (fd c) \<in> set ev" using 2(3) by auto
      moreover have "answer_text (q_destination (c_query c)) (q_start_time (c_query c)) x"
        using same 2(1) by (simp add: same_query_def)
      ultimately show ?thesis using assms(3-6) True unfolding answered_def by blast
    next
      case False
      then have "c \<in> set (head_client (clients s'))" using c 2(2) by (simp add: drop_waiting_def)
      then have "waits \<lparr>up = (up n)(j \<mapsto> s'), flight = flight n - {#(h, p, d)#} + datagrams ev\<rparr> i c"
        using assms(1,5) True 2(2) by (simp add: waits_def)
      then show ?thesis ..
    qed
  qed
qed

lemma tracked_spared:
  assumes "tracked W P n0 i c z n" and "\<forall>j\<in>P. up n' j = up n j" and "flight n' = flight n - {#(h, p, d)#}"
    and "\<forall>j\<in>P. route W h p \<noteq> Some j" and "stations_ok W n'"
  shows "tracked W P n0 i c z n'"
proof -
  obtain x where x: "(onward W n0 P)\<^sup>*\<^sup>* x z" "x \<in># flight n" using assms(1) by (auto simp: tracked_def)
  have "x \<noteq> (h, p, d)" using next_here [OF assms(1)] x(1) assms(4) by blast
  then have "x \<in># flight n'" using x(2) assms(3) by (simp add: in_diff_count)
  moreover have "alike P n0 n'" "waits n' i c"
    using assms(1,2) by (auto simp: tracked_def alike_def waits_def)
  ultimately show ?thesis using assms(1,5) x(1) unfolding tracked_def by blast
qed

lemma tracked_step:
  assumes "tracked W P n0 i c z n" and "sparing W P n n'"
  shows "answered W i c n n' \<or> tracked W P n0 i c z n'"
proof -
  have ok: "stations_ok W n" "stations_ok W n'"
    using assms stations_ok_delivery [OF sparing_delivery] by (auto simp: tracked_def)
  from assms(2) show ?thesis
  proof cases
    case (handed h p d j s s' ev)
    note round = waits_round [OF _ ok(1) handed(2-5)]
    have hd: "udp_handler (sys W j) s d = Inr (s', ev)"
      using handed(5) station_up [OF ok(1) handed(4)] by (simp add: round_handler)
    obtain x where x: "(onward W n0 P)\<^sup>*\<^sup>* x z" "x \<in># flight n" using assms(1) by (auto simp: tracked_def)
    have "\<exists>x. (onward W n0 P)\<^sup>*\<^sup>* x z \<and> x \<in># flight n'" if w: "waits n' i c"
    proof (cases "x = (h, p, d)")
      case False
      with x handed(1) show ?thesis by (intro exI [of _ x]) (simp add: in_diff_count)
    next
      case True
      from next_here [OF assms(1), of h p d] x(1) True handed(3,4) hd
      have "(\<exists>y. (onward W n0 P)\<^sup>*\<^sup>* y z \<and> y \<in># datagrams ev) \<or> j = i \<and> c \<notin> set (head_client (clients s'))"
        by auto
      with w handed(1) show ?thesis by (auto simp: waits_def)
    qed
    moreover have "alike P n0 n'"
      using alike_round [OF _ handed(4) hd] assms(1) unfolding handed(1) tracked_def by blast
    ultimately show ?thesis
      using round [of i c] assms(1) ok(2) unfolding handed(1) tracked_def by blast
  next
    case (downed h p d j s e)
    have "\<forall>j\<in>P. route W h p \<noteq> Some j" using downed(3,4) by auto
    moreover have "\<forall>j\<in>P. up n' j = up n j" using downed(1,4) by auto
    ultimately show ?thesis using tracked_spared [OF assms(1) _ _ _ ok(2)] downed(1) by simp
  next
    case (lost h p d)
    then show ?thesis using tracked_spared [OF assms(1) _ _ _ ok(2)] by simp
  qed
qed

interpretation answers: progress "sparing W P" flight datagram_weight "stations_ok W"
    "tracked W P n0 i c z" "answered W i c" for W P n0 i c z
proof unfold_locales
  fix n n'
  assume "sparing W P n n'" "stations_ok W n"
  then show "\<exists>x K. x \<in># flight n \<and> flight n' = flight n - {#x#} + K \<and>
      (\<forall>y\<in>#K. datagram_weight y < datagram_weight x)"
    by (intro delivery_replaces [OF sparing_delivery])
next
  fix n n'
  assume "sparing W P n n'" "stations_ok W n"
  then show "stations_ok W n'" by (rule stations_ok_delivery [OF sparing_delivery])
qed (simp add: tracked_def, rule tracked_step, assumption+, rule tracked_moves, assumption)

lemma tracked_answered:
  assumes "tracked W P (f 0) i c z (f 0)" and "full_run W P f"
  shows "\<exists>k. answered W i c (f k) (f (Suc k))"
  using assms unfolding full_run_def by (intro answers.reaches_goal) blast+

section \<open>Property\<close>

lemma path_alike:
  assumes "path_ok W n is E k src dst"
  shows "alike (is ` {..k}) n n"
  unfolding alike_def
proof
  fix i
  assume "i \<in> is ` {..k}"
  then obtain j where j: "i = is j" "j \<le> k" by auto
  have "up n (is j) = Some (stop n is j)" using path_place [OF assms j(2)] by (simp add: place_ok_def Let_def)
  with j(1) show "\<exists>s cs. up n i = Some s \<and> up n i = Some (s\<lparr>clients := cs\<rparr>)"
    by (intro exI [of _ "stop n is j"] exI [of _ "clients (stop n is j)"]) simp
qed

text \<open>A run that goes on for as long as it can exists from every network.\<close>

lemma full_run_exists: "\<exists>f. f 0 = n \<and> full_run W P f"
proof -
  have "\<exists>f. \<forall>k. (k = 0 \<longrightarrow> f k = n) \<and>
      (sparing W P (f k) (f (Suc k)) \<or> f (Suc k) = f k \<and> (\<nexists>n'. sparing W P (f k) n'))"
    by (rule dependent_nat_choice) blast+
  then show ?thesis unfolding full_run_def by blast
qed

lemma demo_line_ok: "stations_ok demo_world demo_line"
proof -
  have "station_ok None s" if "up demo_line i = Some s" for i s
  proof -
    have i: "i \<le> 1" using that by (auto simp: demo_line_def split: if_splits)
    then have "s = stop demo_line (\<lambda>j. j) i" using that by (simp add: stop_def)
    then show ?thesis
      using path_place [OF demo_line_path i] by (auto simp: place_ok_def station_ok_def demo_world_def Let_def)
  qed
  then show ?thesis by (simp add: stations_ok_def demo_world_def)
qed

lemma journey_tracked:
  assumes "path_ok W n is E k src dst" and "wf_msg (query_msg src dst t)" and "is_time t"
    and "journey_fits (stop n is) E k (query_msg src dst t)" and "legs_ok (stop n is) E k (query_msg src dst t)"
    and "stations_ok W n"
    and "(local_ip (stop n is 0), UDP_port (stop n is 0), wire (query_msg src dst t)) \<in># flight n"
    and "c \<in> set (head_client (clients (stop n is 0)))" and "c_query c = asked dst t"
    and "ring_has (clients (stop n is 0)) (dst, t)"
  shows "\<exists>z. tracked W (is ` {..k}) n (is 0) c z n"
proof -
  let ?s = "stop n is 0" and ?r = "at_hop 1 (route_msg (stop n is) E k (query_msg src dst t))"
  let ?x = "(local_ip ?s, UDP_port ?s, wire (query_msg src dst t))"
  have "arrives W n ?x is k 0 (wire ?r)" and wf: "wf_msg ?r" using journey [OF assms(1-5)] by simp_all
  then obtain h p where z: "route W h p = Some (is 0)" "(onward W n (is ` {..k}))\<^sup>*\<^sup>* ?x (h, p, wire ?r)"
    by (auto simp: arrives_def)
  have up: "up n (is 0) = Some ?s" and src: "src = my_name ?s"
    using path_place [OF assms(1), of 0] by (auto simp: place_ok_def Let_def)
  note answer = answer_fits [OF path_ends(1) [OF assms(1)] wf assms(4)]
  have "confirmed W n (is 0) c (h, p, wire ?r)"
    using z(1) up src wf answer assms(9) by (auto simp: confirmed_def route_msg_def asked_def)
  moreover have "waits n (is 0) c" using up assms(8-10) by (simp add: waits_def asked_def)
  moreover have "alike (is ` {..k}) n n" by (rule path_alike [OF assms(1)])
  ultimately show ?thesis
    using assms(6,7) z(2) unfolding tracked_def by blast
qed

text \<open>C1. The browser is answered in every run. Let the stations of a path be up and know each other, with
  a connection for every leg, and let the query of a waiting browser be in flight to its own station, as a
  timeout leaves it. However the deliveries are then ordered and whatever the stations outside the path do
  (go down on a datagram, lose datagrams, hold other queries), in each run that goes on for as long as
  a step is possible, loses no datagram to a station of the path and takes none of them down, there is a
  step in which the browser is sent the printed text of a route found for its query and its connection is closed.\<close>

theorem query_always_answered:
  assumes "path_ok W (f 0) is E k src dst" and "wf_msg (query_msg src dst t)" and "is_time t"
    and "journey_fits (stop (f 0) is) E k (query_msg src dst t)" and "legs_ok (stop (f 0) is) E k (query_msg src dst t)"
    and "stations_ok W (f 0)"
    and "(local_ip (stop (f 0) is 0), UDP_port (stop (f 0) is 0), wire (query_msg src dst t)) \<in># flight (f 0)"
    and "c \<in> set (head_client (clients (stop (f 0) is 0)))" and "c_query c = asked dst t"
    and "ring_has (clients (stop (f 0) is 0)) (dst, t)" and "full_run W (is ` {..k}) f"
  shows "\<exists>i. answered W (is 0) c (f i) (f (Suc i))"
proof -
  obtain z where "tracked W (is ` {..k}) (f 0) (is 0) c z (f 0)" using journey_tracked [OF assms(1-10)] by blast
  then show ?thesis using assms(11) by (rule tracked_answered)
qed

theorem query_always_answered_witness:
  "\<exists>f. f 0 = demo_line\<lparr>flight := {#(''10.0.0.1'', ''4004'', wire demo_query_msg)#}\<rparr> \<and>
     full_run demo_world {0, 1} f \<and>
     (\<exists>i. answered demo_world 0 \<lparr>fd = 7, c_query = asked ''TerminalR'' ''05:30''\<rparr> (f i) (f (Suc i)))"
proof -
  let ?n = "demo_line\<lparr>flight := {#(''10.0.0.1'', ''4004'', wire demo_query_msg)#}\<rparr>" and ?is = "\<lambda>j::nat. j"
  obtain f where f: "f 0 = ?n" "full_run demo_world {0, 1} f" using full_run_exists by blast
  have up: "up ?n = up demo_line" by simp
  have is01: "?is ` {..1} = {0, 1}" by auto
  have ok: "stations_ok demo_world ?n" using demo_line_ok by (simp add: stations_ok_def)
  have st: "stop (f 0) ?is = stop demo_line ?is" unfolding f(1) by (rule stop_up [OF up])
  have f0: "flight (f 0) = {#(''10.0.0.1'', ''4004'', wire demo_query_msg)#}" "stations_ok demo_world (f 0)"
    using ok by (simp_all add: f(1))
  have "\<exists>i. answered demo_world (?is 0) \<lparr>fd = 7, c_query = asked ''TerminalR'' ''05:30''\<rparr> (f i) (f (Suc i))"
  proof (rule query_always_answered [where E = "\<lambda>_. demo_entries" and k = 1 and src = "''JunctionC''"
        and t = "''05:30''" and dst = "''TerminalR''"])
    show "path_ok demo_world (f 0) ?is (\<lambda>_. demo_entries) 1 ''JunctionC'' ''TerminalR''"
      unfolding f(1) path_ok_up [OF up] by (rule demo_line_path)
    show "full_run demo_world (?is ` {..1}) f" unfolding is01 by (rule f(2))
    show "ring_has (clients (stop (f 0) ?is 0)) (''TerminalR'', ''05:30'')"
      unfolding st demo_line_start(1) by (rule demo_ring)
  qed (use demo_wf_ask demo_line_start demo_line_journey(2,3) in \<open>simp_all add: st f0 demo_query_msg_def\<close>)
  with f show ?thesis by blast
qed

end
