(* ===== verification/Requests.thy ===== *)
theory Requests
  imports Liveness
begin

text \<open>
  From the browser's request to its answer: the request block registers the browser, the next
  timeout sends its query, and then the network answers it. What a station does for other stations
  does not depend on its browsers, so that a path stays a path when one registers.
\<close>

section \<open>Journeys depend on names and addresses only\<close>

definition same_names :: "nat \<Rightarrow> (nat \<Rightarrow> server) \<Rightarrow> (nat \<Rightarrow> server) \<Rightarrow> bool" where
  "same_names k S S' \<longleftrightarrow> (\<forall>j\<le>k. my_name (S' j) = my_name (S j) \<and> my_address (S' j) = my_address (S j))"

lemma same_out: "same_names k S S' \<Longrightarrow> j \<le> Suc k \<Longrightarrow> out_msg S' m j = out_msg S m j"
  by (induction j) (simp_all add: out_msg.simps(2) same_names_def flood_msg_def hop_msg_def)

lemma same_found: "same_names k S S' \<Longrightarrow> found_msg S' E k m = found_msg S E k m"
  using same_out [of k S S' k m] by (simp add: found_msg_def arrive_msg_def hop_msg_def same_names_def)

lemma same_journey:
  assumes "same_names k S S'"
  shows "journey_fits S' E k m = journey_fits S E k m" and "legs_ok S' E k m = legs_ok S E k m"
  using same_out [OF assms] by (simp_all add: journey_fits_def legs_ok_def route_msg_def same_found [OF assms])

section \<open>A station gets new browsers\<close>

lemma other_browsers:
  assumes "up n i = Some s" and "up n' = (up n)(i \<mapsto> s\<lparr>clients := cs\<rparr>)"
  shows "stop n' is j = (stop n is j)\<lparr>clients := if is j = i then cs else clients (stop n is j)\<rparr>"
proof (cases "is j = i")
  case True
  then show ?thesis using assms by (simp add: stop_def)
next
  case False
  then have "stop n' is j = stop n is j" using assms(2) by (simp add: stop_def)
  with False show ?thesis by (cases "stop n is j") simp
qed

lemma path_new_browsers:
  assumes "path_ok W n is E k src dst" and "up n i = Some s" and "up n' = (up n)(i \<mapsto> s\<lparr>clients := cs\<rparr>)"
    and "service_ok (s\<lparr>clients := cs\<rparr>)"
  shows "path_ok W n' is E k src dst" and "same_names k (stop n is) (stop n' is)"
proof -
  note other = other_browsers [OF assms(2,3), of "is"]
  have up: "up n' (is j) = Some (stop n' is j) \<and> service_ok (stop n' is j)" if j: "j \<le> k" for j
  proof (cases "is j = i")
    case True
    then show ?thesis using assms(3,4) by (simp add: stop_def)
  next
    case False
    then have "up n' (is j) = up n (is j)" "stop n' is j = stop n is j" using assms(3) by (simp_all add: stop_def)
    then show ?thesis using path_place [OF assms(1) j] by (simp add: place_ok_def Let_def)
  qed
  have place: "place_ok W n' is E k src dst j" if j: "j \<le> k" for j
    using path_place [OF assms(1) j] up [OF j] unfolding place_ok_def Let_def other
    by (simp add: server_ok_clients my_name_def)
  have link: "link_ok W n' is j" if j: "j < k" for j
    using assms(1) j unfolding path_ok_def link_ok_def other by (simp add: my_address_def)
  show "path_ok W n' is E k src dst" using assms(1) place link by (simp add: path_ok_def)
  show "same_names k (stop n is) (stop n' is)"
    unfolding same_names_def other by (simp add: my_name_def my_address_def)
qed

section \<open>Requests\<close>

text \<open>A start time as a query carries it.\<close>

definition clock_text :: "string \<Rightarrow> bool" where
  "clock_text t \<longleftrightarrow> is_time t \<and> t \<noteq> [] \<and> length t < MAX_TIMESTRING \<and> CHR '';'' \<notin> set t \<and> NUL \<notin> set t"

lemma wf_query:
  assumes "token MAX_NAME_LENGTH src" and "token MAX_NAME_LENGTH dst" and "clock_text t"
  shows "wf_msg (query_msg src dst t)"
  using assms by (simp add: wf_msg_def query_msg_def m_hops_def tokens_def in_int_def clock_text_def)

lemma digits_clock:
  assumes "some_digits hh" and "some_digits mm"
  shows "clock_text (hh @ '':'' @ mm)"
proof -
  have "\<not> isdigit CHR '';''" "\<not> isdigit NUL" by (simp_all add: isdigit_iff NUL_def)
  then have "CHR '';'' \<notin> set ds \<and> NUL \<notin> set ds" if "some_digits ds" for ds
    using that by (auto simp: some_digits_def list_all_iff)
  then show ?thesis
    using assms digits_time [OF assms] by (auto simp: clock_text_def some_digits_def NUL_def)
qed

lemma two_digits_clock: "two_digits hh \<Longrightarrow> two_digits mm \<Longrightarrow> clock_text (hh @ '':'' @ mm)"
  by (rule digits_clock [OF two_some_digits two_some_digits])

lemma round_request:
  assumes "get_file_mtime stat \<le> latest_time s" and "tcp_handler s b r shut = Inr (s', ev)"
  shows "loop_step os stat file (Ready NoUdp (TcpConn b r shut)) s = Inr (s', ev)"
proof -
  have "check_update_timetable stat file (latest_time s) (g_station s) (g_timetable s) =
      Inr (g_station s, g_timetable s)"
    using assms(1) by (simp add: check_update_timetable_def)
  moreover have "s\<lparr>g_station := g_station s, g_timetable := g_timetable s\<rparr> = s" by (cases s) simp
  ultimately show ?thesis
    using assms(2) unfolding loop_step_def Let_def by (simp only: bindR_Inr prod.case) (simp add: serve_udp_def serve_tcp_def)
qed

text \<open>The station after the request, and what it sends at the next timeout.\<close>

lemma request_then_timeout:
  assumes "server_ok s es" and "service_ok s" and "get_file_mtime (stat_of W i) \<le> latest_time s" and "benign (sys W i)"
    and "token MAX_NAME_LENGTH dst" and "CHR ''&'' \<notin> set dst" and "two_digits hh" and "two_digits mm" and "0 \<le> shut"
    and "NUL \<notin> set (request dst (hh @ ''-'' @ mm @ rest))"
    and "length (request dst (hh @ ''-'' @ mm @ rest)) < MAXDATASIZE"
    and "\<forall>c\<in>set (head_client (clients s)). ask_fits s (c_query c)"
  defines "t \<equiv> hh @ '':'' @ mm"
  shows "\<exists>cs ev. let s1 = s\<lparr>clients := cs\<rparr> in
    round_of W i (Ready NoUdp (TcpConn b (RecvBytes (request dst (hh @ ''-'' @ mm @ rest))) shut)) s =
      Inr (s1, [TcpSend b (HTTP_200_RESPONSE @ CRLF @ HTML_200_MESSAGE)]) \<and>
    round_of W i (Timeout (\<lambda>_. True)) s1 = Inr (s1, ev) \<and> service_ok s1 \<and> ring_has cs (dst, t) \<and>
    \<lparr>fd = b, c_query = asked dst t\<rparr> \<in> set (head_client cs) \<and>
    (local_ip s, UDP_port s, wire (query_msg (my_name s) dst t)) \<in># datagrams ev"
proof -
  let ?c = "\<lparr>fd = b, c_query = asked dst t\<rparr>"
  have name: "token MAX_NAME_LENGTH (my_name s)" using assms(1) by (simp add: server_ok_def)
  have ok: "clients_ok (clients s)" "unanswered (clients s)" using assms(2) by (simp_all add: service_ok_def)
  have len: "length dst < MAX_NAME_LENGTH" "length (my_name s) < 61" "length t < MAX_TIMESTRING" "dst \<noteq> []"
    using assms(5,7,8) name by (simp_all add: token_def two_digits_def t_def)
  obtain cs where cs: "register_query dst t b (clients s) = Inr cs" "ring_has cs (dst, t)"
    using register_query_spec [OF ok(1) len(1,3), of b] by blast
  let ?s1 = "s\<lparr>clients := cs\<rparr>"
  note head = register_query_head [OF ok(2) cs(1)]
  have "tcp_handler s b (RecvBytes (request dst (hh @ ''-'' @ mm @ rest))) shut =
      Inr (?s1, [TcpSend b (HTTP_200_RESPONSE @ CRLF @ HTML_200_MESSAGE)])"
    using len(1) by (intro tcp_step [OF len(4) _ assms(6-8) len(2) assms(9-11) cs(1) [unfolded t_def]]) simp
  note round = round_request [OF assms(3) this, of "sys W i" "file_of W i"]
  have s1: "service_ok ?s1" using register_query_ok [OF ok cs(1)] by (simp add: service_ok_def)
  have "ask_fits ?s1 (c_query c)" if "c \<in> set (head_client cs)" for c
    using that head assms(12) len by (auto simp: ask_fits_def asked_def my_name_def)
  then have "timeout_walk (sys W i) (\<lambda>_. True) ?s1 0 = Inr (?s1, map (ask_event ?s1) (head_client cs))"
    using timeout_walk_asks [of ?s1 "sys W i" "\<lambda>_. True" 0] s1 assms(4) by (simp add: service_ok_def)
  then have "round_of W i (Timeout (\<lambda>_. True)) ?s1 = Inr (?s1, map (ask_event ?s1) (head_client cs))"
    using round_timeout [of "stat_of W i" ?s1] assms(3) by simp
  moreover have "ask_event ?s1 ?c = UdpSend (local_ip s) (UDP_port s) (wire (query_msg (my_name s) dst t))"
    by (simp add: ask_event_def ask_msg_def query_msg_def asked_def my_name_def)
  then have "(local_ip s, UDP_port s, wire (query_msg (my_name s) dst t)) \<in># datagrams (map (ask_event ?s1) (head_client cs))"
    using head by (auto simp: in_datagrams image_iff intro: bexI [of _ ?c])
  ultimately show ?thesis
    using round s1 cs(2) head unfolding Let_def by (intro exI [of _ cs] exI [of _ "map (ask_event ?s1) (head_client cs)"]) simp
qed

section \<open>Property\<close>

text \<open>C5. From the browser's request to the answer. A browser asks a station for the way to the last station of a
  path, at a time of the form hh-mm; the connection of the next timeout finds all browsers still
  there. Then the request is answered with the waiting page, the timeout sends the query, and in every run
  from there that goes on for as long as it can and spares the path this browser is sent the text of a
  route found for its request and its connection is closed, whatever else was in flight.\<close>

theorem request_answered:
  assumes "path_ok W n is E k src dst" and "stations_ok W n" and "CHR ''&'' \<notin> set dst"
    and "two_digits hh" and "two_digits mm" and "0 \<le> shut"
    and "NUL \<notin> set (request dst (hh @ ''-'' @ mm @ rest))"
    and "length (request dst (hh @ ''-'' @ mm @ rest)) < MAXDATASIZE"
    and "journey_fits (stop n is) E k (query_msg src dst (hh @ '':'' @ mm))"
    and "legs_ok (stop n is) E k (query_msg src dst (hh @ '':'' @ mm))"
    and "\<forall>c\<in>set (head_client (clients (stop n is 0))). ask_fits (stop n is 0) (c_query c)"
  shows "\<exists>s1 ev.
    round_of W (is 0) (Ready NoUdp (TcpConn b (RecvBytes (request dst (hh @ ''-'' @ mm @ rest))) shut)) (stop n is 0) =
      Inr (s1, [TcpSend b (HTTP_200_RESPONSE @ CRLF @ HTML_200_MESSAGE)]) \<and>
    round_of W (is 0) (Timeout (\<lambda>_. True)) s1 = Inr (s1, ev) \<and>
    (\<forall>f. f 0 = \<lparr>up = (up n)(is 0 \<mapsto> s1), flight = flight n + datagrams ev\<rparr> \<longrightarrow> full_run W (is ` {..k}) f \<longrightarrow>
       (\<exists>i. answered W (is 0) \<lparr>fd = b, c_query = asked dst (hh @ '':'' @ mm)\<rparr> (f i) (f (Suc i))))"
proof -
  let ?t = "hh @ '':'' @ mm" and ?s = "stop n is 0" and ?c = "\<lparr>fd = b, c_query = asked dst (hh @ '':'' @ mm)\<rparr>"
  note ends = path_ends [OF assms(1)]
  have pl: "up n (is 0) = Some ?s" "server_ok ?s (E 0)" "service_ok ?s" "get_file_mtime (stat_of W (is 0)) \<le> latest_time ?s"
    "benign (sys W (is 0))" using path_place [OF assms(1), of 0] by (simp_all add: place_ok_def Let_def)
  have tokens: "token MAX_NAME_LENGTH src" "token MAX_NAME_LENGTH dst"
    using place_server [OF path_place [OF assms(1)]] ends by (fastforce simp: server_ok_def)+
  obtain cs ev where r: "let s1 = ?s\<lparr>clients := cs\<rparr> in
      round_of W (is 0) (Ready NoUdp (TcpConn b (RecvBytes (request dst (hh @ ''-'' @ mm @ rest))) shut)) ?s =
        Inr (s1, [TcpSend b (HTTP_200_RESPONSE @ CRLF @ HTML_200_MESSAGE)]) \<and>
      round_of W (is 0) (Timeout (\<lambda>_. True)) s1 = Inr (s1, ev) \<and> service_ok s1 \<and> ring_has cs (dst, ?t) \<and>
      ?c \<in> set (head_client cs) \<and> (local_ip ?s, UDP_port ?s, wire (query_msg (my_name ?s) dst ?t)) \<in># datagrams ev"
    using request_then_timeout [OF pl(2-5) tokens(2) assms(3-8,11)] by blast
  let ?s1 = "?s\<lparr>clients := cs\<rparr>" and ?n = "\<lparr>up = (up n)(is 0 \<mapsto> ?s\<lparr>clients := cs\<rparr>), flight = flight n + datagrams ev\<rparr>"
  have s1: "service_ok ?s1" using r by (simp add: Let_def)
  have path: "path_ok W ?n is E k src dst" "same_names k (stop n is) (stop ?n is)"
    using path_new_browsers [OF assms(1) pl(1) _ s1, of ?n] by simp_all
  have stop0: "stop ?n is 0 = ?s1" by (simp add: stop_def)
  have "station_ok (stat_of W (is 0)) ?s1"
    using pl s1 by (auto simp: station_ok_def server_ok_clients)
  then have "stations_ok W ?n" using assms(2) by (simp add: stations_ok_def)
  moreover have "wf_msg (query_msg src dst ?t)" by (rule wf_query [OF tokens two_digits_clock [OF assms(4,5)]])
  ultimately obtain z where "tracked W (is ` {..k}) ?n (is 0) ?c z ?n"
    using journey_tracked [OF path(1), of ?t ?c] two_digits_clock [OF assms(4,5)] assms(9,10) r ends(2)
    unfolding stop0 same_journey [OF path(2)] by (auto simp: Let_def clock_text_def)
  then have "\<exists>i. answered W (is 0) ?c (f i) (f (Suc i))" if "f 0 = ?n" "full_run W (is ` {..k}) f" for f
    using tracked_answered [of W "is ` {..k}" f "is 0" ?c z] that by simp
  with r show ?thesis by (intro exI [of _ ?s1] exI [of _ ev]) (simp add: Let_def)
qed

theorem request_answered_witness:
  "\<exists>s1 ev f. round_of demo_world 0 (Ready NoUdp (TcpConn 9 (RecvBytes ''GET /?to=TerminalR&time=05-30 HTTP/1.1'') 0)) (demo_stop 0) =
      Inr (s1, [TcpSend 9 (HTTP_200_RESPONSE @ CRLF @ HTML_200_MESSAGE)]) \<and>
    f 0 = \<lparr>up = (up demo_line)(0 \<mapsto> s1), flight = datagrams ev\<rparr> \<and> full_run demo_world {0, 1} f \<and>
    (\<exists>i. answered demo_world 0 \<lparr>fd = 9, c_query = asked ''TerminalR'' ''05:30''\<rparr> (f i) (f (Suc i)))"
proof -
  let ?is = "\<lambda>j::nat. j" and ?c = "\<lparr>fd = 9, c_query = asked ''TerminalR'' (''05'' @ '':'' @ ''30'')\<rparr>"
  have is01: "?is ` {..1} = {0, 1}" by auto
  have req: "''GET /?to=TerminalR&time=05-30 HTTP/1.1'' = request ''TerminalR'' (''05'' @ ''-'' @ ''30'' @ '' HTTP/1.1'')"
    by code_simp
  have "\<forall>c\<in>set (head_client (clients (demo_stop 0))). ask_fits (demo_stop 0) (c_query c)" by code_simp
  moreover have "two_digits ''05''" "two_digits ''30''" "CHR ''&'' \<notin> set ''TerminalR''"
    "NUL \<notin> set (request ''TerminalR'' (''05'' @ ''-'' @ ''30'' @ '' HTTP/1.1''))"
    "length (request ''TerminalR'' (''05'' @ ''-'' @ ''30'' @ '' HTTP/1.1'')) < MAXDATASIZE" by code_simp+
  ultimately obtain s1 ev where r: "round_of demo_world (?is 0)
      (Ready NoUdp (TcpConn 9 (RecvBytes (request ''TerminalR'' (''05'' @ ''-'' @ ''30'' @ '' HTTP/1.1''))) 0)) (stop demo_line ?is 0) =
      Inr (s1, [TcpSend 9 (HTTP_200_RESPONSE @ CRLF @ HTML_200_MESSAGE)])"
    and all: "\<forall>f. f 0 = \<lparr>up = (up demo_line)(?is 0 \<mapsto> s1), flight = flight demo_line + datagrams ev\<rparr> \<longrightarrow>
      full_run demo_world (?is ` {..1}) f \<longrightarrow> (\<exists>i. answered demo_world (?is 0) ?c (f i) (f (Suc i)))"
    using request_answered [of demo_world demo_line ?is "\<lambda>_. demo_entries" 1 "''JunctionC''" "''TerminalR''" "''05''" "''30''" 0
        "'' HTTP/1.1''" 9] demo_line_path demo_line_ok demo_line_journey(2,3) demo_line_start(1)
    by (auto simp: demo_query_msg_def)
  obtain f where f: "f 0 = \<lparr>up = (up demo_line)(0 \<mapsto> s1), flight = datagrams ev\<rparr>" "full_run demo_world {0, 1} f"
    using full_run_exists by blast
  moreover have "flight demo_line = {#}" by (simp add: demo_line_def)
  ultimately have "\<exists>i. answered demo_world 0 ?c (f i) (f (Suc i))" using all unfolding is01 by simp
  with r f show ?thesis unfolding req demo_line_start(1) by (intro exI [of _ s1] exI [of _ ev] exI [of _ f]) simp
qed

end
