(* ===== verification/Browsers.thy ===== *)
theory Browsers
  imports Requests
begin

text \<open>
  What browsers can get a station to do. Whatever bytes they send, a request that is accepted at all
  registers a destination that fits its buffer and a time of day, and this stays so in every round of
  the loop: the only thing browsers have in their hands is the text of the destination.
\<close>

section \<open>What \<open>sscanf\<close> assigns\<close>

lemma take_width_set: "set (take_width w s) \<subseteq> set s"
  by (auto simp: take_width_def split: option.splits dest: in_set_takeD)

lemma scan_int_rest:
  assumes "scan_int s = Some (n, r)"
  shows "set r \<subseteq> set s"
proof -
  have d: "set (drop k (dropWhile isspace s)) \<subseteq> set s" for k by (auto dest: in_set_dropD set_dropWhileD)
  have "\<exists>k. r = drop k (dropWhile isspace s)"
    using assms by (auto simp: scan_int_def Let_def split: list.splits if_splits) (metis drop_Suc_Cons)+
  with d show ?thesis by blast
qed

lemma sscanf_texts: "sscanf fs s = Inr vs \<Longrightarrow> SStr x \<in> set vs \<Longrightarrow> x \<noteq> [] \<and> set x \<subseteq> set s"
proof (induction fs s arbitrary: vs rule: sscanf.induct)
  case (2 c fs s)
  then show ?case by (cases s) (auto split: if_splits)
next
  case (3 fs s)
  then show ?case by (fastforce dest: set_dropWhileD)
next
  case (4 w P fs s)
  let ?t = "take_width w (takeWhile P s)"
  have t: "set ?t \<subseteq> set s" using take_width_set set_takeWhileD by fast
  show ?case
  proof (cases "?t = []")
    case True
    with 4 show ?thesis by simp
  next
    case False
    with "4.prems"(1) obtain us where us: "sscanf fs (drop (length ?t) s) = Inr us" "vs = SStr ?t # us"
      by (auto simp: Let_def elim!: bindR_InrE)
    show ?thesis
    proof (cases "SStr x \<in> set us")
      case True
      with "4.IH" [OF refl False us(1)] show ?thesis by (auto dest: in_set_dropD)
    next
      case no: False
      with us(2) "4.prems"(2) False t show ?thesis by auto
    qed
  qed
next
  case (5 fs s)
  let ?s = "dropWhile isspace s"
  let ?t = "takeWhile (\<lambda>c. \<not> isspace c) ?s"
  have t: "set ?t \<subseteq> set s" by (auto dest: set_takeWhileD set_dropWhileD)
  show ?case
  proof (cases "?t = []")
    case True
    with 5 show ?thesis by simp
  next
    case False
    with "5.prems"(1) obtain us where us: "sscanf fs (drop (length ?t) ?s) = Inr us" "vs = SStr ?t # us"
      by (auto simp: Let_def elim!: bindR_InrE)
    show ?thesis
    proof (cases "SStr x \<in> set us")
      case True
      with "5.IH" [OF refl refl False us(1)] show ?thesis by (auto dest: in_set_dropD set_dropWhileD)
    next
      case no: False
      with us(2) "5.prems"(2) False t show ?thesis by auto
    qed
  qed
next
  case (6 fs s)
  then show ?case
    by (auto split: option.splits elim!: bindR_InrE dest!: scan_int_rest) (metis subsetD)+
qed simp

text \<open>A format without numbers assigns texts only.\<close>

lemma sscanf_only_texts: "IntD \<notin> set fs \<Longrightarrow> sscanf fs s = Inr vs \<Longrightarrow> SInt n \<notin> set vs"
  by (induction fs s arbitrary: vs rule: sscanf.induct)
    (auto simp: Let_def split: list.splits if_splits elim!: bindR_InrE)

lemma no_numbers: "IntD \<notin> set fmt_get_time" "IntD \<notin> set fmt_get"
  by (auto simp: fmt_get_time_def fmt_get_def lits_def)

section \<open>Accepted requests\<close>

lemma request_time_clock:
  assumes "request_time buf = Inr t"
  shows "clock_text t"
proof -
  obtain hh mm where v: "sscanf fmt_clock buf = Inr [SStr hh, SStr mm]" "t = hh @ '':'' @ mm"
    using assms by (auto simp: request_time_def fit_Inr_iff split: list.splits scanned.splits elim!: bindR_InrE)
  have d: "some_digits x" if "x = take 2 (takeWhile isdigit s)" "x \<noteq> []" for x s
    using that by (auto simp: some_digits_def list_all_iff dest: in_set_takeD set_takeWhileD)
  have "hh = take 2 (takeWhile isdigit buf) \<and> hh \<noteq> [] \<and> (\<exists>s. mm = take 2 (takeWhile isdigit s) \<and> mm \<noteq> [])"
    using v(1) by (auto simp: fmt_clock_def take_width_def Let_def split: if_splits list.splits elim!: bindR_InrE)
  then show ?thesis unfolding v(2) using d by (intro digits_clock) blast+
qed

text \<open>The destination is not empty, fits its buffer and has no NUL; the time is a time of day.\<close>

definition well_asked :: "string \<Rightarrow> string \<Rightarrow> bool" where
  "well_asked d t \<longleftrightarrow> d \<noteq> [] \<and> length d < MAX_NAME_LENGTH \<and> NUL \<notin> set d \<and> clock_text t"

lemma stored_text:
  assumes "sscanf fs q = Inr vs" and "IntD \<notin> set fs" and "NUL \<notin> set q" and "0 < length vs"
    and "store 61 vs 0 (\<lambda>x d. x) d0 = Inr d"
  shows "d \<noteq> [] \<and> length d < MAX_NAME_LENGTH \<and> NUL \<notin> set d"
proof -
  obtain v us where v: "vs = v # us" using assms(4) by (cases vs) auto
  with sscanf_only_texts [OF assms(2,1)] obtain x where x: "v = SStr x" by (cases v) auto
  then have "d = x" "length x < 61" using assms(5) v by (auto simp: store_def fit_Inr_iff elim!: bindR_InrE)
  with sscanf_texts [OF assms(1), of x] v x assms(3) show ?thesis by auto
qed

lemma parse_request_well:
  assumes "parse_request now q = Inr (Some (d, t))" and "NUL \<notin> set q" and "clock_text now"
  shows "well_asked d t"
proof -
  obtain vs d1 buf where s: "sscanf fmt_get_time q = Inr vs" "store 61 vs 0 (\<lambda>x d. x) [] = Inr d1"
    and r: "(if length vs = 2 then bindR (request_time buf) (\<lambda>t. Inr (Some (d1, t)))
     else bindR (sscanf fmt_get q) (\<lambda>vs.
          bindR (store 61 vs 0 (\<lambda>x d. x) d1) (\<lambda>dest.
          if length vs = 1 then bindR (fit MAX_TIMESTRING now) (\<lambda>t. Inr (Some (dest, t)))
          else Inr None))) = Inr (Some (d, t))"
    using assms(1) unfolding parse_request_def by (elim bindR_InrE)
  show ?thesis
  proof (cases "length vs = 2")
    case True
    with r have "d = d1" "request_time buf = Inr t" by (auto elim!: bindR_InrE)
    with stored_text [OF s(1) no_numbers(1) assms(2) _ s(2)] True request_time_clock show ?thesis
      by (simp add: well_asked_def)
  next
    case False
    with r obtain us where u: "sscanf fmt_get q = Inr us" "store 61 us 0 (\<lambda>x d. x) d1 = Inr d" "length us = 1" "t = now"
      by (auto simp: fit_Inr_iff split: if_splits elim!: bindR_InrE)
    with stored_text [OF u(1) no_numbers(2) assms(2) _ u(2)] assms(3) show ?thesis by (simp add: well_asked_def)
  qed
qed

section \<open>The browsers that wait\<close>

text \<open>Every browser in the list asked for something well-formed.\<close>

definition asks_ok :: "server \<Rightarrow> bool" where
  "asks_ok s \<longleftrightarrow> (\<forall>c\<in>set (head_client (clients s)). well_asked (q_destination (c_query c)) (q_start_time (c_query c)))"

lemma asks_ok_mono:
  "asks_ok s \<Longrightarrow> set (head_client (clients s')) \<subseteq> set (head_client (clients s)) \<Longrightarrow> asks_ok s'"
  unfolding asks_ok_def by blast

lemma serve_clients_fewer: "set (head_client (fst (serve_clients q cs))) \<subseteq> set (head_client cs)"
proof (induction q cs rule: serve_clients.induct)
  case (1 q cs)
  have "set (head_client (remove_client f cs)) \<subseteq> set (head_client cs)" for f
    using set_unlink_subset by (simp add: remove_client_def)
  with 1 show ?case
    by (subst serve_clients.simps) (force split: option.splits prod.splits)
qed

lemma handler_fewer:
  assumes "udp_handler os s d = Inr (s', ev)"
  shows "set (head_client (clients s')) \<subseteq> set (head_client (clients s))"
proof -
  obtain p where p: "udp_dispatch os s p = Inr (s', ev)"
    using assms by (auto simp only: udp_handler_def elim!: bindR_InrE)
  show ?thesis
  proof (cases "found p = 4")
    case True
    with p have "udp_finish s p = Inr (s', ev)" by (simp add: udp_dispatch_def)
    then obtain q cs where "serve_clients q (clients s) = (cs, ev)" "s' = s\<lparr>clients := cs\<rparr>" by (rule udp_finish_Inr)
    with serve_clients_fewer [of q "clients s"] show ?thesis by simp
  next
    case False
    with p have "s' = s"
      by (auto simp: udp_dispatch_def udp_return_def udp_fill_def udp_backtrace_def udp_flood_def
          split: if_splits elim!: bindR_InrE)
    then show ?thesis by simp
  qed
qed

lemma query_string_NUL: "query_string r = Inr q \<Longrightarrow> NUL \<notin> set q"
  by (auto simp: query_string_def Let_def split: received.splits if_splits)

lemma tcp_asks_ok:
  assumes "tcp_handler s a r shut = Inr (s', ev)" and "asks_ok s" and "unanswered (clients s)"
    and "clock_text (formatted_time s)"
  shows "asks_ok s'"
proof -
  from tcp_handler_parsed [OF assms(1)] consider "s' = s"
    | q d t cs where "query_string r = Inr q" "parse_request (formatted_time s) q = Inr (Some (d, t))"
      "register_query d t (new_connection a) (clients s) = Inr cs" "s' = s\<lparr>clients := cs\<rparr>" by blast
  then show ?thesis
  proof cases
    case 1
    with assms(2) show ?thesis by simp
  next
    case (2 q d t cs)
    have "well_asked d t" by (rule parse_request_well [OF 2(2) query_string_NUL [OF 2(1)] assms(4)])
    moreover have "set (head_client cs) \<subseteq> insert \<lparr>fd = new_connection a, c_query = asked d t\<rparr> (set (head_client (clients s)))"
      using register_query_head [OF assms(3) 2(3)] by blast
    ultimately show ?thesis using assms(2) 2(4) unfolding asks_ok_def by (auto simp: asked_def)
  qed
qed

lemma serve_clock:
  "serve_udp os s u = Inr (s', ev) \<Longrightarrow> formatted_time s' = formatted_time s"
  "serve_tcp s t = Inr (s', ev) \<Longrightarrow> formatted_time s' = formatted_time s"
  using udp_handler_frame tcp_handler_frame
  by (fastforce simp: serve_udp_def serve_tcp_def split: udp_input.splits tcp_input.splits)+

lemma serve_udp_asks_ok:
  assumes "serve_udp os s u = Inr (s', ev)" and "asks_ok s" and "service_ok s"
  shows "asks_ok s' \<and> service_ok s'"
proof (cases u)
  case (UdpData d)
  with assms(1) have h: "udp_handler os s d = Inr (s', ev)" by (simp add: serve_udp_def)
  from asks_ok_mono [OF assms(2) handler_fewer [OF h]] udp_handler_ok [OF h assms(3)] show ?thesis by simp
qed (use assms in \<open>auto simp: serve_udp_def\<close>)

lemma serve_tcp_asks_ok:
  assumes "serve_tcp s t = Inr (s', ev)" and "asks_ok s" and "service_ok s" and "clock_text (formatted_time s)"
  shows "asks_ok s'"
proof (cases t)
  case (TcpConn a b c)
  with assms(1) have "tcp_handler s a b c = Inr (s', ev)" by (simp add: serve_tcp_def)
  from tcp_asks_ok [OF this] assms(2-4) show ?thesis by (simp add: service_ok_def)
qed (use assms in \<open>simp add: serve_tcp_def\<close>)

text \<open>A round is a timeout, which changes nothing, or serves a datagram and then a browser.\<close>

lemma loop_step_Inr:
  assumes "loop_step os stat file sel s = Inr (s', ev)" and "service_ok s"
  obtains (idle) st tt where "s' = s\<lparr>g_station := st, g_timetable := tt\<rparr>"
  | (ready) st tt u t s1 e1 e2 where "serve_udp os (s\<lparr>g_station := st, g_timetable := tt\<rparr>) u = Inr (s1, e1)"
      and "serve_tcp s1 t = Inr (s', e2)"
proof -
  obtain st tt where step: "(case sel of
       SelectError \<Rightarrow> Inl (Exit 1)
     | Timeout is_open \<Rightarrow> timeout_walk os is_open (s\<lparr>g_station := st, g_timetable := tt\<rparr>) 0
     | Ready u t \<Rightarrow>
         bindR (serve_udp os (s\<lparr>g_station := st, g_timetable := tt\<rparr>) u) (\<lambda>(s, ev).
         bindR (serve_tcp s t) (\<lambda>(s, ev'). Inr (s, ev @ ev')))) = Inr (s', ev)"
    using assms(1) by (auto simp: loop_step_def Let_def elim!: bindR_InrE)
  show thesis
  proof (cases sel)
    case SelectError
    with step show ?thesis by simp
  next
    case (Timeout is_open)
    with step assms(2) timeout_walk_same [of "s\<lparr>g_station := st, g_timetable := tt\<rparr>" os is_open 0 s' ev] idle
    show ?thesis by (simp add: service_ok_def)
  next
    case (Ready u t)
    with step ready show ?thesis by (auto elim!: bindR_InrE)
  qed
qed

lemma loop_clock:
  assumes "loop_step os stat file sel s = Inr (s', ev)" and "service_ok s"
  shows "formatted_time s' = formatted_time s"
  using assms by (cases rule: loop_step_Inr) (auto dest!: serve_clock)

lemma round_asks_ok:
  assumes "loop_step os stat file sel s = Inr (s', ev)" and "service_ok s" and "asks_ok s"
    and "clock_text (formatted_time s)"
  shows "asks_ok s'"
  using assms(1,2)
proof (cases rule: loop_step_Inr)
  case (idle st tt)
  with assms(3) show ?thesis by (simp add: asks_ok_def)
next
  case (ready st tt u t s1 e1 e2)
  have "asks_ok s1 \<and> service_ok s1"
    using serve_udp_asks_ok [OF ready(1)] assms(2,3) by (simp add: service_ok_def asks_ok_def)
  with serve_tcp_asks_ok [OF ready(2)] serve_clock(1) [OF ready(1)] assms(4) show ?thesis by simp
qed

lemma reachable_asks_ok: "reachable os s \<Longrightarrow> clock_text (formatted_time s) \<Longrightarrow> asks_ok s"
proof (induction rule: reachable.induct)
  case (start argv f stat now ip s)
  then show ?case by (auto simp: station_init_def asks_ok_def init_clients_def elim!: bindR_InrE)
next
  case (step s stat f sel s' ev)
  note ok = reachable_ok [OF step.hyps(1)]
  from loop_clock [OF step.hyps(2) ok] round_asks_ok [OF step.hyps(2) ok] step show ?case by simp
qed

section \<open>Property\<close>

text \<open>C18. In every state the server's loop reaches, whatever the datagrams, browsers, timeouts and
  timetable updates: no descriptor is registered twice, the ring has 100 slots and its index is in
  range, no stored query, in the ring or with a browser, carries an answer, and every browser that waits asked
  for a non-empty destination that fits its buffer and holds no NUL, from a time of day on that reads as one. The hypothesis is
  on the clock the station was started at, which the loop never changes.\<close>

theorem reachable_wellformed:
  assumes "reachable os s" and "clock_text (formatted_time s)"
  shows "distinct (fds_of (clients s)) \<and> length (queries (clients s)) = 100 \<and>
    0 \<le> query_index (clients s) \<and> query_index (clients s) < 100 \<and>
    (\<forall>q\<in>set (queries (clients s)). q_answers q = []) \<and>
    (\<forall>n\<in>set (head_client (clients s)). q_answers (c_query n) = [] \<and> q_destination (c_query n) \<noteq> [] \<and>
       length (q_destination (c_query n)) < MAX_NAME_LENGTH \<and> NUL \<notin> set (q_destination (c_query n)) \<and>
       clock_text (q_start_time (c_query n)))"
  using reachable_invariant [OF assms(1)] reachable_asks_ok [OF assms] unfolding asks_ok_def well_asked_def by blast

theorem reachable_wellformed_witness:
  "\<exists>s. reachable demo_os s \<and> formatted_time s = ''09:00'' \<and> distinct (fds_of (clients s)) \<and>
     length (queries (clients s)) = 100 \<and> (\<forall>n\<in>set (head_client (clients s)). clock_text (q_start_time (c_query n)))"
proof -
  obtain s where "station_init demo_argv (Some demo_file) (Some 5) ''09:00'' ''10.0.0.1'' = Inr s" "reachable demo_os s"
    using demo_reachable by blast
  moreover from this have "formatted_time s = ''09:00''" by (auto simp: station_init_def elim!: bindR_InrE)
  moreover have "clock_text ''09:00''" by code_simp
  ultimately show ?thesis using reachable_wellformed by metis
qed

end
