(* ===== verification/Failures.thy ===== *)
theory Failures
  imports Browsers
begin

text \<open>
  What a station does with a datagram, and what can take it down. \<open>cause_of\<close> names, from the message
  that arrived and the state of the station, the reason for which the datagram handler will not finish;
  \<open>reaction\<close> is all that it does: the error of that reason, or the next state and what is sent.
  \<open>udp_verdict\<close> shows that on sound messages the handler is this function (progress);
  \<open>sound_relay\<close> and \<open>calm_sound\<close> show that all datagrams in flight between properly configured
  stations carry sound messages (preservation).
\<close>

section \<open>Causes\<close>

datatype cause =
    TooLong       \<comment> \<open>the datagram fills the receive buffer\<close>
  | SelfQuery     \<comment> \<open>the query asks for the station it was asked at\<close>
  | NoConnection  \<comment> \<open>no timetable row serves the leg to be filled in\<close>
  | NoRoom        \<comment> \<open>the message to be sent does not fit the buffer it is printed into\<close>
  | QueryGone     \<comment> \<open>the answered query is no longer in the ring\<close>

text \<open>The message the station is about to send, to another station or to the browsers.\<close>

definition outgoing :: "server \<Rightarrow> entry list \<Rightarrow> msg \<Rightarrow> msg" where
  "outgoing s es m =
     (if m_found m = 0 then
        (if m_destination m = my_name s then back_msg (arrive_msg s es m) else flood_msg s m)
      else if m_found m = 1 then
        (if m_source m = my_name s then fill_msg es (depart_msg es m) else back_msg m)
      else if m_found m = 2 then
        (if m_destination m = my_name s then back_msg (m\<lparr>m_found := 3\<rparr>) else fill_msg es m)
      else if m_source m = my_name s then m\<lparr>m_found := 4\<rparr>
      else back_msg m)"

definition no_connection :: "server \<Rightarrow> entry list \<Rightarrow> msg \<Rightarrow> bool" where
  "no_connection s es m \<longleftrightarrow>
     m_found m = 1 \<and> m_source m = my_name s \<and> leg_row es (depart_msg es m) = - 1 \<or>
     m_found m = 2 \<and> m_destination m \<noteq> my_name s \<and> leg_row es m = - 1"

text \<open>A flood with no neighbour left to visit prints nothing.\<close>

definition silent :: "server \<Rightarrow> msg \<Rightarrow> bool" where
  "silent s m \<longleftrightarrow> m_found m = 0 \<and> m_destination m \<noteq> my_name s \<and> flood_events s m = []"

definition cause_of :: "server \<Rightarrow> entry list \<Rightarrow> msg \<Rightarrow> cause option" where
  "cause_of s es m =
     (if MAXDATASIZE \<le> length (wire m) then Some TooLong
      else if m_found m = 0 \<and> m_destination m = my_name s \<and> m_source m = my_name s then Some SelfQuery
      else if no_connection s es m then Some NoConnection
      else if \<not> room (outgoing s es m) \<and> \<not> silent s m then Some NoRoom
      else if m_found m = 3 \<and> m_source m = my_name s \<and>
        \<not> ring_has (clients s) (m_destination m, m_start_time m) then Some QueryGone
      else None)"

fun error_of :: "cause \<Rightarrow> c_error" where
  "error_of NoRoom = BufferOverflow"
| "error_of QueryGone = NullDeref"
| "error_of _ = OutOfBounds"

text \<open>The datagram to the station of the hop \<open>current\<close>: its address is split at the colon.\<close>

definition to_hop :: "msg \<Rightarrow> event" where
  "to_hop m =
     (let a = m_address m ! nat (m_current m - 1) in
      UdpSend (takeWhile (\<lambda>c. c \<noteq> CHR '':'') a) (tl (dropWhile (\<lambda>c. c \<noteq> CHR '':'') a)) (wire m))"

text \<open>All that the handler does with a message, as one function: it fails for a cause, floods, answers
  the browsers, or passes the message on to one station.\<close>

definition reaction :: "server \<Rightarrow> entry list \<Rightarrow> msg \<Rightarrow> (server \<times> event list) res" where
  "reaction s es m =
     (case cause_of s es m of
        Some c \<Rightarrow> Inl (error_of c)
      | None \<Rightarrow>
          if m_found m = 0 \<and> m_destination m \<noteq> my_name s then Inr (s, flood_events s m)
          else if m_found m = 3 \<and> m_source m = my_name s then
            (let q = asked (m_destination m) (m_start_time m) in
             Inr (s\<lparr>clients := drop_waiting q (clients s)\<rparr>,
               concat (map (\<lambda>f. [TcpSend f (wire (outgoing s es m)), TcpClose f]) (waiting (clients s) q))))
          else Inr (s, [to_hop (outgoing s es m)]))"

lemma to_hop_at: "addr_at m i ip port \<Longrightarrow> m_current m = int i + 1 \<Longrightarrow> to_hop m = UdpSend ip port (wire m)"
  by (auto simp: to_hop_def addr_at_def ip_ok_def takeWhile_append dropWhile_append)

section \<open>Sound messages\<close>

text \<open>Some station of \<open>n\<close> has this name and this address; some station of this name listens here.\<close>

definition housed :: "net \<Rightarrow> string \<Rightarrow> string \<Rightarrow> bool" where
  "housed n nm a \<longleftrightarrow> (\<exists>i s. up n i = Some s \<and> nm = my_name s \<and> a = my_address s)"

definition bound_for :: "net \<Rightarrow> string \<Rightarrow> string \<Rightarrow> string \<Rightarrow> bool" where
  "bound_for n nm h p \<longleftrightarrow> (\<exists>i s. up n i = Some s \<and> nm = my_name s \<and> h = local_ip s \<and> p = UDP_port s)"

text \<open>
  A message as the protocol leaves it: its hops are different stations, the source is the first of them,
  and once it is found the last hop is the destination and \<open>current\<close> is a hop; the legs up
  to \<open>current\<close> have times.
\<close>

definition on_track :: "msg \<Rightarrow> bool" where
  "on_track m \<longleftrightarrow> m_found m = 0 \<or>
     m_found m \<in> {1, 2, 3} \<and> 1 \<le> m_current m \<and> m_current m \<le> int (m_hops m) \<and>
     m_stations m ! (m_hops m - 1) = m_destination m \<and>
     (m_found m = 1 \<longrightarrow> m_current m < int (m_hops m)) \<and>
     (m_found m = 2 \<longrightarrow> 2 \<le> m_current m \<and> is_time (m_time m ! nat (m_current m - 1)))"

definition sound_msg :: "net \<Rightarrow> msg \<Rightarrow> bool" where
  "sound_msg n m \<longleftrightarrow> wf_msg m \<and> is_time (m_start_time m) \<and>
     list_all2 (housed n) (m_stations m) (m_address m) \<and>
     distinct (m_stations m) \<and> (m_stations m = [] \<or> hd (m_stations m) = m_source m) \<and> on_track m"

text \<open>The station that is to handle the message next; a query that has left its source may go anywhere.\<close>

definition holder :: "msg \<Rightarrow> string" where
  "holder m = (if m_found m = 0 then m_source m else m_stations m ! nat (m_current m - 1))"

definition addressee :: "msg \<Rightarrow> string option" where
  "addressee m = (if m_found m = 0 \<and> m_hops m \<noteq> 0 then None else Some (holder m))"

text \<open>What is in flight; \<open>Q\<close> is what one may know besides of the messages of a particular network.\<close>

definition sound_flight :: "net \<Rightarrow> (msg \<Rightarrow> bool) \<Rightarrow> datagram \<Rightarrow> bool" where
  "sound_flight n Q x \<longleftrightarrow> (case x of (h, p, d) \<Rightarrow> \<exists>m. d = wire m \<and> sound_msg n m \<and> Q m \<and>
     (case addressee m of None \<Rightarrow> True | Some nm \<Rightarrow> bound_for n nm h p))"

definition kept :: "net \<Rightarrow> (msg \<Rightarrow> bool) \<Rightarrow> bool" where
  "kept n Q \<longleftrightarrow>
     (\<forall>i s d t. up n i = Some s \<longrightarrow> well_asked d t \<longrightarrow> Q (query_msg (my_name s) d t)) \<and>
     (\<forall>i s cs es m m'. up n i = Some s \<longrightarrow> server_ok s es \<longrightarrow> sound_msg n m \<longrightarrow> Q m \<longrightarrow>
        addressee m \<in> {None, Some (my_name s)} \<longrightarrow> msg_step (s\<lparr>clients := cs\<rparr>) es m m' \<longrightarrow> Q m')"

lemma kept_all: "kept n (\<lambda>_. True)"
  by (simp add: kept_def)

lemma sound_parts:
  assumes "sound_msg n m"
  shows "wf_msg m" and "is_time (m_start_time m)" and "lens m" and "on_track m"
    and "i < m_hops m \<Longrightarrow> housed n (m_stations m ! i) (m_address m ! i)"
    and "i < m_hops m \<Longrightarrow> m_stations m ! i = m_source m \<longleftrightarrow> i = 0"
proof -
  show "wf_msg m" "is_time (m_start_time m)" "lens m" "on_track m"
    "i < m_hops m \<Longrightarrow> housed n (m_stations m ! i) (m_address m ! i)"
    using assms wf_lens [of m] by (auto simp: sound_msg_def m_hops_def list_all2_conv_all_nth)
  show "m_stations m ! i = m_source m \<longleftrightarrow> i = 0" if i: "i < m_hops m"
  proof -
    have "m_stations m \<noteq> []" using i by (auto simp: m_hops_def)
    then have "m_stations m ! 0 = m_source m" "distinct (m_stations m)"
      using assms by (simp_all add: sound_msg_def hd_conv_nth)
    then show ?thesis using i by (metis gr_implies_not0 gr_zeroI m_hops_def nth_eq_iff_index_eq)
  qed
qed

section \<open>Progress\<close>

lemma hop_addr:
  assumes "sound_msg n m" and "stations_ok W n" and "i < m_hops m"
  shows "\<exists>ip port. addr_at m i ip port"
proof -
  obtain j r where r: "up n j = Some r" "m_address m ! i = my_address r"
    using sound_parts(5) [OF assms(1,3)] by (auto simp: housed_def)
  then obtain es where "server_ok r es" using assms(2) by (auto simp: stations_ok_def station_ok_def)
  then show ?thesis using addr_at_place [OF _ assms(3) r(2)] by blast
qed

lemma departs_none:
  assumes "wf_msg m" and "length (wire m) < MAXDATASIZE" and "m_found m = 1"
    and "m_source m = my_name s" and "is_time (m_start_time m)" and "server_ok s es"
    and "m_current m = 1" and "1 < m_hops m" and "leg_row es (depart_msg es m) = - 1"
  shows "udp_handler os s (wire m) = Inl OutOfBounds"
proof -
  let ?d = "depart_msg es m"
  have l: "lens m" "lens ?d" using wf_lens [OF assms(1)] by (simp_all add: lens_def)
  have "0 < length (m_time m)" using l(1) assms(8) by (simp add: lens_def)
  then have "is_time (m_time ?d ! nat (m_current ?d - 1))" using assms(7) is_time_depart [OF assms(6)] by simp
  then have "fill_leg s (mem e ?d) = Inl OutOfBounds" for e
    using assms(7-9) by (intro fill_leg_none [OF l(2) assms(6)]) simp_all
  moreover have "udp_at_source s (mem e m) = Inr (mem e ?d)" for e
    using l(1) assms by (intro source_depart) simp_all
  ultimately show ?thesis
    using assms(3) by (simp add: udp_receive [OF assms(1,2)] dest_other udp_dispatch_def udp_fill_def)
qed

lemma too_long: "MAXDATASIZE \<le> length d \<Longrightarrow> udp_handler os s d = Inl OutOfBounds"
  by (simp add: udp_handler_def checkR_def)

text \<open>A found message at the station it was sent to.\<close>

lemma at_holder:
  assumes "sound_msg n m" and "addressee m \<in> {None, Some (my_name s)}" and "m_found m \<noteq> 0"
  shows "m_found m \<in> {1, 2, 3}" and "1 \<le> m_current m" and "m_current m \<le> int (m_hops m)"
    and "m_stations m ! nat (m_current m - 1) = my_name s" and "m_current m = 1 \<longleftrightarrow> m_source m = my_name s"
    and "m_found m = 1 \<Longrightarrow> m_current m < int (m_hops m)"
    and "m_found m = 2 \<Longrightarrow> 2 \<le> m_current m \<and> is_time (m_time m ! nat (m_current m - 1))"
    and "m_found m = 2 \<Longrightarrow> m_destination m \<noteq> my_name s \<Longrightarrow> m_current m < int (m_hops m)"
proof -
  have t: "on_track m" by (rule sound_parts [OF assms(1)])
  from t assms(3) show f: "m_found m \<in> {1, 2, 3}" and c: "1 \<le> m_current m" "m_current m \<le> int (m_hops m)"
    and "m_found m = 1 \<Longrightarrow> m_current m < int (m_hops m)"
    and "m_found m = 2 \<Longrightarrow> 2 \<le> m_current m \<and> is_time (m_time m ! nat (m_current m - 1))"
    by (auto simp: on_track_def)
  show nm: "m_stations m ! nat (m_current m - 1) = my_name s"
    using assms(2,3) by (simp add: addressee_def holder_def)
  show "m_current m = 1 \<longleftrightarrow> m_source m = my_name s"
    using sound_parts(6) [OF assms(1), of "nat (m_current m - 1)"] nm c by auto
  show "m_current m < int (m_hops m)" if "m_found m = 2" "m_destination m \<noteq> my_name s"
  proof -
    have "nat (int (m_hops m) - 1) = m_hops m - 1" by simp
    then have "m_current m \<noteq> int (m_hops m)" using t nm that by (auto simp: on_track_def)
    with c(2) show ?thesis by simp
  qed
qed

lemma no_connection_fails:
  assumes "sound_msg n m" and "no_connection s es m" and "length (wire m) < MAXDATASIZE" and "server_ok s es"
    and "addressee m \<in> {None, Some (my_name s)}"
  shows "udp_handler os s (wire m) = Inl OutOfBounds"
proof -
  note m = sound_parts [OF assms(1)]
  have f: "m_found m \<noteq> 0" using assms(2) by (auto simp: no_connection_def)
  note at = at_holder [OF assms(1,5) f]
  show ?thesis
  proof (cases "m_found m = 1")
    case True
    with assms(2,3,4) m at show ?thesis by (intro departs_none) (auto simp: no_connection_def)
  next
    case False
    then have n: "m_found m = 2" "m_destination m \<noteq> my_name s" "leg_row es m = - 1"
      using assms(2) by (auto simp: no_connection_def)
    then show ?thesis
      using at assms(3,4) m(1) fill_leg_none [OF m(3) assms(4)]
      by (simp add: udp_receive dest_other source_other udp_dispatch_def udp_fill_def)
  qed
qed

text \<open>The step the message takes, when it takes one.\<close>

lemma sound_steps:
  assumes "sound_msg n m" and "addressee m \<in> {None, Some (my_name s)}" and "\<not> no_connection s es m"
    and "\<not> (m_found m = 0 \<and> m_destination m = my_name s \<and> m_source m = my_name s)"
    and "\<not> (m_found m = 3 \<and> m_source m = my_name s)"
  shows "msg_step s es m (outgoing s es m)"
proof (cases "m_found m = 0")
  case True
  have "1 \<le> m_hops m" if "m_destination m = my_name s"
    using assms(2,4) True that by (cases "m_hops m = 0") (auto simp: addressee_def holder_def)
  with True assms(4) show ?thesis by (auto simp: outgoing_def intro: msg_step.intros)
next
  case False
  note at = at_holder [OF assms(1,2) False]
  consider "m_found m = 1" | "m_found m = 2" | "m_found m = 3" using at(1) by blast
  then show ?thesis
    using at assms(3,5) by cases (auto simp: outgoing_def no_connection_def intro: msg_step.intros)
qed

text \<open>A message that takes a step: what is sent, if the buffer holds it.\<close>

definition sending :: "server \<Rightarrow> entry list \<Rightarrow> msg \<Rightarrow> (server \<times> event list) res" where
  "sending s es m =
     (if m_found m = 0 \<and> m_destination m \<noteq> my_name s
      then bindR (sends (flood_msg s m) (flood_events s m)) (\<lambda>ev. Inr (s, ev))
      else printed (outgoing s es m) (Inr (s, [to_hop (outgoing s es m)])))"

lemma sendingI:
  assumes "m_found m \<noteq> 0 \<or> m_destination m = my_name s" and "outgoing s es m = m'"
    and "addr_at m' i ip port" and "m_current m' = int i + 1"
    and "r = printed m' (Inr (s, [UdpSend ip port (wire m')]))"
  shows "r = sending s es m"
  using assms(1,2,5) to_hop_at [OF assms(3,4)] by (auto simp: sending_def)

lemma sound_handled:
  assumes "sound_msg n m" and "stations_ok W n" and "addressee m \<in> {None, Some (my_name s)}"
    and "length (wire m) < MAXDATASIZE" and "msg_step s es m (outgoing s es m)"
    and "server_ok s es" and "benign os" and "num_neighbours s = int (length (g_neighbours s))"
  shows "udp_handler os s (wire m) = sending s es m"
proof -
  note m = sound_parts [OF assms(1)]
  have addr: "\<exists>ip port. addr_at m i ip port" if "i < m_hops m" for i
    using hop_addr [OF assms(1,2) that] .
  from assms(5) show ?thesis
  proof cases
    case flood
    then show ?thesis using flooding [OF m(1) assms(4)] assms(6-8) by (simp add: sending_def)
  next
    case arrive
    then obtain i where i: "m_hops m = Suc i" by (cases "m_hops m") auto
    obtain ip port where a: "addr_at m i ip port" using addr [of i] i by auto
    show ?thesis
    proof (rule sendingI)
      show "addr_at (back_msg (arrive_msg s es m)) i ip port"
        using a i m(3) by (simp add: addr_at_def arrive_msg_def nth_append lens_def)
    qed (use arrive i a arriving [OF m(1) assms(4)] assms(6,7) in \<open>simp_all add: arrive_msg_def\<close>)
  next
    case pass_back
    then obtain i where i: "m_current m = int i + 2" "i < m_hops m"
      by (intro that [of "nat (m_current m - 2)"]) auto
    obtain ip port where a: "addr_at m i ip port" using addr [of i] i by auto
    then show ?thesis
      using pass_back i stepping_back [OF m(1) assms(4)] assms(7)
      by (intro sendingI [of m s es "back_msg m" i]) (auto simp: addr_at_def)
  next
    case depart
    have f: "m_found m \<noteq> 0" using depart by simp
    note at = at_holder [OF assms(1,3) f]
    have c: "m_current m = 1" "1 < m_hops m" using at depart by auto
    obtain ip port where a: "addr_at m 1 ip port" using addr [of 1] c by auto
    then show ?thesis
      using depart c departing [OF m(1) assms(4)] m(2) assms(6,7)
      by (intro sendingI [of m s es "fill_msg es (depart_msg es m)" 1]) (auto simp: addr_at_def fill_msg_simps)
  next
    case fill
    have f: "m_found m \<noteq> 0" using fill by simp
    note at = at_holder [OF assms(1,3) f]
    obtain i where i: "m_current m = int i" "i < m_hops m" "1 \<le> i" "nat (m_current m - 1) = i - 1"
      using fill by (intro that [of "nat (m_current m)"]) auto
    obtain ip port where a: "addr_at m i ip port" using addr [of i] i by auto
    have t: "is_time (m_time m ! (i - 1))" using at(7) fill(2) i(4) by simp
    show ?thesis
    proof (rule sendingI)
      show "addr_at (fill_msg es m) i ip port" using a by (simp add: addr_at_def fill_msg_simps)
      show "udp_handler os s (wire m) = printed (fill_msg es m) (Inr (s, [UdpSend ip port (wire (fill_msg es m))]))"
        by (rule filling [OF m(1) assms(4) fill(2,3) assms(6,7) i(1,3) t fill(6) a])
    qed (use fill i in \<open>simp_all add: fill_msg_simps\<close>)
  next
    case confirm
    then obtain i where i: "m_current m = int i + 2" "i < m_hops m"
      by (intro that [of "nat (m_current m - 2)"]) auto
    obtain ip port where a: "addr_at m i ip port" using addr [of i] i by auto
    show ?thesis
      using confirm i a confirming [OF m(1) assms(4)] assms(7)
      by (intro sendingI [of m s es "back_msg (m\<lparr>m_found := 3\<rparr>)" i]) (auto simp: addr_at_def)
  qed
qed

text \<open>A confirmed route at its source.\<close>

lemma arrived_query:
  assumes "wf_msg m" and "length (wire m) < MAXDATASIZE" and "m_found m = 3" and "m_source m = my_name s"
    and "service_ok s"
  shows "udp_handler os s (wire m) = reaction s es m"
proof -
  have out: "outgoing s es m = m\<lparr>m_found := 4\<rparr>" using assms(3,4) by (simp add: outgoing_def)
  have cause: "cause_of s es m = (if \<not> room m then Some NoRoom
      else if \<not> ring_has (clients s) (m_destination m, m_start_time m) then Some QueryGone else None)"
    using assms(2-4) by (simp add: cause_of_def out room_four no_connection_def silent_def)
  show ?thesis
  proof (cases "ring_has (clients s) (m_destination m, m_start_time m)")
    case True
    then show ?thesis
      using answered [OF assms(5,1-4) True, of os] cause assms(3,4)
      by (simp add: reaction_def out printed_def Let_def)
  next
    case False
    with not_answered [OF assms(5,1-4) False, of os] cause show ?thesis by (simp add: reaction_def printed_def)
  qed
qed

lemma self_query_fails:
  assumes "wf_msg m" and "length (wire m) < MAXDATASIZE" and "m_found m = 0" and "m_destination m = my_name s"
    and "m_source m = my_name s" and "server_ok s es"
  shows "udp_handler os s (wire m) = Inl OutOfBounds"
  using dest_arrive [OF assms(1,6,3,4)] udp_self_crash [OF assms(1), of s es] assms(3,5)
  by (simp add: udp_receive [OF assms(1,2)] udp_at_source_def arrive_msg_simps)

lemma udp_verdict:
  assumes "sound_msg n m" and "stations_ok W n" and "addressee m \<in> {None, Some (my_name s)}"
    and "server_ok s es" and "service_ok s" and "benign os" and "num_neighbours s = int (length (g_neighbours s))"
  shows "udp_handler os s (wire m) = reaction s es m"
proof -
  note wf = sound_parts(1) [OF assms(1)]
  consider (long) "MAXDATASIZE \<le> length (wire m)"
    | (self) "length (wire m) < MAXDATASIZE" "m_found m = 0 \<and> m_destination m = my_name s \<and> m_source m = my_name s"
    | (none) "length (wire m) < MAXDATASIZE" "no_connection s es m"
    | (home) "length (wire m) < MAXDATASIZE" "m_found m = 3 \<and> m_source m = my_name s"
    | (onward) "length (wire m) < MAXDATASIZE" "\<not> no_connection s es m"
        "\<not> (m_found m = 0 \<and> m_destination m = my_name s \<and> m_source m = my_name s)"
        "\<not> (m_found m = 3 \<and> m_source m = my_name s)"
    by (meson not_le)
  then show ?thesis
  proof cases
    case long
    then show ?thesis by (simp add: too_long reaction_def cause_of_def)
  next
    case self
    then show ?thesis
      using self_query_fails [OF wf self(1) _ _ _ assms(4)] by (simp add: reaction_def cause_of_def)
  next
    case none
    then have "\<not> (m_found m = 0 \<and> m_destination m = my_name s \<and> m_source m = my_name s)"
      by (auto simp: no_connection_def)
    with none show ?thesis
      using no_connection_fails [OF assms(1) none(2,1) assms(4,3)] by (simp add: reaction_def cause_of_def)
  next
    case home
    then show ?thesis using arrived_query [OF wf _ _ _ assms(5)] by simp
  next
    case onward
    have "cause_of s es m = (if \<not> room (outgoing s es m) \<and> \<not> silent s m then Some NoRoom else None)"
      using onward by (auto simp: cause_of_def)
    moreover have "m_found m = 0 \<and> m_destination m \<noteq> my_name s \<Longrightarrow> outgoing s es m = flood_msg s m"
      by (simp add: outgoing_def)
    ultimately have "sending s es m = reaction s es m"
      using onward(4) by (auto simp: sending_def reaction_def sends_def printed_def silent_def)
    with sound_handled [OF assms(1-3) onward(1) sound_steps [OF assms(1,3) onward(2-4)] assms(4,6,7)]
    show ?thesis by simp
  qed
qed

section \<open>Preservation\<close>

lemma housed_self: "comes_from n0 n \<Longrightarrow> up n i = Some s \<Longrightarrow> housed n0 (my_name s) (my_address s)"
  unfolding comes_from_def housed_def my_name_def by (metis my_address_clients server.select_convs(1) server.surjective server.update_convs(11))

lemma list_all2_snoc: "list_all2 P xs ys \<Longrightarrow> P x y \<Longrightarrow> list_all2 P (xs @ [x]) (ys @ [y])"
  by (simp add: list_all2_appendI)

text \<open>Where a routed message goes.\<close>

lemma routed_bound:
  assumes "routed m h p t" and "sound_msg n m" and "stations_ok W n" and "m_found m \<noteq> 0"
  shows "bound_for n (holder m) h p"
proof -
  have c: "1 \<le> m_current m" "m_current m \<le> int (m_hops m)"
    using sound_parts(4) [OF assms(2)] assms(4) by (auto simp: on_track_def)
  define i where "i = nat (m_current m - 1)"
  have i: "m_current m = int i + 1" "i < m_hops m" using c by (auto simp: i_def)
  obtain j r where r: "up n j = Some r" "m_stations m ! i = my_name r" "m_address m ! i = my_address r"
    using sound_parts(5) [OF assms(2) i(2)] by (auto simp: housed_def)
  then obtain es where "server_ok r es" using assms(3) by (auto simp: stations_ok_def station_ok_def)
  then have a: "addr_at m i (local_ip r) (UDP_port r)" using addr_at_place i(2) r(3) by blast
  have l: "lens m" by (rule sound_parts [OF assms(2)])
  have "in_int (int i)" using i(2) sound_parts(1) [OF assms(2)] by (simp add: wf_msg_def in_int_def)
  then have "get_ip_port (struct_of m) (int i + 1) = Inr (Some (local_ip r), Some (UDP_port r))"
    using a mem_rd(2) [OF l, of "int i" "spare (m_found m)"] i(2)
    by (intro get_ip_port_split) (simp_all add: addr_at_def struct_of_def)
  then have "h = local_ip r" "p = UDP_port r" using assms(1) i(1) by (simp_all add: routed_def)
  with r show ?thesis using assms(4) unfolding bound_for_def holder_def i_def by auto
qed

lemma fill_msg_frame [simp]:
  "m_stations (fill_msg es m) = m_stations m" "m_source (fill_msg es m) = m_source m"
  "m_destination (fill_msg es m) = m_destination m" "m_start_time (fill_msg es m) = m_start_time m"
  by (simp_all add: fill_msg_def Let_def)

lemma back_msg_frame [simp]:
  "m_stations (back_msg m) = m_stations m" "m_source (back_msg m) = m_source m" "m_time (back_msg m) = m_time m"
  "m_destination (back_msg m) = m_destination m" "m_start_time (back_msg m) = m_start_time m"
  by (simp_all add: back_msg_def)

text \<open>Filling in a leg gives the next hop a time.\<close>

lemma filled_time:
  assumes "lens m" and "server_ok s es" and "leg_row es m \<noteq> - 1" and "0 \<le> m_current m" and "m_current m < int (m_hops m)"
  shows "is_time (m_time (fill_msg es m) ! nat (m_current m))"
proof -
  have "entry_ok (es ! nat (leg_row es m))"
    using server_row(2) [OF assms(2) _ assms(3)] by (simp add: leg_row_def)
  moreover have "nat (m_current m) < length (m_time m)" using assms(1,4,5) by (simp add: lens_def)
  ultimately show ?thesis by (simp add: fill_msg_def Let_def entry_ok_def)
qed

text \<open>The station enters itself as a new hop.\<close>

lemma hop_added:
  assumes "sound_msg n m" and "housed n (my_name s) (my_address s)" and "my_name s \<notin> set (m_stations m)"
    and "m_hops m = 0 \<longrightarrow> my_name s = m_source m"
  shows "list_all2 (housed n) (m_stations m @ [my_name s]) (m_address m @ [my_address s])"
    and "distinct (m_stations m @ [my_name s])" and "hd (m_stations m @ [my_name s]) = m_source m"
  using assms by (auto simp: sound_msg_def m_hops_def hd_append intro: list_all2_snoc)

lemma sound_step:
  assumes "sound_msg n m" and "addressee m \<in> {None, Some (my_name s)}" and "msg_step s es m m'" and "server_ok s es"
    and "housed n (my_name s) (my_address s)" and "m_found m = 0 \<longrightarrow> my_name s \<notin> set (m_stations m)"
    and "m_hops m < MAXDATASIZE"
  shows "sound_msg n m'"
proof -
  note m = sound_parts [OF assms(1)]
  have wf: "wf_msg m'" by (rule msg_step_wf [OF assms(3) m(1) assms(4,7)])
  have new: "my_name s \<notin> set (m_stations m)" "m_hops m = 0 \<longrightarrow> my_name s = m_source m" if "m_found m = 0"
    using assms(2,6) that by (auto simp: addressee_def holder_def)
  note at = at_holder [OF assms(1,2)]
  from assms(3) show ?thesis
  proof cases
    case flood
    with hop_added [OF assms(1,5) new] m(2) wf show ?thesis
      by (simp add: sound_msg_def flood_msg_def on_track_def)
  next
    case arrive
    note added = hop_added [OF assms(1,5) new [OF arrive(2)]]
    have "(m_stations m @ [my_name s]) ! m_hops m = my_name s" by (simp add: m_hops_def nth_append)
    with added m(2) wf arrive show ?thesis
      by (simp add: sound_msg_def arrive_msg_def on_track_def back_msg_def m_hops_def)
  next
    case pass_back
    with assms(1) wf at show ?thesis by (auto simp: sound_msg_def on_track_def back_msg_def m_hops_def)
  next
    case depart
    have "m_found m \<noteq> 0" using depart by simp
    note at = at [OF this]
    have "lens (depart_msg es m)" using m(3) by (simp add: lens_def)
    from filled_time [OF this assms(4) depart(6)] depart at m wf assms(1) show ?thesis
      by (simp add: sound_msg_def on_track_def fill_msg_simps)
  next
    case fill
    have "m_found m \<noteq> 0" using fill by simp
    note at = at [OF this]
    from filled_time [OF m(3) assms(4) fill(6)] fill at m wf assms(1) show ?thesis
      by (simp add: sound_msg_def on_track_def fill_msg_simps)
  next
    case confirm
    with assms(1) wf at show ?thesis by (auto simp: sound_msg_def on_track_def back_msg_def m_hops_def)
  qed
qed

section \<open>Properly configured networks\<close>

text \<open>
  The stations can send, know how many neighbours they have, are found under their own address, list
  each other under these addresses and have different names; nothing is in flight. Their clock shows
  a time of day, and no browser has asked for anything else than what they accept.
\<close>

definition laid_out :: "world \<Rightarrow> net \<Rightarrow> bool" where
  "laid_out W n \<longleftrightarrow> flight n = {#} \<and> stations_ok W n \<and> addressed W n \<and>
     (\<forall>i s. up n i = Some s \<longrightarrow> route W (local_ip s) (UDP_port s) = Some i \<and> benign (sys W i) \<and>
        num_neighbours s = int (length (g_neighbours s)) \<and> clock_text (formatted_time s) \<and> asks_ok s) \<and>
     (\<forall>i j r s. up n i = Some r \<longrightarrow> up n j = Some s \<longrightarrow> my_name r = my_name s \<longrightarrow> i = j)"

lemma laid_out_stations: "laid_out W n \<Longrightarrow> stations_ok W n"
  by (simp add: laid_out_def)

lemma laid_out_home:
  assumes "laid_out W n" and "up n i = Some s"
  shows "route W (local_ip s) (UDP_port s) = Some i" and "benign (sys W i)"
    and "num_neighbours s = int (length (g_neighbours s))" and "\<exists>es. server_ok s es"
    and "clock_text (formatted_time s)" and "asks_ok s"
  using assms unfolding laid_out_def stations_ok_def station_ok_def by blast+

lemma laid_out_name: "laid_out W n \<Longrightarrow> up n i = Some r \<Longrightarrow> up n j = Some s \<Longrightarrow> my_name r = my_name s \<Longrightarrow> i = j"
  unfolding laid_out_def by blast

text \<open>The browsers that wait asked for a station name of one word.\<close>

definition polite :: "server \<Rightarrow> bool" where
  "polite s \<longleftrightarrow> (\<forall>c\<in>set (head_client (clients s)). CHR '' '' \<notin> set (q_destination (c_query c)))"

inductive calm :: "world \<Rightarrow> net \<Rightarrow> net \<Rightarrow> bool" for W n0 where
  outset: "\<forall>i s. up n0 i = Some s \<longrightarrow> polite s \<Longrightarrow> calm W n0 n0"
| advance: "calm W n0 n \<Longrightarrow> net_step W n n' \<Longrightarrow> \<forall>i s. up n' i = Some s \<longrightarrow> polite s \<Longrightarrow> calm W n0 n'"

lemma calm_polite: "calm W n0 n \<Longrightarrow> up n i = Some s \<Longrightarrow> polite s"
  by (erule calm.cases) blast+

lemma calm_network: "calm W n0 n \<Longrightarrow> network W n0 n"
  by (induction rule: calm.induct) (auto intro: network.intros)

lemma came_from:
  assumes "comes_from n0 n" and "up n i = Some s"
  obtains s0 cs where "up n0 i = Some s0" and "s = s0\<lparr>clients := cs\<rparr>"
  using assms unfolding comes_from_def by blast

text \<open>The station a sound datagram is handed to is the one it is meant for.\<close>

lemma handed_to:
  assumes "sound_flight n0 Q (h, p, d)" and "route W h p = Some i" and "up n i = Some s"
    and "laid_out W n0" and "comes_from n0 n"
  shows "\<exists>m. d = wire m \<and> sound_msg n0 m \<and> Q m \<and> addressee m \<in> {None, Some (my_name s)}"
proof -
  obtain m where m: "d = wire m" "sound_msg n0 m" "Q m"
    "case addressee m of None \<Rightarrow> True | Some nm \<Rightarrow> bound_for n0 nm h p"
    using assms(1) by (auto simp: sound_flight_def)
  have "nm = my_name s" if nm: "addressee m = Some nm" for nm
  proof -
    obtain j r where r: "up n0 j = Some r" "nm = my_name r" "h = local_ip r" "p = UDP_port r"
      using m(4) nm by (auto simp: bound_for_def)
    then have "j = i" using laid_out_home(1) [OF assms(4) r(1)] assms(2) by simp
    moreover obtain s0 cs where "up n0 i = Some s0" "s = s0\<lparr>clients := cs\<rparr>" using came_from [OF assms(5,3)] .
    ultimately show ?thesis using r(1,2) by (simp add: my_name_def)
  qed
  with m show ?thesis by (cases "addressee m") auto
qed

text \<open>A query is not handed to a station it has passed.\<close>

lemma not_visited:
  assumes "sound_msg n0 m" and "my_address s \<notin> set (m_address m)" and "up n i = Some s"
    and "laid_out W n0" and "comes_from n0 n"
  shows "my_name s \<notin> set (m_stations m)"
proof
  assume "my_name s \<in> set (m_stations m)"
  then obtain k where k: "k < m_hops m" "m_stations m ! k = my_name s" by (auto simp: in_set_conv_nth m_hops_def)
  obtain s0 cs where s0: "up n0 i = Some s0" "s = s0\<lparr>clients := cs\<rparr>" using came_from [OF assms(5,3)] .
  obtain j r where r: "up n0 j = Some r" "m_stations m ! k = my_name r" "m_address m ! k = my_address r"
    using sound_parts(5) [OF assms(1) k(1)] by (auto simp: housed_def)
  have "my_name r = my_name s0" using k(2) r(2) s0(2) by (simp add: my_name_def)
  then have "j = i" by (rule laid_out_name [OF assms(4) r(1) s0(1)])
  then have "my_address s = m_address m ! k" using r s0 by simp
  moreover have "length (m_address m) = m_hops m" using sound_parts(3) [OF assms(1)] by (simp add: lens_def)
  ultimately show False using assms(2) k(1) by (metis nth_mem)
qed

lemma carries_own: "wf_msg m \<Longrightarrow> length (wire m) < MAXDATASIZE \<Longrightarrow> carries (wire m) m"
  using hops_below_length [of m] by (simp add: carries_def load_wire_cstr del: MAXDATASIZE_def)

lemma sound_relay:
  assumes "sound_flight n0 Q (h, p, d)" and "fresh_for W n0 n (h, p, d)" and "route W h p = Some i" and "up n i = Some s"
    and "laid_out W n0" and "comes_from n0 n" and "udp_handler os s d = Inr (s', ev)" and "server_ok s es"
    and "x \<in># datagrams ev" and "kept n0 Q"
  shows "sound_flight n0 Q x"
proof -
  obtain h' p' t where x: "x = (h', p', t)" by (cases x)
  obtain m where m: "d = wire m" "sound_msg n0 m" "addressee m \<in> {None, Some (my_name s)}" "Q m"
    using handed_to [OF assms(1,3,4,5,6)] by blast
  note wf = sound_parts(1) [OF m(2)]
  obtain m1 m' where s: "carries d m1" "msg_step s es m1 m'" "t = wire m'"
    "if m_found m' = 0 then flooded s m1 h' p' t else routed m' h' p' t"
    using handler_simulates [OF assms(7,8)] assms(9) unfolding relayed_def in_datagrams x by blast
  have same: "m1 = m" using carries_wire s(1) m(1) wf by blast
  have far: "m_found m = 0 \<longrightarrow> my_name s \<notin> set (m_stations m)"
    using not_visited [OF m(2) _ assms(4,5,6)] assms(2,3,4) s(1) same unfolding fresh_for_def by blast
  note st = laid_out_stations [OF assms(5)]
  have "m_hops m < MAXDATASIZE" using s(1) same by (simp add: carries_def)
  with s(2) far have sound: "sound_msg n0 m'"
    using sound_step [OF m(2,3) _ assms(8) housed_self [OF assms(6,4)]] same by blast
  have place: "case addressee m' of None \<Rightarrow> True | Some nm \<Rightarrow> bound_for n0 nm h' p'"
  proof (cases "m_found m' = 0")
    case True
    then have "m_hops m' \<noteq> 0" using flood_step_hops [OF s(2)] by (simp add: flood_msg_def)
    with True show ?thesis by (simp add: addressee_def)
  next
    case False
    with s(4) routed_bound [OF _ sound st False] show ?thesis by (simp add: addressee_def)
  qed
  obtain s0 cs where s0: "up n0 i = Some s0" "s = s0\<lparr>clients := cs\<rparr>" using came_from [OF assms(6,4)] .
  then have "server_ok s0 es" using assms(8) by (simp add: server_ok_clients)
  moreover have "addressee m \<in> {None, Some (my_name s0)}" using m(3) s0(2) by (simp add: my_name_def)
  ultimately have "Q m'" using assms(10) s0 m(2,4) s(2) same unfolding kept_def by blast
  with place show ?thesis using sound s(3) by (auto simp: sound_flight_def x)
qed

lemma sound_ask:
  assumes "asks s x" and "polite s" and "up n i = Some s" and "comes_from n0 n" and "laid_out W n0"
    and "asks_ok s" and "kept n0 Q"
  shows "sound_flight n0 Q x"
proof -
  obtain c where c: "c \<in> set (head_client (clients s))" "x = (local_ip s, UDP_port s, wire (ask_msg s (c_query c)))"
    using assms(1) by (auto simp: asks_def)
  let ?m = "ask_msg s (c_query c)"
  obtain s0 cs where s0: "up n0 i = Some s0" "s = s0\<lparr>clients := cs\<rparr>" using came_from [OF assms(4,3)] .
  obtain es where "server_ok s0 es" using laid_out_home(4) [OF assms(5) s0(1)] by blast
  then have "token MAX_NAME_LENGTH (my_name s)" using s0(2) by (simp add: server_ok_def my_name_def)
  moreover have q: "?m = query_msg (my_name s) (q_destination (c_query c)) (q_start_time (c_query c))"
    by (simp add: ask_msg_def query_msg_def)
  moreover have t: "token MAX_NAME_LENGTH (q_destination (c_query c))" "clock_text (q_start_time (c_query c))"
    using assms(2,6) c(1) unfolding polite_def asks_ok_def well_asked_def token_def by blast+
  ultimately have "wf_msg ?m" using wf_query by simp
  moreover have "is_time (m_start_time ?m)" using t(2) by (simp add: ask_msg_def clock_text_def)
  ultimately have "sound_msg n0 ?m" by (simp add: sound_msg_def on_track_def) (simp add: ask_msg_def m_hops_def)
  moreover have "addressee ?m = Some (my_name s)" by (simp add: addressee_def holder_def) (simp add: ask_msg_def m_hops_def)
  moreover have "bound_for n0 (my_name s) (local_ip s) (UDP_port s)"
    using s0 by (auto simp: bound_for_def my_name_def)
  moreover have "well_asked (q_destination (c_query c)) (q_start_time (c_query c))"
    using assms(6) c(1) by (simp add: asks_ok_def)
  then have "Q ?m" using assms(7) s0 q unfolding kept_def by (simp add: my_name_def) 
  ultimately show ?thesis by (auto simp: sound_flight_def c(2))
qed

text \<open>The browsers' requests stay well-formed, whatever the browsers send.\<close>

lemma net_step_asks_ok:
  assumes "net_step W n n'" and "stations_ok W n"
    and "\<And>i s. up n i = Some s \<Longrightarrow> asks_ok s \<and> clock_text (formatted_time s)" and "up n' i = Some s"
  shows "asks_ok s"
proof -
  have round: "asks_ok s'" if "up n i = Some s" "round_of W i sel s = Inr (s', ev)" for i s sel s' ev
    using round_asks_ok [OF that(2)] assms(2,3) that(1) by (simp add: stations_ok_def station_ok_def)
  from assms(1) show ?thesis
  proof cases
    case deliver
    then show ?thesis
    proof cases
      case hand_over
      then show ?thesis using assms(3,4) round by (auto split: if_splits)
    qed (use assms(3,4) in \<open>auto split: if_splits\<close>)
  next
    case idle_round
    then show ?thesis using assms(3,4) round by (auto split: if_splits)
  qed (use assms(3,4) in \<open>auto split: if_splits\<close>)
qed

lemma network_asks_ok:
  assumes "network W n0 n" and "laid_out W n0"
  shows "\<forall>i s. up n i = Some s \<longrightarrow> asks_ok s \<and> clock_text (formatted_time s)"
  using assms(1)
proof induction
  case initial
  then show ?case using laid_out_home(5,6) [OF assms(2)] by blast
next
  case (onward n n')
  have n0: "flight n0 = {#}" "stations_ok W n0" "addressed W n0" using assms(2) by (simp_all add: laid_out_def)
  note ok = network_fresh [OF onward.hyps(1) n0] and ok' = network_fresh [OF network.onward [OF onward.hyps(1,2)] n0]
  have "clock_text (formatted_time s)" if up: "up n' i = Some s" for i s
  proof -
    have "comes_from n0 n'" using ok' by blast
    then obtain s0 cs where "up n0 i = Some s0" "s = s0\<lparr>clients := cs\<rparr>" using up by (rule came_from)
    with laid_out_home(5) [OF assms(2)] show ?thesis by auto
  qed
  moreover have "asks_ok s" if "up n' i = Some s" for i s
    using net_step_asks_ok [OF onward.hyps(2) _ _ that] ok onward.IH by blast
  ultimately show ?case by blast
qed

text \<open>A step of the network keeps the datagrams in flight sound.\<close>

lemma sound_net_step:
  assumes "net_step W n n'" and "laid_out W n0" and "stations_ok W n" and "comes_from n0 n"
    and "\<And>x. x \<in># flight n \<Longrightarrow> fresh_for W n0 n x" and "\<And>x. x \<in># flight n \<Longrightarrow> sound_flight n0 Q x"
    and "\<And>i s. up n i = Some s \<Longrightarrow> polite s" and "\<And>i s. up n i = Some s \<Longrightarrow> asks_ok s" and "x \<in># flight n'"
    and "kept n0 Q"
  shows "sound_flight n0 Q x"
proof -
  have ok: "station_ok (stat_of W i) s" if "up n i = Some s" for i s
    using assms(3) that by (simp add: stations_ok_def)
  from assms(1) show ?thesis
  proof cases
    case deliver
    then show ?thesis
    proof cases
      case (hand_over h p d i s t s' ev)
      obtain es where es: "server_ok s es" using ok [OF hand_over(4)] by (auto simp: station_ok_def)
      obtain s1 ev1 where u: "udp_handler (sys W i) s d = Inr (s1, ev1)" "datagrams ev = datagrams ev1"
        using round_datagram [OF hand_over(5) ok [OF hand_over(4)]] by blast
      have "sound_flight n0 Q x" if "x \<in># datagrams ev"
        using sound_relay [OF assms(6,5) [OF hand_over(2)] hand_over(3,4) assms(2,4) u(1) es _ assms(10)] that u(2) by simp
      moreover have "x \<in># flight n \<or> x \<in># datagrams ev"
        using assms(9) hand_over(1) by (auto dest: in_diffD)
      ultimately show ?thesis using assms(6) by blast
    next
      case (take_down h p d i s t e)
      then have "x \<in># flight n" using assms(9) by (auto dest: in_diffD)
      then show ?thesis by (rule assms(6))
    next
      case (lose y)
      then have "x \<in># flight n" using assms(9) by (auto dest: in_diffD)
      then show ?thesis by (rule assms(6))
    qed
  next
    case (idle_round i s sel s' ev)
    have "sound_flight n0 Q x" if "x \<in># datagrams ev"
      using round_asks [OF idle_round(4) ok [OF idle_round(2)] idle_round(3) that]
        sound_ask [OF _ assms(7) [OF idle_round(2)] idle_round(2) assms(4,2) assms(8) [OF idle_round(2)] assms(10)] by blast
    moreover have "x \<in># flight n \<or> x \<in># datagrams ev" using assms(9) idle_round(1) by auto
    ultimately show ?thesis using assms(6) by blast
  next
    case (stop i s sel e)
    then show ?thesis using assms(6,9) by simp
  qed
qed

lemma calm_sound:
  assumes "calm W n0 n" and "laid_out W n0" and "kept n0 Q"
  shows "\<forall>x\<in>#flight n. sound_flight n0 Q x"
  using assms(1)
proof induction
  case outset
  then show ?case using assms(2) by (simp add: laid_out_def)
next
  case (advance n n')
  have "flight n0 = {#}" "stations_ok W n0" "addressed W n0" using assms(2) by (simp_all add: laid_out_def)
  note net = network_fresh [OF calm_network [OF advance.hyps(1)] this]
  from net have ok: "stations_ok W n" "comes_from n0 n" and fresh: "\<And>x. x \<in># flight n \<Longrightarrow> fresh_for W n0 n x"
    by simp_all
  from network_asks_ok [OF calm_network [OF advance.hyps(1)] assms(2)]
  have asks: "\<And>i s. up n i = Some s \<Longrightarrow> asks_ok s" by blast
  from advance.IH have sound: "\<And>x. x \<in># flight n \<Longrightarrow> sound_flight n0 Q x" by simp
  show ?case
    by (intro ballI) (rule sound_net_step [OF advance.hyps(2) assms(2) ok fresh sound calm_polite [OF advance.hyps(1)] asks _ assms(3)])
qed

text \<open>A station of a calm network, handed a datagram.\<close>

lemma calm_verdict:
  assumes "calm W n0 n" and "laid_out W n0" and "(h, p, d) \<in># flight n" and "route W h p = Some i"
    and "up n i = Some s" and "server_ok s es" and "kept n0 Q"
  shows "\<exists>m. d = wire m \<and> sound_msg n0 m \<and> Q m \<and> addressee m \<in> {None, Some (my_name s)} \<and>
    (length d < MAXDATASIZE \<longrightarrow> m_found m = 0 \<longrightarrow> my_name s \<notin> set (m_stations m)) \<and>
    udp_handler (sys W i) s d = reaction s es m"
proof -
  have n0: "flight n0 = {#}" "stations_ok W n0" "addressed W n0" using assms(2) by (simp_all add: laid_out_def)
  note net = network_fresh [OF calm_network [OF assms(1)] n0]
  have "sound_flight n0 Q (h, p, d)" using calm_sound [OF assms(1,2,7)] assms(3) by blast
  then obtain m where m: "d = wire m" "sound_msg n0 m" "addressee m \<in> {None, Some (my_name s)}" "Q m"
    using handed_to assms(2,4,5) net by blast
  have "station_ok (stat_of W i) s" using net assms(5) by (simp add: stations_ok_def)
  then have "service_ok s" by (simp add: station_ok_def)
  have "comes_from n0 n" using net by blast
  then obtain s0 cs where s0: "up n0 i = Some s0" "s = s0\<lparr>clients := cs\<rparr>" using assms(5) by (rule came_from)
  then have "benign (sys W i)" "num_neighbours s = int (length (g_neighbours s))"
    using laid_out_home(2,3) [OF assms(2) s0(1)] by simp_all
  from udp_verdict [OF m(2) n0(2) m(3) assms(6) \<open>service_ok s\<close> this]
  have verdict: "udp_handler (sys W i) s d = reaction s es m" using m(1) by simp
  have unvisited: "my_name s \<notin> set (m_stations m)" if len: "length d < MAXDATASIZE" and f: "m_found m = 0"
  proof (rule not_visited [OF m(2) _ assms(5,2) \<open>comes_from n0 n\<close>])
    have "carries d m" using carries_own sound_parts(1) [OF m(2)] m(1) len by simp
    moreover have "fresh_for W n0 n (h, p, d)" using net assms(3) by blast
    ultimately show "my_address s \<notin> set (m_address m)"
      using f assms(4,5) unfolding fresh_for_def by blast
  qed
  with verdict m show ?thesis by blast
qed

text \<open>What takes a station down is what \<open>cause_of\<close> names.\<close>

lemma known_failures:
  assumes "calm W n0 n" and "laid_out W n0" and "(h, p, d) \<in># flight n" and "route W h p = Some i"
    and "up n i = Some s" and "server_ok s es"
  shows "\<exists>m. d = wire m \<and> sound_msg n0 m \<and> addressee m \<in> {None, Some (my_name s)} \<and>
    udp_handler (sys W i) s d = reaction s es m"
  using calm_verdict [OF assms kept_all] by blast

section \<open>A browser that asks a station for itself\<close>

definition self_C :: server where
  "self_C = (station_C ''10.0.0.1'')\<lparr>clients :=
     add_client 7 (demo_ask ''JunctionC'') (add_query (demo_ask ''JunctionC'') init_clients)\<rparr>"

definition demo_self :: net where
  "demo_self = \<lparr>up = [0 \<mapsto> self_C, 1 \<mapsto> station_A ''10.0.0.1''], flight = {#}\<rparr>"

definition self_msg :: msg where "self_msg = query_msg ''JunctionC'' ''JunctionC'' ''05:30''"

lemma demo_self_laid_out: "laid_out demo_world demo_self"
proof -
  have "server_ok self_C demo_entries" "server_ok (station_A ''10.0.0.1'') demo_entries" "service_ok self_C"
    "service_ok (station_A ''10.0.0.1'')" "get_file_mtime None \<le> latest_time self_C"
    "get_file_mtime None \<le> latest_time (station_A ''10.0.0.1'')"
    by code_simp+
  then have "stations_ok demo_world demo_self"
    by (auto simp: stations_ok_def station_ok_def demo_self_def demo_world_def split: if_splits)
  moreover have "addressed demo_world demo_self"
  proof -
    have "addr_and_port (nb (''10.0.0.1'', ''4002'')) = my_address (station_A ''10.0.0.1'')"
      "addr_and_port (nb (''10.0.0.1'', ''4004'')) = my_address self_C"
      "my_address (station_A ''10.0.0.1'') \<noteq> my_address self_C"
      "g_neighbours self_C = [nb (''10.0.0.1'', ''4002'')]"
      "g_neighbours (station_A ''10.0.0.1'') = [nb (''10.0.0.1'', ''4004'')]"
      "udp_port (nb (''10.0.0.1'', ''4002'')) = ''4002''" "udp_port (nb (''10.0.0.1'', ''4004'')) = ''4004''"
      by code_simp+
    then show ?thesis
      unfolding addressed_def by (auto simp: demo_self_def demo_world_def split: if_splits)
  qed
  moreover have "UDP_port self_C = ''4004''" "UDP_port (station_A ''10.0.0.1'') = ''4002''"
    "num_neighbours self_C = int (length (g_neighbours self_C))"
    "num_neighbours (station_A ''10.0.0.1'') = int (length (g_neighbours (station_A ''10.0.0.1'')))"
    "clock_text (formatted_time self_C)" "clock_text (formatted_time (station_A ''10.0.0.1''))"
    "list_all (\<lambda>c. well_asked (q_destination (c_query c)) (q_start_time (c_query c))) (head_client (clients self_C))"
    "head_client (clients (station_A ''10.0.0.1'')) = []" "my_name self_C \<noteq> my_name (station_A ''10.0.0.1'')"
    by code_simp+
  ultimately show ?thesis
    using demo_benign
    unfolding laid_out_def by (auto simp: demo_self_def demo_world_def asks_ok_def list_all_iff split: if_splits)
qed

lemma demo_self_asked:
  "calm demo_world demo_self \<lparr>up = up demo_self, flight = {#(''10.0.0.1'', ''4004'', wire self_msg)#}\<rparr>"
proof (rule calm.advance)
  have "list_all (\<lambda>c. CHR '' '' \<notin> set (q_destination (c_query c))) (head_client (clients self_C))"
    "head_client (clients (station_A ''10.0.0.1'')) = []"
    by code_simp+
  then have polite: "\<forall>i s. up demo_self i = Some s \<longrightarrow> polite s"
    by (auto simp: demo_self_def polite_def list_all_iff split: if_splits)
  then show "\<forall>i s. up \<lparr>up = up demo_self, flight = {#(''10.0.0.1'', ''4004'', wire self_msg)#}\<rparr> i = Some s \<longrightarrow> polite s"
    by simp
  show "calm demo_world demo_self demo_self" using polite by (rule calm.outset)
  have "loop_step demo_os None None (Timeout (\<lambda>_. True)) self_C =
      Inr (self_C, [UdpSend ''10.0.0.1'' ''4004'' (wire self_msg)])" by code_simp
  then have "net_step demo_world demo_self \<lparr>up = (up demo_self)(0 \<mapsto> self_C),
      flight = flight demo_self + datagrams [UdpSend ''10.0.0.1'' ''4004'' (wire self_msg)]\<rparr>"
    by (intro net_step.idle_round [of _ 0 self_C "Timeout (\<lambda>_. True)"])
      (simp_all add: demo_self_def demo_world_def no_datagram_def)
  moreover have "(up demo_self)(0 \<mapsto> self_C) = up demo_self" by (auto simp: demo_self_def)
  ultimately show "net_step demo_world demo_self
      \<lparr>up = up demo_self, flight = {#(''10.0.0.1'', ''4004'', wire self_msg)#}\<rparr>"
    by (simp add: datagrams_def demo_self_def)
qed

end
