(* ===== verification/Rounds.thy ===== *)
theory Rounds
  imports Failures
begin

text \<open>
  The round of the loop as one function. \<open>request_of\<close> is the grammar of the browsers' requests, without
  formats, \<open>reception\<close> all that serving a browser does, and \<open>turn\<close> a whole round: the timeout, or a
  datagram (\<open>reaction\<close>) and then a browser. The code computes these functions on every input that
  the stations of a properly configured network can meet, failures included.
\<close>

section \<open>The request of a browser\<close>

text \<open>The rest of a text after a constant; a blank of the constant stands for any white space.\<close>

fun after :: "string \<Rightarrow> string \<Rightarrow> string option" where
  "after [] s = Some s"
| "after (c # p) s =
     (if isspace c then after p (dropWhile isspace s)
      else case s of [] \<Rightarrow> None | x # xs \<Rightarrow> if x = c then after p xs else None)"

text \<open>One or two digits, a dash, one or two digits, and whatever follows.\<close>

definition clock_of :: "string \<Rightarrow> string option" where
  "clock_of b =
     (let hh = take 2 (takeWhile isdigit b) in
      case drop (length hh) b of
        [] \<Rightarrow> None
      | c # r \<Rightarrow>
          let mm = take 2 (takeWhile isdigit r) in
          if hh = [] \<or> c \<noteq> CHR ''-'' \<or> mm = [] then None else Some (hh @ '':'' @ mm))"

text \<open>Destination and time of a request, if it has any.\<close>

definition request_of :: "string \<Rightarrow> string \<Rightarrow> (string \<times> string) option res" where
  "request_of now q =
     (case after ''GET /?to='' q of
        None \<Rightarrow> Inr None
      | Some r \<Rightarrow>
          let d = takeWhile (\<lambda>c. c \<noteq> CHR ''&'') r in
          if d = [] then Inr None
          else if 61 \<le> length d then Inl BufferOverflow
          else case after ''&time='' (drop (length d) r) of
            None \<Rightarrow> Inr (Some (d, now))
          | Some tm \<Rightarrow>
              let b = take 5 (takeWhile (\<lambda>c. c \<noteq> newline) tm) in
              if b = [] then Inr (Some (d, now))
              else case clock_of b of None \<Rightarrow> Inl Uninit | Some t \<Rightarrow> Inr (Some (d, t)))"

lemma sscanf_after:
  "sscanf (lits p @ fs) s = (case after p s of None \<Rightarrow> Inr [] | Some r \<Rightarrow> sscanf fs r)"
  by (induction p s rule: after.induct) (auto simp: lits_def split: list.split)

declare after.simps [simp del]

lemma sscanf_clock:
  "sscanf fmt_clock b =
     (let hh = take 2 (takeWhile isdigit b) in
      if hh = [] then Inr []
      else case drop (length hh) b of
        [] \<Rightarrow> Inr [SStr hh]
      | c # r \<Rightarrow> if c \<noteq> CHR ''-'' then Inr [SStr hh]
          else if take 2 (takeWhile isdigit r) = [] then Inr [SStr hh]
          else Inr [SStr hh, SStr (take 2 (takeWhile isdigit r))])"
  by (simp add: fmt_clock_def take_width_def Let_def split: list.split)

lemma request_time_exact:
  "request_time b = (case clock_of b of None \<Rightarrow> Inl Uninit | Some t \<Rightarrow> Inr t)"
  by (simp add: request_time_def sscanf_clock clock_of_def Let_def fit_def split: list.split)

lemma sscanf_dest:
  "sscanf (lits ''GET /?to='' @ [Scanset None not_amp] @ fs) q =
     (case after ''GET /?to='' q of
        None \<Rightarrow> Inr []
      | Some r \<Rightarrow> let d = takeWhile not_amp r in
          if d = [] then Inr [] else bindR (sscanf fs (drop (length d) r)) (\<lambda>vs. Inr (SStr d # vs)))"
  unfolding sscanf_after by (simp add: take_width_def split: option.split)

lemma sscanf_time:
  "sscanf (lits ''&time='' @ [Scanset (Some 5) not_newline] @ lits l) r =
     (case after ''&time='' r of
        None \<Rightarrow> Inr []
      | Some tm \<Rightarrow> let b = take 5 (takeWhile not_newline tm) in if b = [] then Inr [] else Inr [SStr b])"
  unfolding sscanf_after
  using sscanf_lits_end by (simp add: take_width_def Let_def split: option.split)

lemma not_chars: "not_amp = (\<lambda>c. c \<noteq> CHR ''&'')" "not_newline = (\<lambda>c. c \<noteq> newline)"
  by (simp_all add: fun_eq_iff not_amp_def not_newline_def)

lemma store_61: "store 61 (SStr d # vs) 0 (\<lambda>x d. x) d0 = (if 61 \<le> length d then Inl BufferOverflow else Inr d)"
  by (simp add: store_def fit_def)

lemma store_10: "length b \<le> 5 \<Longrightarrow> store 10 [v, SStr b] (Suc 0) (\<lambda>x d. x) d0 = Inr b"
  by (simp add: store_def fit_def)

lemma request_exact:
  assumes "length now < MAX_TIMESTRING"
  shows "parse_request now q = request_of now q"
proof -
  let ?d = "\<lambda>r. takeWhile not_amp r"
  have f: "sscanf fmt_get q = (case after ''GET /?to='' q of
        None \<Rightarrow> Inr [] | Some r \<Rightarrow> if ?d r = [] then Inr [] else Inr [SStr (?d r)])"
    unfolding fmt_get_def sscanf_dest using sscanf_lits_end [of "'' HTTP/1.1'' @ [newline]"]
    by (simp add: Let_def split: option.split)
  have ft: "sscanf fmt_get_time q = (case after ''GET /?to='' q of
        None \<Rightarrow> Inr []
      | Some r \<Rightarrow> if ?d r = [] then Inr []
          else case after ''&time='' (drop (length (?d r)) r) of
            None \<Rightarrow> Inr [SStr (?d r)]
          | Some tm \<Rightarrow> let b = take 5 (takeWhile not_newline tm) in
              if b = [] then Inr [SStr (?d r)] else Inr [SStr (?d r), SStr b])"
    unfolding fmt_get_time_def sscanf_dest sscanf_time by (simp add: Let_def split: option.split)
  show ?thesis
  proof (cases "after ''GET /?to='' q")
    case None
    then show ?thesis by (simp add: parse_request_def f ft request_of_def store_def)
  next
    case (Some r)
    show ?thesis
    proof (cases "?d r = []")
      case True
      with Some show ?thesis by (simp add: parse_request_def f ft request_of_def store_def not_chars)
    next
      case False
      have plain: "parse_request now q = request_of now q"
        if ft': "sscanf fmt_get_time q = Inr [SStr (?d r)]"
          and spec: "request_of now q = (if 61 \<le> length (?d r) then Inl BufferOverflow else Inr (Some (?d r, now)))"
      proof -
        have "sscanf fmt_get q = Inr [SStr (?d r)]" using f Some False by simp
        then show ?thesis
          unfolding parse_request_def ft' spec using assms
          by (simp add: store_61) (simp add: store_def fit_def)
      qed
      show ?thesis
      proof (cases "after ''&time='' (drop (length (?d r)) r)")
        case None
        show ?thesis
          by (rule plain) (use None Some False in \<open>simp_all add: ft request_of_def Let_def not_chars\<close>)
      next
        case (Some tm)
        let ?b = "take 5 (takeWhile not_newline tm)"
        note r = \<open>after ''GET /?to='' q = Some r\<close>
        show ?thesis
        proof (cases "?b = []")
          case True
          show ?thesis
            by (rule plain) (use True r Some False in \<open>simp_all add: ft request_of_def Let_def not_chars\<close>)
        next
          case b: False
          have "sscanf fmt_get_time q = Inr [SStr (?d r), SStr ?b]" using ft r Some False b by (simp add: Let_def)
          moreover have "length ?b \<le> 5" by simp
          moreover have "request_of now q = (if 61 \<le> length (?d r) then Inl BufferOverflow
              else case clock_of ?b of None \<Rightarrow> Inl Uninit | Some t \<Rightarrow> Inr (Some (?d r, t)))"
            using r Some False b by (cases "clock_of ?b") (simp_all add: request_of_def Let_def not_chars)
          ultimately show ?thesis
            unfolding parse_request_def
            by (cases "clock_of ?b") (simp_all add: store_61 store_10 request_time_exact)
        qed
      qed
    qed
  qed
qed

section \<open>Serving a browser\<close>

text \<open>The query is added to the ring unless it is there, and the browser to the list.\<close>

definition enlist :: "string \<Rightarrow> string \<Rightarrow> int \<Rightarrow> client_state \<Rightarrow> client_state" where
  "enlist d t f cs =
     add_client f (asked d t) (remove_client f (if ring_has cs (d, t) then cs else add_query (asked d t) cs))"

definition reception :: "server \<Rightarrow> int \<Rightarrow> received \<Rightarrow> int \<Rightarrow> (server \<times> event list) res" where
  "reception s a r shut =
     (case r of
        RecvError \<Rightarrow> Inr (s, [])
      | RecvBytes bytes \<Rightarrow>
          let b = take MAXDATASIZE bytes in
          if MAXDATASIZE \<le> length b \<and> NUL \<notin> set b then Inl OutOfBounds
          else bindR (request_of (formatted_time s) (cstr b)) (\<lambda>req.
            case req of
              None \<Rightarrow> Inr (s, [])
            | Some (d, t) \<Rightarrow>
                if shut < 0 then Inl (Exit 1)
                else Inr (s\<lparr>clients := enlist d t (new_connection a) (clients s)\<rparr>,
                       [TcpSend (new_connection a) (HTTP_200_RESPONSE @ CRLF @ HTML_200_MESSAGE)])))"

lemma request_of_Nil: "request_of now [] = Inr None"
  by (simp add: request_of_def after.simps isspace_def)

lemma register_query_exact:
  assumes "unanswered cs" and "length d < MAX_NAME_LENGTH" and "length t < MAX_TIMESTRING"
  shows "register_query d t f cs = Inr (enlist d t f cs)"
proof (cases "search_query d t cs")
  case None
  with assms(2,3) show ?thesis
    by (simp add: register_query_def enlist_def ring_has_def fit_def asked_def Let_def)
next
  case (Some qs)
  have "hd qs = asked d t"
    using assms(1) search_query_Some [OF Some] by (simp add: asked_iff unanswered_def)
  with Some show ?thesis by (simp add: register_query_def enlist_def ring_has_def)
qed

lemma tcp_is_reception:
  assumes "unanswered (clients s)" and "clock_text (formatted_time s)" and "length (my_name s) < MAX_NAME_LENGTH"
  shows "tcp_handler s a r shut = reception s a r shut"
proof -
  have now: "length (formatted_time s) < MAX_TIMESTRING" using assms(2) by (simp add: clock_text_def)
  have serve: "bindR (parse_request (formatted_time s) q) (\<lambda>req.
      case req of
        None \<Rightarrow> Inr (s, [])
      | Some (dest, t) \<Rightarrow>
          let response = HTTP_200_RESPONSE @ CRLF @ HTML_200_MESSAGE in
          bindR (checkR (0 \<le> shut) (Exit 1)) (\<lambda>_.
          bindR (register_query dest t (new_connection a) (clients s)) (\<lambda>cs.
          bindR (query_text s dest t) (\<lambda>_.
          Inr (s\<lparr>clients := cs\<rparr>, [TcpSend (new_connection a) response]))))) =
    bindR (request_of (formatted_time s) q) (\<lambda>req.
      case req of
        None \<Rightarrow> Inr (s, [])
      | Some (d, t) \<Rightarrow>
          if shut < 0 then Inl (Exit 1)
          else Inr (s\<lparr>clients := enlist d t (new_connection a) (clients s)\<rparr>,
                 [TcpSend (new_connection a) (HTTP_200_RESPONSE @ CRLF @ HTML_200_MESSAGE)]))"
    if "NUL \<notin> set q" for q
  proof (cases "request_of (formatted_time s) q")
    case (Inl e)
    then show ?thesis by (simp add: request_exact [OF now])
  next
    case (Inr req)
    show ?thesis
    proof (cases req)
      case None
      with Inr show ?thesis by (simp add: request_exact [OF now])
    next
      case (Some x)
      obtain d t where x: "x = (d, t)" by (cases x)
      have p: "parse_request (formatted_time s) q = Inr (Some (d, t))" by (simp add: request_exact [OF now] Inr Some x)
      have "well_asked d t" by (rule parse_request_well [OF p that assms(2)])
      then have len: "length d < MAX_NAME_LENGTH" "length t < MAX_TIMESTRING"
        by (simp_all add: well_asked_def clock_text_def)
      have printed: "\<exists>y. query_text s d t = Inr y"
        using query_text_ask [of s "asked d t"] len assms(3) by (simp add: ask_fits_def asked_def)
      show ?thesis
        using register_query_exact [OF assms(1) len, of "new_connection a"] printed
        by (cases "0 \<le> shut") (auto simp: p Inr Some x checkR_def)
    qed
  qed
  show ?thesis
  proof (cases r)
    case RecvError
    then show ?thesis
      using serve [of "[]"] by (simp add: tcp_handler_def reception_def query_string_def request_of_Nil Let_def)
  next
    case (RecvBytes bytes)
    show ?thesis
    proof (cases "bytes = []")
      case True
      then show ?thesis
        by (simp add: RecvBytes tcp_handler_def reception_def request_of_Nil cstr_def)
    next
      case False
      let ?b = "take MAXDATASIZE bytes"
      show ?thesis
      proof (cases "MAXDATASIZE \<le> length ?b \<and> NUL \<notin> set ?b")
        case True
        with False show ?thesis by (simp add: RecvBytes tcp_handler_def reception_def query_string_def)
      next
        case ok: False
        then have "query_string (RecvBytes bytes) = Inr (cstr ?b)" by (simp add: query_string_def Let_def)
        moreover have "reception s a (RecvBytes bytes) shut = bindR (request_of (formatted_time s) (cstr ?b)) (\<lambda>req.
            case req of
              None \<Rightarrow> Inr (s, [])
            | Some (d, t) \<Rightarrow>
                if shut < 0 then Inl (Exit 1)
                else Inr (s\<lparr>clients := enlist d t (new_connection a) (clients s)\<rparr>,
                       [TcpSend (new_connection a) (HTTP_200_RESPONSE @ CRLF @ HTML_200_MESSAGE)]))"
          unfolding reception_def received.case Let_def using ok by (simp only: if_False)
        moreover have "(RecvBytes bytes = RecvBytes []) = False" using False by simp
        ultimately show ?thesis
          using serve [OF NUL_cstr, of ?b] unfolding RecvBytes tcp_handler_def Let_def
          by (simp only: bindR_Inr if_False)
      qed
    qed
  qed
qed

section \<open>The timeout\<close>

definition reminders :: "(int \<Rightarrow> bool) \<Rightarrow> server \<Rightarrow> (server \<times> event list) res" where
  "reminders is_open s =
     (if list_all (\<lambda>c. is_open (fd c)) (head_client (clients s))
      then Inr (s, map (ask_event s) (head_client (clients s)))
      else Inl UseAfterFree)"

lemma walk_is_reminders:
  assumes "service_ok s" and "benign os" and "\<forall>c\<in>set (head_client (clients s)). ask_fits s (c_query c)"
  shows "timeout_walk os is_open s 0 = reminders is_open s"
proof (cases "list_all (\<lambda>c. is_open (fd c)) (head_client (clients s))")
  case True
  with timeout_walk_asks [of s os is_open 0] assms show ?thesis
    by (simp add: reminders_def service_ok_def list_all_iff)
next
  case False
  then obtain j where "j < length (head_client (clients s))" "\<not> is_open (fd (head_client (clients s) ! j))"
    by (auto simp: list_all_length)
  with timeout_walk_crash [of s os j is_open 0] assms False show ?thesis
    by (auto simp: reminders_def service_ok_def)
qed

section \<open>A round\<close>

text \<open>What a station does in one round: \<open>m\<close> is the message of the datagram, when there is one.\<close>

definition turn :: "entry list \<Rightarrow> msg \<Rightarrow> selected \<Rightarrow> server \<Rightarrow> (server \<times> event list) res" where
  "turn es m sel s =
     (case sel of
        SelectError \<Rightarrow> Inl (Exit 1)
      | Timeout is_open \<Rightarrow> reminders is_open s
      | Ready u t \<Rightarrow>
          bindR (case u of NoUdp \<Rightarrow> Inr (s, []) | UdpError \<Rightarrow> Inl (Exit 1) | UdpData _ \<Rightarrow> reaction s es m) (\<lambda>(s, ev).
          bindR (case t of NoTcp \<Rightarrow> Inr (s, []) | TcpConn a r shut \<Rightarrow> reception s a r shut) (\<lambda>(s, ev').
          Inr (s, ev @ ev'))))"

lemma loop_step_same:
  assumes "get_file_mtime stat \<le> latest_time s"
  shows "loop_step os stat file sel s =
    (case sel of
       SelectError \<Rightarrow> Inl (Exit 1)
     | Timeout is_open \<Rightarrow> timeout_walk os is_open s 0
     | Ready u t \<Rightarrow> bindR (serve_udp os s u) (\<lambda>(s, ev).
         bindR (serve_tcp s t) (\<lambda>(s, ev'). Inr (s, ev @ ev'))))"
proof -
  have same: "s\<lparr>g_station := g_station s, g_timetable := g_timetable s\<rparr> = s" by (cases s) simp
  have check: "check_update_timetable stat file (latest_time s) (g_station s) (g_timetable s) =
      Inr (g_station s, g_timetable s)"
    using assms by (simp add: check_update_timetable_def)
  show ?thesis unfolding loop_step_def check Let_def bindR_Inr prod.case same by (rule refl)
qed

lemma turn_exact:
  assumes "service_ok s" and "asks_ok s" and "clock_text (formatted_time s)" and "length (my_name s) < MAX_NAME_LENGTH"
    and "benign os" and "get_file_mtime stat \<le> latest_time s"
    and "\<And>d t. sel = Ready (UdpData d) t \<Longrightarrow> udp_handler os s d = reaction s es m"
  shows "loop_step os stat file sel s = turn es m sel s"
proof (cases sel)
  case SelectError
  then show ?thesis by (simp add: loop_step_same [OF assms(6)] turn_def)
next
  case (Timeout is_open)
  have "\<forall>c\<in>set (head_client (clients s)). ask_fits s (c_query c)"
    using assms(2,4) by (auto simp: asks_ok_def well_asked_def ask_fits_def clock_text_def)
  from walk_is_reminders [OF assms(1,5) this] Timeout show ?thesis
    by (simp add: loop_step_same [OF assms(6)] turn_def)
next
  case (Ready u t)
  let ?first = "case u of NoUdp \<Rightarrow> Inr (s, []) | UdpError \<Rightarrow> Inl (Exit 1) | UdpData _ \<Rightarrow> reaction s es m"
  have first: "serve_udp os s u = ?first"
    using assms(7) Ready by (simp add: serve_udp_def split: udp_input.split)
  have second: "serve_tcp s1 t = (case t of NoTcp \<Rightarrow> Inr (s1, []) | TcpConn a r shut \<Rightarrow> reception s1 a r shut)"
    if "?first = Inr (s1, ev)" for s1 ev
  proof -
    have u: "serve_udp os s u = Inr (s1, ev)" using first that by simp
    have "unanswered (clients s1)"
      using serve_udp_asks_ok [OF u assms(2,1)] by (simp add: service_ok_def)
    moreover have "clock_text (formatted_time s1)" using serve_clock(1) [OF u] assms(3) by simp
    moreover have "\<exists>cs. s1 = s\<lparr>clients := cs\<rparr>"
      using u udp_handler_frame by (auto simp: serve_udp_def split: udp_input.splits intro: exI [of _ "clients s"])
    then have "length (my_name s1) < MAX_NAME_LENGTH" using assms(4) by (auto simp: my_name_def)
    ultimately show ?thesis using tcp_is_reception by (simp add: serve_tcp_def split: tcp_input.split)
  qed
  show ?thesis
  proof (cases ?first)
    case (Inl e)
    with first Ready show ?thesis by (simp add: loop_step_same [OF assms(6)] turn_def)
  next
    case (Inr x)
    obtain s1 ev where x: "x = (s1, ev)" by (cases x)
    with Inr second first Ready show ?thesis by (simp add: loop_step_same [OF assms(6)] turn_def)
  qed
qed

lemma calm_turn:
  assumes "calm W n0 n" and "laid_out W n0" and "up n i = Some s" and "server_ok s es" and "kept n0 Q"
    and "\<forall>d t. sel = Ready (UdpData d) t \<longrightarrow> (\<exists>h p. (h, p, d) \<in># flight n \<and> route W h p = Some i)"
  shows "\<exists>m. (\<forall>d t. sel = Ready (UdpData d) t \<longrightarrow>
      d = wire m \<and> sound_msg n0 m \<and> Q m \<and> addressee m \<in> {None, Some (my_name s)} \<and>
      (length d < MAXDATASIZE \<longrightarrow> m_found m = 0 \<longrightarrow> my_name s \<notin> set (m_stations m))) \<and>
    round_of W i sel s = turn es m sel s"
proof -
  have n0: "flight n0 = {#}" "stations_ok W n0" "addressed W n0" using assms(2) by (simp_all add: laid_out_def)
  note net = network_fresh [OF calm_network [OF assms(1)] n0]
  have ok: "station_ok (stat_of W i) s" using net assms(3) by (simp add: stations_ok_def)
  have "comes_from n0 n" using net by blast
  then obtain s0 cs where s0: "up n0 i = Some s0" "s = s0\<lparr>clients := cs\<rparr>" using assms(3) by (rule came_from)
  then have os: "benign (sys W i)" using laid_out_home(2) [OF assms(2) s0(1)] by simp
  have clock: "asks_ok s" "clock_text (formatted_time s)"
    using network_asks_ok [OF calm_network [OF assms(1)] assms(2)] assms(3) by blast+
  have name: "length (my_name s) < MAX_NAME_LENGTH" using assms(4) by (simp add: server_ok_def token_def)
  let ?P = "\<lambda>d m. d = wire m \<and> sound_msg n0 m \<and> Q m \<and> addressee m \<in> {None, Some (my_name s)} \<and>
      (length d < MAXDATASIZE \<longrightarrow> m_found m = 0 \<longrightarrow> my_name s \<notin> set (m_stations m)) \<and>
      udp_handler (sys W i) s d = reaction s es m"
  have "\<exists>m. \<forall>d t. sel = Ready (UdpData d) t \<longrightarrow> ?P d m"
  proof (cases "\<exists>d t. sel = Ready (UdpData d) t")
    case True
    then obtain d t where sel: "sel = Ready (UdpData d) t" by blast
    then obtain h p where "(h, p, d) \<in># flight n" "route W h p = Some i" using assms(6) by blast
    then obtain m where "?P d m" using calm_verdict [OF assms(1,2) _ _ assms(3,4,5)] by blast
    then have "\<forall>d' t'. sel = Ready (UdpData d') t' \<longrightarrow> ?P d' m" unfolding sel by auto
    then show ?thesis by (rule exI)
  qed blast
  then obtain m where m: "\<forall>d t. sel = Ready (UdpData d) t \<longrightarrow> ?P d m" by (rule exE)
  then have "udp_handler (sys W i) s d = reaction s es m" if "sel = Ready (UdpData d) t" for d t
    using that by blast
  then have "round_of W i sel s = turn es m sel s"
    using ok clock name os by (intro turn_exact) (simp_all add: station_ok_def)
  with m show ?thesis by (intro exI [of _ m]) simp
qed

section \<open>Reachable stations\<close>

text \<open>The name read from a timetable file fits its array, so it does in every round.\<close>

lemma assign_station_name:
  "assign_station vs st = Inr st' \<Longrightarrow> length (station_name st) < MAX_NAME_LENGTH \<Longrightarrow>
   length (station_name st') < MAX_NAME_LENGTH"
  by (auto simp: assign_station_def store_def fit_Inr_iff split: if_splits scanned.splits elim!: bindR_InrE)

lemma read_header_name:
  "read_header ls st = Inr (st', r) \<Longrightarrow> length (station_name st) < MAX_NAME_LENGTH \<Longrightarrow>
   length (station_name st') < MAX_NAME_LENGTH"
proof (induction ls st rule: read_header.induct)
  case (2 line lines st)
  show ?case
  proof (cases "is_comment line")
    case True
    with 2 show ?thesis by simp
  next
    case False
    with "2.prems"(1) obtain vs st1 where v: "sscanf fmt_station line = Inr vs" "assign_station vs st = Inr st1"
      "(if length vs = 3 then Inr (st1, lines) else read_header lines st1) = Inr (st', r)"
      by (auto elim!: bindR_InrE)
    note st1 = assign_station_name [OF v(2) "2.prems"(2)]
    show ?thesis
    proof (cases "length vs = 3")
      case True
      with v(3) st1 show ?thesis by simp
    next
      case no: False
      with v(3) have "read_header lines st1 = Inr (st', r)" by simp
      from "2.IH"(2) [OF False v(1,2) no this st1] show ?thesis .
    qed
  qed
qed simp

lemma readtimetable_name:
  "readtimetable file st tt = Inr (n, st', tt') \<Longrightarrow> length (station_name st) < MAX_NAME_LENGTH \<Longrightarrow>
   length (station_name st') < MAX_NAME_LENGTH"
  by (auto simp: readtimetable_def split: option.splits elim!: bindR_InrE dest: read_header_name
      simp del: MAX_NAME_LENGTH_def)

lemma loop_name:
  assumes "loop_step os stat file sel s = Inr (s', ev)" and "service_ok s" and "length (my_name s) < MAX_NAME_LENGTH"
  shows "length (my_name s') < MAX_NAME_LENGTH"
proof -
  obtain st tt where c: "check_update_timetable stat file (latest_time s) (g_station s) (g_timetable s) = Inr (st, tt)"
    and step: "(case sel of
       SelectError \<Rightarrow> Inl (Exit 1)
     | Timeout is_open \<Rightarrow> timeout_walk os is_open (s\<lparr>g_station := st, g_timetable := tt\<rparr>) 0
     | Ready u t \<Rightarrow>
         bindR (serve_udp os (s\<lparr>g_station := st, g_timetable := tt\<rparr>) u) (\<lambda>(s, ev).
         bindR (serve_tcp s t) (\<lambda>(s, ev'). Inr (s, ev @ ev')))) = Inr (s', ev)"
    using assms(1) by (auto simp: loop_step_def Let_def elim!: bindR_InrE)
  let ?s = "s\<lparr>g_station := st, g_timetable := tt\<rparr>"
  have name: "length (my_name ?s) < MAX_NAME_LENGTH"
    using c assms(3) readtimetable_name [of "file" "g_station s" "g_timetable s"]
    by (auto simp: check_update_timetable_def my_name_def split: if_splits elim!: bindR_InrE simp del: MAX_NAME_LENGTH_def)
  have "\<exists>cs. s' = ?s\<lparr>clients := cs\<rparr>"
  proof (cases sel)
    case SelectError
    with step show ?thesis by simp
  next
    case (Timeout is_open)
    with step have "s' = ?s" using assms(2) timeout_walk_same [of ?s os is_open 0 s' ev] by (simp add: service_ok_def)
    then show ?thesis by (intro exI [of _ "clients s"]) simp
  next
    case (Ready u t)
    with step obtain s1 e1 e2 where r: "serve_udp os ?s u = Inr (s1, e1)" "serve_tcp s1 t = Inr (s', e2)"
      by (auto elim!: bindR_InrE)
    have "\<exists>cs. s1 = ?s\<lparr>clients := cs\<rparr>"
      using r(1) udp_handler_frame by (auto simp: serve_udp_def split: udp_input.splits intro: exI [of _ "clients s"])
    moreover have "\<exists>cs. s' = s1\<lparr>clients := cs\<rparr>"
      using r(2) tcp_handler_frame by (auto simp: serve_tcp_def split: tcp_input.splits intro: exI [of _ "clients s1"])
    ultimately show ?thesis by auto
  qed
  with name show ?thesis by (auto simp: my_name_def)
qed

lemma reachable_name: "reachable os s \<Longrightarrow> length (my_name s) < MAX_NAME_LENGTH"
proof (induction rule: reachable.induct)
  case (start argv f stat now ip s)
  then show ?case
    using readtimetable_name [of f]
    by (auto simp: station_init_def my_name_def elim!: bindR_InrE simp del: MAX_NAME_LENGTH_def) fastforce
next
  case (step s stat f sel s' ev)
  with loop_name reachable_ok show ?case by blast
qed

text \<open>The station of the demonstration after its first browser.\<close>

definition demo_get :: string where "demo_get = ''GET /?to=BusportC HTTP/1.1''"

lemma demo_started:
  obtains s where "reachable demo_os s" and "formatted_time s = ''09:00''" and "clients s = init_clients"
    and "latest_time s = 5"
proof -
  obtain s where s: "station_init demo_argv (Some demo_file) (Some 5) ''09:00'' ''10.0.0.1'' = Inr s" "reachable demo_os s"
    using demo_reachable by blast
  from s(1) have "formatted_time s = ''09:00''" "clients s = init_clients" "latest_time s = 5"
    by (auto simp: station_init_def get_file_mtime_def elim!: bindR_InrE)
  with s(2) that show thesis by blast
qed

lemma demo_clock: "clock_text ''09:00''"
  by code_simp

lemma demo_reception:
  assumes "formatted_time s = ''09:00''" and "clients s = init_clients"
  shows "reception s 11 (RecvBytes demo_get) 0 =
    Inr (s\<lparr>clients := enlist ''BusportC HTTP/1.1'' ''09:00'' 11 init_clients\<rparr>,
      [TcpSend 11 (HTTP_200_RESPONSE @ CRLF @ HTML_200_MESSAGE)])"
proof -
  have "(let b = take MAXDATASIZE demo_get in \<not> (MAXDATASIZE \<le> length b \<and> NUL \<notin> set b) \<and>
      request_of ''09:00'' (cstr b) = Inr (Some (''BusportC HTTP/1.1'', ''09:00''))) \<and> new_connection 11 = 11"
    by code_simp
  with assms show ?thesis by (simp add: reception_def Let_def)
qed

lemma demo_browser_waits:
  obtains s where "reachable demo_os s" and "formatted_time s = ''09:00''" and "map fd (head_client (clients s)) = [11]"
proof -
  obtain s where s: "reachable demo_os s" "formatted_time s = ''09:00''" "clients s = init_clients" "latest_time s = 5"
    by (rule demo_started)
  let ?s = "s\<lparr>clients := enlist ''BusportC HTTP/1.1'' ''09:00'' 11 init_clients\<rparr>"
  have "unanswered (clients s)" using reachable_ok [OF s(1)] by (simp add: service_ok_def)
  then have "tcp_handler s 11 (RecvBytes demo_get) 0 = Inr (?s, [TcpSend 11 (HTTP_200_RESPONSE @ CRLF @ HTML_200_MESSAGE)])"
    using tcp_is_reception [of s 11 "RecvBytes demo_get" 0] demo_reception [OF s(2,3)] reachable_name [OF s(1)] s(2) demo_clock
    by simp
  from round_request [OF _ this, of "Some 5"] s(4)
  have "loop_step demo_os (Some 5) None (Ready NoUdp (TcpConn 11 (RecvBytes demo_get) 0)) s =
      Inr (?s, [TcpSend 11 (HTTP_200_RESPONSE @ CRLF @ HTML_200_MESSAGE)])"
    by (simp add: get_file_mtime_def)
  with s(1) have "reachable demo_os ?s" by (rule reachable.step)
  moreover have "map fd (head_client (enlist ''BusportC HTTP/1.1'' ''09:00'' 11 init_clients)) = [11]" by code_simp
  ultimately show thesis using s(2) that [of ?s] by simp
qed

section \<open>Properties\<close>

text \<open>C28. The grammar of requests: on every text \<open>parse_request\<close> computes \<open>request_of\<close>. A request needs
  \<open>GET /?to=\<close> and a destination, which is all up to the next ampersand and overflows its buffer from
  61 characters on. If \<open>&time=\<close> and a text follow, the time is taken from the first five characters of
  its line, and when these are not two numbers joined by a dash the code prints minutes it never
  assigned. Without \<open>&time=\<close> the time is the clock of the station, and the destination has run on
  through the protocol version and the headers.\<close>

theorem parse_request_exact:
  assumes "length now < MAX_TIMESTRING"
  shows "parse_request now q = request_of now q"
  by (rule request_exact [OF assms])

theorem parse_request_exact_witness:
  "parse_request ''09:00'' ''GET /?to=BusportC&time=8-39 HTTP/1.1'' = Inr (Some (''BusportC'', ''8:39'')) \<and>
   parse_request ''09:00'' ''GET /?to=BusportC&time=08%3A39 HTTP/1.1'' = Inl Uninit \<and>
   parse_request ''09:00'' ''GET /?to=BusportC HTTP/1.1'' = Inr (Some (''BusportC HTTP/1.1'', ''09:00'')) \<and>
   parse_request ''09:00'' ''GET /favicon.ico HTTP/1.1'' = Inr None"
proof -
  have now: "length ''09:00'' < MAX_TIMESTRING" by simp
  have "request_of ''09:00'' ''GET /?to=BusportC&time=8-39 HTTP/1.1'' = Inr (Some (''BusportC'', ''8:39''))"
    "request_of ''09:00'' ''GET /?to=BusportC&time=08%3A39 HTTP/1.1'' = Inl Uninit"
    "request_of ''09:00'' ''GET /?to=BusportC HTTP/1.1'' = Inr (Some (''BusportC HTTP/1.1'', ''09:00''))"
    "request_of ''09:00'' ''GET /favicon.ico HTTP/1.1'' = Inr None"
    by code_simp+
  then show ?thesis using parse_request_exact [OF now] by simp
qed

text \<open>C29. Serving a browser: in every reachable state, whatever the browser sends or fails to send, the
  station does what \<open>reception\<close> says. It reads at most \<open>MAXDATASIZE\<close> bytes, past the buffer when all
  of them are not NUL; ignores what is not a request; stops when \<open>shutdown\<close> fails; and else sends
  the waiting page and enlists the browser, as the only entry of its descriptor, with its query in
  the ring. No destination that is accepted overflows the ring, the list or the unsent query text.\<close>

theorem tcp_exact:
  assumes "reachable os s" and "clock_text (formatted_time s)"
  shows "tcp_handler s a r shut = reception s a r shut"
  using tcp_is_reception reachable_ok [OF assms(1)] assms(2) reachable_name [OF assms(1)]
  by (simp add: service_ok_def)

theorem tcp_exact_witness:
  "\<exists>s. reachable demo_os s \<and> tcp_handler s 11 (RecvBytes ''GET /?to=BusportC HTTP/1.1'') 0 =
     Inr (s\<lparr>clients := enlist ''BusportC HTTP/1.1'' ''09:00'' 11 init_clients\<rparr>,
       [TcpSend 11 (HTTP_200_RESPONSE @ CRLF @ HTML_200_MESSAGE)]) \<and>
     tcp_handler s 11 (RecvBytes ''GET /?to=BusportC HTTP/1.1'') (- 1) = Inl (Exit 1)"
proof -
  obtain s where s: "reachable demo_os s" "formatted_time s = ''09:00''" "clients s = init_clients"
    by (rule demo_started)
  have "request_of ''09:00'' (cstr (take MAXDATASIZE demo_get)) = Inr (Some (''BusportC HTTP/1.1'', ''09:00''))"
    "length demo_get < MAXDATASIZE"
    by code_simp+
  then have "reception s 11 (RecvBytes demo_get) (- 1) = Inl (Exit 1)" using s(2) by (simp add: reception_def Let_def)
  moreover have "clock_text (formatted_time s)" using s(2) demo_clock by simp
  ultimately show ?thesis
    using tcp_exact [OF s(1)] demo_reception [OF s(2,3)] s(1) unfolding demo_get_def by (intro exI [of _ s]) simp
qed

text \<open>C30. The timeout: in every reachable state, when the connections of all waiting browsers are open, one
  query per browser is sent to the station's own datagram port, in the order of the list: a message
  with no hops, from this station to the browser's destination. The state does not change. As soon
  as one connection is closed the timeout fails: the node that is freed is the one the walk stands on.\<close>

theorem timeout_exact:
  assumes "reachable os s" and "clock_text (formatted_time s)" and "benign os"
  shows "timeout_walk os is_open s 0 =
    (if \<forall>c\<in>set (head_client (clients s)). is_open (fd c)
     then Inr (s, map (\<lambda>c. UdpSend (local_ip s) (UDP_port s) (''0 0 0 '' @ q_destination (c_query c) @ '' ''
       @ my_name s @ '' '' @ q_start_time (c_query c) @ '';'')) (head_client (clients s)))
     else Inl UseAfterFree)"
proof -
  have "wire (ask_msg s q) = ''0 0 0 '' @ q_destination q @ '' '' @ my_name s @ '' '' @ q_start_time q @ '';''" for q
    by (simp add: wire_def ask_msg_def m_hops_def dec_zero spaced_Cons)
  then have event: "ask_event s = (\<lambda>c. UdpSend (local_ip s) (UDP_port s) (''0 0 0 '' @ q_destination (c_query c) @ '' ''
       @ my_name s @ '' '' @ q_start_time (c_query c) @ '';''))"
    by (simp add: ask_event_def fun_eq_iff)
  have "\<forall>c\<in>set (head_client (clients s)). ask_fits s (c_query c)"
    using reachable_asks_ok [OF assms(1,2)] reachable_name [OF assms(1)]
    by (auto simp: asks_ok_def well_asked_def ask_fits_def clock_text_def)
  from walk_is_reminders [OF reachable_ok [OF assms(1)] assms(3) this, of is_open] show ?thesis
    unfolding reminders_def event list_all_iff .
qed

theorem timeout_exact_witness:
  "\<exists>s ev. reachable demo_os s \<and> timeout_walk demo_os (\<lambda>f. f = 11) s 0 = Inr (s, ev) \<and> length ev = 1 \<and>
     timeout_walk demo_os (\<lambda>f. f \<noteq> 11) s 0 = Inl UseAfterFree"
proof -
  obtain s where s: "reachable demo_os s" "formatted_time s = ''09:00''" "map fd (head_client (clients s)) = [11]"
    by (rule demo_browser_waits)
  have clock: "clock_text (formatted_time s)" using s(2) demo_clock by simp
  obtain c where c: "head_client (clients s) = [c]" "fd c = 11" using s(3) by auto
  show ?thesis
    using timeout_exact [OF s(1) clock demo_benign, of "\<lambda>f. f = 11"]
      timeout_exact [OF s(1) clock demo_benign, of "\<lambda>f. f \<noteq> 11"] s(1) c
    by (intro exI [of _ s]) simp
qed

text \<open>C4. A round of the loop, in calm networks. Take properly configured stations and any \<open>calm\<close> network they get
  to, whatever is lost and in whichever order datagrams arrive: no browser in it has come to wait for a
  destination with a blank in it. (Such a destination, which a request without a time registers,
  makes an unsound datagram; \<open>request_without_time\<close> shows what that does.)
  Whatever \<open>select\<close> then reports to one of the stations, its round of the loop in \<open>main\<close> is exactly
  \<open>turn\<close>: the timeout, or the reaction to a datagram followed by the reception of a browser. A datagram
  that is handed over carries a sound message: its hops are different stations of the network, it
  has got to the station that is to handle it, and it is as far as its \<open>found\<close> and \<open>current\<close> say. On it
  the handler floods, answers the browsers or passes the message on to one station, and it fails
  when and only when \<open>cause_of\<close> has a cause, with the error of that cause: the datagram fills the
  receive buffer, the query asks for the station it comes from, the leg has no connection, the
  message to be sent does not fit the buffer it is printed into, or the answered query is no longer
  in the ring.\<close>

theorem station_round:
  assumes "calm W n0 n" and "laid_out W n0" and "up n i = Some s" and "server_ok s es"
    and "\<forall>d t. sel = Ready (UdpData d) t \<longrightarrow> (\<exists>h p. (h, p, d) \<in># flight n \<and> route W h p = Some i)"
  shows "\<exists>m. (\<forall>d t. sel = Ready (UdpData d) t \<longrightarrow>
      d = wire m \<and> sound_msg n0 m \<and> addressee m \<in> {None, Some (my_name s)}) \<and>
    round_of W i sel s = turn es m sel s"
  using calm_turn [OF assms(1-4) kept_all assms(5)] by blast

theorem station_round_witness:
  "\<exists>n. calm demo_world demo_self n \<and> (''10.0.0.1'', ''4004'', wire self_msg) \<in># flight n \<and> up n 0 = Some self_C \<and>
    round_of demo_world 0 (Ready (UdpData (wire self_msg)) NoTcp) self_C = Inl OutOfBounds \<and>
    round_of demo_world 0 (Timeout (\<lambda>f. f \<noteq> 7)) self_C = Inl UseAfterFree"
proof -
  let ?n = "\<lparr>up = up demo_self, flight = {#(''10.0.0.1'', ''4004'', wire self_msg)#}\<rparr>"
  let ?sel = "Ready (UdpData (wire self_msg)) NoTcp"
  have ok: "server_ok self_C demo_entries" by code_simp
  have r: "route demo_world ''10.0.0.1'' ''4004'' = Some 0" "up ?n 0 = Some self_C"
    by (simp_all add: demo_world_def demo_self_def)
  note round = station_round [OF demo_self_asked demo_self_laid_out r(2) ok]
  obtain m where m: "wire self_msg = wire m" "sound_msg demo_self m"
    "round_of demo_world 0 ?sel self_C = turn demo_entries m ?sel self_C"
    using round [of ?sel] r(1) by auto
  have "wf_msg self_msg" by code_simp
  then have "m = self_msg"
    using load_wire_cstr load_struct_unique sound_parts(1) [OF m(2)] m(1) by (metis sum.inject(2))
  moreover have "cause_of self_C demo_entries self_msg = Some SelfQuery" by code_simp
  ultimately have "round_of demo_world 0 ?sel self_C = Inl OutOfBounds" using m(3) by (simp add: turn_def reaction_def)
  moreover have "reminders (\<lambda>f. f \<noteq> 7) self_C = Inl UseAfterFree" by code_simp
  then have "round_of demo_world 0 (Timeout (\<lambda>f. f \<noteq> 7)) self_C = Inl UseAfterFree"
    using round [of "Timeout (\<lambda>f. f \<noteq> 7)"] by (auto simp: turn_def)
  ultimately show ?thesis using demo_self_asked r(2) by (intro exI [of _ ?n]) simp
qed

end
