(* ===== verification/Itinerary.thy ===== *)
theory Itinerary
  imports Journey
begin

text \<open>
  What the route says that a query comes back with: the stations of the path, and for each leg a row of the
  timetable of the station it leaves from. The station takes the first row that can be caught; when
  no connection of a timetable is overtaken by a later one to the same station, no other choice of rows
  along the path arrives earlier anywhere.
\<close>

section \<open>Rides\<close>

text \<open>When a traveller who takes row \<open>c j\<close> at place \<open>j\<close> is ready to leave from place \<open>j\<close>.\<close>

fun ready :: "(nat \<Rightarrow> entry list) \<Rightarrow> string \<Rightarrow> (nat \<Rightarrow> nat) \<Rightarrow> nat \<Rightarrow> string" where
  "ready E t c 0 = t"
| "ready E t c (Suc j) = e_arrival (E j ! c j)"

text \<open>Rows the search looks at, to the next place, none of which leaves too early.\<close>

definition rides :: "(nat \<Rightarrow> server) \<Rightarrow> (nat \<Rightarrow> entry list) \<Rightarrow> nat \<Rightarrow> string \<Rightarrow> (nat \<Rightarrow> nat) \<Rightarrow> bool" where
  "rides S E k t c \<longleftrightarrow> (\<forall>j<k. c j < length (E j) - 1 \<and> serves (E j) (ready E t c j) (my_name (S (Suc j))) (c j))"

text \<open>The message tells these rides.\<close>

definition tells :: "(nat \<Rightarrow> server) \<Rightarrow> (nat \<Rightarrow> entry list) \<Rightarrow> nat \<Rightarrow> (nat \<Rightarrow> nat) \<Rightarrow> msg \<Rightarrow> bool" where
  "tells S E k c m \<longleftrightarrow> m_stations m = map (\<lambda>j. my_name (S j)) [0..<Suc k] \<and>
     m_time m = e_departure (E 0 ! c 0) # map (\<lambda>j. e_arrival (E j ! c j)) [0..<k] \<and>
     m_routes m = ''...'' # map (\<lambda>j. e_route (E j ! c j)) [0..<k]"

definition no_overtaking :: "entry list \<Rightarrow> bool" where
  "no_overtaking es \<longleftrightarrow>
     sorted_wrt (\<lambda>e e'. e_to e = e_to e' \<longrightarrow> minutes (e_arrival e) \<le> minutes (e_arrival e')) es"

text \<open>Taking the first row each time is the best choice.\<close>

definition first_rides :: "(nat \<Rightarrow> server) \<Rightarrow> (nat \<Rightarrow> entry list) \<Rightarrow> nat \<Rightarrow> string \<Rightarrow> (nat \<Rightarrow> nat) \<Rightarrow> bool" where
  "first_rides S E k t c \<longleftrightarrow>
     (\<forall>j<k. first_departure (E j) (ready E t c j) (my_name (S (Suc j))) = int (c j))"

lemma first_rides_rides: "first_rides S E k t c \<Longrightarrow> rides S E k t c"
  by (simp add: first_rides_def rides_def first_departure_found)

lemma first_ride_earliest:
  assumes "first_rides S E k t c" and "rides S E k t c'" and "no_overtaking (E j)" and "j < k"
    and "minutes (ready E t c j) \<le> minutes (ready E t c' j)"
  shows "minutes (e_arrival (E j ! c j)) \<le> minutes (e_arrival (E j ! c' j))"
proof -
  have c: "serves (E j) (ready E t c j) (my_name (S (Suc j))) (c j)"
    "\<forall>i<c j. \<not> serves (E j) (ready E t c j) (my_name (S (Suc j))) i"
    using assms(1,4) by (auto simp: first_rides_def first_departure_found)
  have c': "c' j < length (E j) - 1" "serves (E j) (ready E t c j) (my_name (S (Suc j))) (c' j)"
    using assms(2,4,5) by (auto simp: rides_def serves_def)
  have "c j \<le> c' j" using c(2) c'(2) by (meson not_le)
  moreover have "e_to (E j ! c j) = e_to (E j ! c' j)" using c(1) c'(2) by (simp add: serves_def)
  ultimately show ?thesis using assms(3) c'(1) by (cases "c j = c' j") (auto simp: no_overtaking_def sorted_wrt_iff_nth_less)
qed

lemma first_rides_earliest:
  assumes "first_rides S E k t c" and "rides S E k t c'" and "\<forall>j<k. no_overtaking (E j)"
  shows "j < k \<Longrightarrow> minutes (e_arrival (E j ! c j)) \<le> minutes (e_arrival (E j ! c' j))"
  by (induction j) (use assms in \<open>auto intro: first_ride_earliest\<close>)

section \<open>The rides of a route\<close>

lemma first_departure_again:
  assumes "first_departure es t go = int i"
  shows "first_departure es (e_departure (es ! i)) go = int i"
  using assms by (fastforce simp: first_departure_found serves_def)

lemma out_lists:
  "m_stations (out_msg S m k) = m_stations m @ map (\<lambda>j. my_name (S j)) [0..<k]"
  "m_time (out_msg S m k) = m_time m @ replicate k ''...''"
  "m_routes (out_msg S m k) = m_routes m @ replicate k ''...''"
  by (induction k) (simp_all add: out_msg.simps(2) flood_msg_def replicate_append_same [symmetric])

text \<open>The rows the stations find, and what is then entered. A source without a connection enters 99:99.\<close>

lemma leg_row_nat: "leg_row es m \<noteq> - 1 \<Longrightarrow> leg_row es m = int (nat (leg_row es m))"
  unfolding leg_row_def by (cases rule: first_departure_cases) auto

lemma depart_row:
  assumes "leg_row es (depart_msg es m) \<noteq> - 1" and "minutes (m_start_time m) \<le> minutes ''99:99''"
    and "m_current m = 1" and "m_time m \<noteq> []"
  shows "first_departure es (m_start_time m) (m_stations m ! 1) = leg_row es (depart_msg es m)"
    and "depart_time es m = e_departure (es ! nat (leg_row es (depart_msg es m)))"
proof -
  let ?go = "m_stations m ! 1"
  have row: "leg_row es (depart_msg es m) = first_departure es (depart_time es m) ?go"
    using assms(3,4) by (simp add: leg_row_def depart_msg_def)
  have "first_departure es (m_start_time m) ?go \<noteq> - 1"
  proof
    assume none: "first_departure es (m_start_time m) ?go = - 1"
    then have "depart_time es m = ''99:99''" using assms(3) by (simp add: depart_time_def)
    then have "first_departure es ''99:99'' ?go \<noteq> - 1" using assms(1) row by simp
    with none assms(2) show False by (auto simp: first_departure_none serves_def)
  qed
  then obtain i where i: "first_departure es (m_start_time m) ?go = int i"
    by (cases rule: first_departure_cases [of es "m_start_time m" ?go]) auto
  then have "depart_time es m = e_departure (es ! i)" using assms(3) by (simp add: depart_time_def)
  with i row first_departure_again [OF i]
  show "first_departure es (m_start_time m) ?go = leg_row es (depart_msg es m)"
    "depart_time es m = e_departure (es ! nat (leg_row es (depart_msg es m)))" by simp_all
qed

lemma found_lists:
  assumes "b = at_hop 1 (found_msg S E k (query_msg src dst t))" and "1 \<le> k"
  shows "m_stations b = map (\<lambda>i. my_name (S i)) [0..<Suc k]" "length (m_time b) = Suc k" "length (m_routes b) = Suc k"
    "m_routes b ! 0 = ''...''" "m_start_time b = t" "m_current b = 1"
  using assms(2) unfolding assms(1)
  by (simp_all add: found_msg_def arrive_msg_def out_lists query_msg_def at_hop_def nth_append)

lemma leg_lists:
  assumes "legs_ok S E k (query_msg src dst t)" and "1 \<le> k" and "minutes t \<le> minutes ''99:99''"
  defines "b \<equiv> at_hop 1 (found_msg S E k (query_msg src dst t))"
  defines "c \<equiv> \<lambda>j. nat (leg_row (E j) (leg_msg E b j))"
  assumes "j \<le> k"
  shows "m_stations (leg_msg E b j) = map (\<lambda>i. my_name (S i)) [0..<Suc k] \<and>
    m_time (leg_msg E b j) = e_departure (E 0 ! c 0) # map (\<lambda>i. e_arrival (E i ! c i)) [0..<j] @ drop (Suc j) (m_time b) \<and>
    m_routes (leg_msg E b j) = ''...'' # map (\<lambda>i. e_route (E i ! c i)) [0..<j] @ drop (Suc j) (m_routes b) \<and>
    first_rides S E j t c"
proof -
  note b = found_lists [OF b_def [THEN meta_eq_to_obj_eq] assms(2)]
  have some: "leg_row (E j) (leg_msg E b j) \<noteq> - 1" if "j < k" for j
    using assms(1) that unfolding legs_ok_def b_def by blast
  have row: "leg_row (E j) (leg_msg E b j) = int (c j)" if "j < k" for j
    unfolding c_def by (rule leg_row_nat [OF some [OF that]])
  have "m_stations b ! 1 = my_name (S 1)" using b(1) assms(2) by (simp del: upt_Suc)
  moreover have "leg_row (E 0) (depart_msg (E 0) b) = int (c 0)" using row [of 0] assms(2) by simp
  ultimately have start: "first_departure (E 0) t (my_name (S 1)) = int (c 0)" "depart_time (E 0) b = e_departure (E 0 ! c 0)"
    using depart_row [of "E 0" b] assms(3) b(2,5,6) by (cases "m_time b"; auto)+
  show ?thesis
    using assms(6)
  proof (induction j)
    case 0
    show ?case
      using b start by (cases "m_time b"; cases "m_routes b") (simp_all add: depart_msg_def first_rides_def)
  next
    case (Suc j)
    let ?m = "leg_msg E b j"
    have j: "j < k" and IH: "m_stations ?m = map (\<lambda>i. my_name (S i)) [0..<Suc k]"
      "m_time ?m = e_departure (E 0 ! c 0) # map (\<lambda>i. e_arrival (E i ! c i)) [0..<j] @ drop (Suc j) (m_time b)"
      "m_routes ?m = ''...'' # map (\<lambda>i. e_route (E i ! c i)) [0..<j] @ drop (Suc j) (m_routes b)"
      "first_rides S E j t c"
      using Suc by simp_all
    have cur: "nat (m_current ?m) = Suc j" "nat (m_current ?m - 1) = j" "nat (1 + int j) = Suc j" using b(6) by simp_all
    have "m_stations ?m ! Suc j = my_name (S (Suc j))" using IH(1) j by (simp del: upt_Suc)
    then have r: "first_departure (E j) (m_time ?m ! j) (my_name (S (Suc j))) = int (c j)"
      using row [OF j, unfolded leg_row_def cur] by simp
    have "first_departure (E j) (ready E t c j) (my_name (S (Suc j))) = int (c j)"
    proof (cases j)
      case 0
      then show ?thesis using start(1) by simp
    next
      case (Suc i)
      then have "m_time ?m ! j = e_arrival (E i ! c i)" using IH(2) by (simp add: nth_append)
      with r Suc show ?thesis by simp
    qed
    moreover have "drop (Suc j) (m_time b) = m_time b ! Suc j # drop (Suc (Suc j)) (m_time b)"
      "drop (Suc j) (m_routes b) = m_routes b ! Suc j # drop (Suc (Suc j)) (m_routes b)"
      using b(2,3) j by (simp_all add: Cons_nth_drop_Suc)
    ultimately show ?case
      using IH row [OF j] by (auto simp: leg_msg.simps(2) fill_msg_def Let_def cur b(6) first_rides_def less_Suc_eq list_update_append)
  qed
qed

lemma route_tells:
  assumes "legs_ok S E k (query_msg src dst t)" and "1 \<le> k" and "minutes t \<le> minutes ''99:99''"
  shows "\<exists>c. first_rides S E k t c \<and> tells S E k c (route_msg S E k (query_msg src dst t))"
  using leg_lists [OF assms order_refl] found_lists(2,3) [OF refl assms(2), of S E src dst t]
  by (intro exI conjI) (auto simp: tells_def route_msg_def)

section \<open>A run with such an answer\<close>

text \<open>Under the hypotheses of the journey there are deliveries after which the source answers its browsers
  with a message that tells, station by station, rides of the timetables that can be caught one after the
  other, from the time asked for; and when no row of a timetable is overtaken by a later one to the same
  station, every other choice of such rides along the path arrives at each station no earlier.
  \<open>Answers\<close> shows the same of every answer in every run, along the path it came back over.\<close>

lemma answer_earliest:
  assumes "path_ok W n is E k src dst" and "wf_msg (query_msg src dst t)" and "is_time t"
    and "journey_fits (stop n is) E k (query_msg src dst t)" and "legs_ok (stop n is) E k (query_msg src dst t)"
    and "(local_ip (stop n is 0), UDP_port (stop n is 0), wire (query_msg src dst t)) \<in># flight n"
    and "ring_has (clients (stop n is 0)) (dst, t)"
    and "minutes t \<le> minutes ''99:99''" and "\<forall>j<k. no_overtaking (E j)"
  shows "\<exists>n' h p m c. (delivery W)\<^sup>*\<^sup>* n n' \<and> route W h p = Some (is 0) \<and> (h, p, wire m) \<in># flight n' \<and>
    (\<exists>s'. udp_handler (sys W (is 0)) (stop n is 0) (wire m) = Inr (s',
       concat (map (\<lambda>f. [TcpSend f (wire (m\<lparr>m_found := 4\<rparr>)), TcpClose f]) (waiting (clients (stop n is 0)) (asked dst t))))) \<and>
    tells (stop n is) E k c m \<and> rides (stop n is) E k t c \<and>
    (\<forall>c'. rides (stop n is) E k t c' \<longrightarrow>
       (\<forall>j<k. minutes (e_arrival (E j ! c j)) \<le> minutes (e_arrival (E j ! c' j))))"
proof -
  let ?r = "at_hop 1 (route_msg (stop n is) E k (query_msg src dst t))"
  obtain c where c: "first_rides (stop n is) E k t c" "tells (stop n is) E k c ?r"
    using route_tells [OF assms(5) path_ends(1) [OF assms(1)] assms(8)] by (auto simp: tells_def at_hop_def)
  note answered = flooded_query_answered [OF assms(1-7), unfolded Let_def]
  then show ?thesis
    using c first_rides_rides [OF c(1)] first_rides_earliest [OF c(1) _ assms(9)] by blast
qed

end
