(* ===== verification/Builder.thy ===== *)
theory Builder
  imports Timetable Complex_Main
begin

text \<open>
  \<open>src/files/buildlinetimetables.c\<close> and \<open>buildrandomtimetables.c\<close>: the programs that draw a network
  of stations and write its timetable files and its adjacency file. The two differ in their main
  programs, in the linear network and in the hours of service; the functions they share word for word are
  modelled once, \<open>build_timetables\<close> with the hours as arguments and then for each program.

  \<^item> The values of \<open>rand()\<close> are a parameter, the sequence \<open>rand\<close>; the functions that draw take the
    number of values drawn so far and return the new one.
  \<^item> \<open>double\<close> values are rationals, and \<open>rnd\<close> is the rounding the hardware applies to the result of
    each operation. The theorems assume of it what \<open>double_rounding\<close> says.
  \<^item> The loops that draw until they are satisfied may not end: they are partial functions with
    result \<open>None\<close> then, and their termination is proved from fairness of the sequence.
  \<^item> A file that is written is a pair of its name and its text. \<open>malloc\<close> and \<open>calloc\<close> are assumed
    to succeed.
\<close>

section \<open>Matrices and Warshall's algorithm\<close>

type_synonym matrix = "bool list list"

definition at2 :: "matrix \<Rightarrow> nat \<Rightarrow> nat \<Rightarrow> bool" where
  "at2 a i j = a ! i ! j"

definition set2 :: "matrix \<Rightarrow> nat \<Rightarrow> nat \<Rightarrow> bool \<Rightarrow> matrix" where
  "set2 a i j b = a[i := (a ! i)[j := b]]"

definition new2D :: "nat \<Rightarrow> matrix" where
  "new2D N = replicate N (replicate N False)"

text \<open>The order of \<open>FOREACH_i FOREACH_j\<close>.\<close>

definition cells_of :: "nat \<Rightarrow> (nat \<times> nat) list" where
  "cells_of N = List.product [0..<N] [0..<N]"

definition copy_matrix :: "matrix \<Rightarrow> nat \<Rightarrow> matrix \<Rightarrow> matrix" where
  "copy_matrix adj N w = fold (\<lambda>(i, j) w. set2 w i j (at2 adj i j)) (cells_of N) w"

definition relax :: "nat \<Rightarrow> nat \<times> nat \<Rightarrow> matrix \<Rightarrow> matrix" where
  "relax k ij w =
     (case ij of (i, j) \<Rightarrow> if \<not> at2 w i j then set2 w i j (at2 w i k \<and> at2 w k j) else w)"

definition relax_all :: "nat \<Rightarrow> nat \<Rightarrow> matrix \<Rightarrow> matrix" where
  "relax_all N k w = fold (relax k) (cells_of N) w"

text \<open>The result, and what the global \<open>w\<close> holds afterwards.\<close>

definition Warshall :: "matrix \<Rightarrow> nat \<Rightarrow> matrix \<Rightarrow> bool \<times> matrix" where
  "Warshall adj N w =
     (let w = fold (relax_all N) [0..<N] (copy_matrix adj N w)
      in (list_all (\<lambda>(i, j). at2 w i j) (cells_of N), w))"

section \<open>Networks\<close>

definition connect :: "nat \<Rightarrow> nat \<Rightarrow> matrix \<Rightarrow> matrix" where
  "connect i j adj = set2 (set2 adj j i True) i j True"

definition build_linear_routes :: "nat \<Rightarrow> matrix \<Rightarrow> matrix" where
  "build_linear_routes N adj = fold (\<lambda>i adj. connect i (i + 1) adj) [0..<N - 1] adj"

definition draw_route :: "(nat \<Rightarrow> nat) \<Rightarrow> nat \<Rightarrow> nat \<Rightarrow> matrix \<Rightarrow> matrix" where
  "draw_route rand N k adj =
     (let i = rand k mod N; j = rand (k + 1) mod N
      in if i = j \<or> at2 adj i j then adj else connect i j adj)"

partial_function (option) build_routes ::
  "(nat \<Rightarrow> nat) \<Rightarrow> nat \<Rightarrow> nat \<Rightarrow> matrix \<Rightarrow> matrix \<Rightarrow> (matrix \<times> nat) option" where
  "build_routes rand N k adj w =
     (if fst (Warshall (draw_route rand N k adj) N w) then Some (draw_route rand N k adj, k + 2)
      else build_routes rand N (k + 2) (draw_route rand N k adj)
             (snd (Warshall (draw_route rand N k adj) N w)))"

section \<open>Names\<close>

definition nodetype :: "nat \<Rightarrow> nat \<Rightarrow> string" where
  "nodetype type0 i = [''Station'', ''Terminal'', ''Junction'', ''Busport''] ! ((i + type0) mod 4)"

definition letter :: "nat \<Rightarrow> char" where
  "letter n = char_of (65 + n mod 26)"

definition nodename :: "nat \<Rightarrow> nat \<Rightarrow> string" where
  "nodename N i = (if N < 26 then [letter i] else [letter i, letter (i div 26)])"

section \<open>Timetables\<close>

definition RANDOM_LAT :: "(rat \<Rightarrow> rat) \<Rightarrow> nat \<Rightarrow> rat" where
  "RANDOM_LAT rnd r = rnd (- rnd (319 / 10) + rnd (of_nat (r mod 40) / 100))"

definition RANDOM_LON :: "(rat \<Rightarrow> rat) \<Rightarrow> nat \<Rightarrow> rat" where
  "RANDOM_LON rnd r = rnd (rnd (1158 / 10) + rnd (of_nat (r mod 40) / 100))"

definition distance :: "(rat \<Rightarrow> rat) \<Rightarrow> rat list \<Rightarrow> rat list \<Rightarrow> nat \<Rightarrow> nat \<Rightarrow> rat" where
  "distance rnd x y i j =
     rnd (rnd (\<bar>rnd (x ! i - x ! j)\<bar> + \<bar>rnd (y ! i - y ! j)\<bar>) * 100)"

text \<open>Conversion of a non-negative \<open>double\<close> to \<open>int\<close>, and \<open>%.4f\<close>.\<close>

definition arrival :: "(rat \<Rightarrow> rat) \<Rightarrow> int \<Rightarrow> rat \<Rightarrow> nat \<Rightarrow> int" where
  "arrival rnd departs d skew = \<lfloor>rnd (rnd (of_int departs + d) + of_nat skew)\<rfloor>"

definition fmt_4f :: "rat \<Rightarrow> string" where
  "fmt_4f v =
     (let n = \<lfloor>\<bar>v\<bar> * 10000 + 1 / 2\<rfloor>; f = n mod 10000
      in (if v < 0 then ''-'' else []) @ dec (n div 10000) @ ''.'' @
         dec (f div 1000) @ dec (f div 100 mod 10) @ dec (f div 10 mod 10) @ dec (f mod 10))"

definition tt_row_text :: "string \<Rightarrow> string \<Rightarrow> string \<Rightarrow> int \<Rightarrow> int \<Rightarrow> string" where
  "tt_row_text nni nnj typej departs arrives =
     dec02 (departs div 60) @ '':'' @ dec02 (departs mod 60) @ '',bus'' @ nni @ ''_'' @ nnj @
     '',stop'' @ nni @ '','' @ dec02 (arrives div 60) @ '':'' @ dec02 (arrives mod 60) @ '','' @
     typej @ nnj @ [newline]"

text \<open>The numbers one timetable is drawn with.\<close>

record tt_job =
  j_N :: nat
  j_type0 :: nat
  j_adj :: matrix
  j_x :: "rat list"
  j_y :: "rat list"
  j_tlast :: int

partial_function (option) departures ::
  "(rat \<Rightarrow> rat) \<Rightarrow> (nat \<Rightarrow> nat) \<Rightarrow> tt_job \<Rightarrow> nat \<Rightarrow> int \<Rightarrow> int \<Rightarrow> nat \<Rightarrow> string \<Rightarrow> (string \<times> nat) option" where
  "departures rnd rand J i tdelta departs k out =
     (if departs < j_tlast J then
        (let j = rand k mod j_N J in
         if at2 (j_adj J) i j then
           (let skew = rand (k + 1) mod 3;
                arrives = arrival rnd departs (distance rnd (j_x J) (j_y J) i j) skew
            in departures rnd rand J i tdelta (departs + tdelta + int skew + int (rand (k + 2) mod 5) + 2)
                 (k + 3) (out @ tt_row_text (nodename (j_N J) i) (nodename (j_N J) j)
                    (nodetype (j_type0 J) j) departs arrives))
         else departures rnd rand J i tdelta departs (k + 1) out)
      else Some (out, k))"

definition degree :: "nat \<Rightarrow> matrix \<Rightarrow> nat \<Rightarrow> nat" where
  "degree N adj i = length (filter (at2 adj i) [0..<N])"

definition station_header :: "tt_job \<Rightarrow> nat \<Rightarrow> string" where
  "station_header J i =
     ''# station-name,longitude,latitude'' @ [newline] @
     nodetype (j_type0 J) i @ nodename (j_N J) i @ '','' @ fmt_4f (j_x J ! i) @ '','' @
     fmt_4f (j_y J ! i) @ [newline] @
     ''# departure-time,route-name,departing-from,arrival-time,arrival-station'' @ [newline]"

text \<open>A station without neighbours divides by zero.\<close>

definition build_timetable ::
  "(rat \<Rightarrow> rat) \<Rightarrow> (nat \<Rightarrow> nat) \<Rightarrow> int \<Rightarrow> tt_job \<Rightarrow> nat \<Rightarrow> nat \<Rightarrow> (string \<times> nat) res option" where
  "build_timetable rnd rand hour0 J i k =
     (let nn = degree (j_N J) (j_adj J) i in
      if nn = 0 then Some (Inl DivByZero)
      else map_option Inr (departures rnd rand J i (60 div int nn) (hour0 * 60 + int nn) k
             (station_header J i)))"

text \<open>\<open>can_create\<close> says which files can be created.\<close>

definition create_file :: "(string \<Rightarrow> bool) \<Rightarrow> string \<Rightarrow> unit res" where
  "create_file can_create filenm = (if can_create filenm then Inr () else Inl (Exit 1))"

text \<open>The timetables of the stations from \<open>i\<close> on, as files with their names.\<close>

fun build_files ::
  "(rat \<Rightarrow> rat) \<Rightarrow> (nat \<Rightarrow> nat) \<Rightarrow> (string \<Rightarrow> bool) \<Rightarrow> int \<Rightarrow> tt_job \<Rightarrow> nat list \<Rightarrow> nat \<Rightarrow>
   ((string \<times> string) list \<times> nat) res option" where
  "build_files rnd rand can_create hour0 J [] k = Some (Inr ([], k))"
| "build_files rnd rand can_create hour0 J (i # is) k =
     (let filenm = ''tt-'' @ nodetype (j_type0 J) i @ nodename (j_N J) i in
      case create_file can_create filenm of
        Inl e \<Rightarrow> Some (Inl e)
      | Inr _ \<Rightarrow>
         (case build_timetable rnd rand hour0 J i k of
            None \<Rightarrow> None
          | Some (Inl e) \<Rightarrow> Some (Inl e)
          | Some (Inr (out, k)) \<Rightarrow>
              map_option (\<lambda>r. bindR r (\<lambda>(fs, k). Inr ((filenm, out) # fs, k)))
                (build_files rnd rand can_create hour0 J is k)))"

text \<open>The positions of the stations are drawn first.\<close>

definition draw_job ::
  "(rat \<Rightarrow> rat) \<Rightarrow> (nat \<Rightarrow> nat) \<Rightarrow> int \<Rightarrow> nat \<Rightarrow> nat \<Rightarrow> matrix \<Rightarrow> nat \<Rightarrow> tt_job" where
  "draw_job rnd rand hour1 N type0 adj k =
     \<lparr>j_N = N, j_type0 = type0, j_adj = adj,
      j_x = map (\<lambda>i. RANDOM_LON rnd (rand (k + 2 * i))) [0..<N],
      j_y = map (\<lambda>i. RANDOM_LAT rnd (rand (k + 2 * i + 1))) [0..<N], j_tlast = hour1 * 60\<rparr>"

definition build_timetables ::
  "(rat \<Rightarrow> rat) \<Rightarrow> (nat \<Rightarrow> nat) \<Rightarrow> (string \<Rightarrow> bool) \<Rightarrow> int \<Rightarrow> int \<Rightarrow> nat \<Rightarrow> nat \<Rightarrow> matrix \<Rightarrow> nat \<Rightarrow>
   ((string \<times> string) list \<times> nat) res option" where
  "build_timetables rnd rand can_create hour0 hour1 N type0 adj k =
     build_files rnd rand can_create hour0 (draw_job rnd rand hour1 N type0 adj k) [0..<N] (k + 2 * N)"

text \<open>The hours of service are the only difference between the two programs' timetables.\<close>

definition build_timetables_random ::
  "(rat \<Rightarrow> rat) \<Rightarrow> (nat \<Rightarrow> nat) \<Rightarrow> (string \<Rightarrow> bool) \<Rightarrow> nat \<Rightarrow> nat \<Rightarrow> matrix \<Rightarrow> nat \<Rightarrow>
   ((string \<times> string) list \<times> nat) res option" where
  "build_timetables_random rnd rand can_create = build_timetables rnd rand can_create 6 21"

definition build_timetables_line ::
  "(rat \<Rightarrow> rat) \<Rightarrow> (nat \<Rightarrow> nat) \<Rightarrow> (string \<Rightarrow> bool) \<Rightarrow> nat \<Rightarrow> nat \<Rightarrow> matrix \<Rightarrow> nat \<Rightarrow>
   ((string \<times> string) list \<times> nat) res option" where
  "build_timetables_line rnd rand can_create = build_timetables rnd rand can_create 5 22"

definition print_adjacency :: "nat \<Rightarrow> nat \<Rightarrow> matrix \<Rightarrow> string" where
  "print_adjacency N type0 adj =
     concat (map (\<lambda>i. nodetype type0 i @ nodename N i @
       concat (map (\<lambda>j. '' '' @ nodetype type0 j @ nodename N j) (filter (at2 adj i) [0..<N])) @ [newline])
     [0..<N])"

section \<open>The main programs\<close>

definition MIN_NODES :: int where "MIN_NODES = 2"

definition MAX_NODES :: int where "MAX_NODES = 26 * 26"

definition atoi :: "string \<Rightarrow> int" where
  "atoi s = (case scan_int s of None \<Rightarrow> 0 | Some (n, _) \<Rightarrow> n)"

text \<open>\<open>getopt\<close> with the option \<open>l\<close>, which toggles: whether an illegal option was met, the flag, and
  the operands.\<close>

fun getopt_l :: "string list \<Rightarrow> bool \<Rightarrow> bool \<times> bool \<times> string list" where
  "getopt_l [] lflag = (False, lflag, [])"
| "getopt_l (a # as) lflag =
     (if a = ''--'' then (False, lflag, as)
      else if a \<noteq> [] \<and> hd a = CHR ''-'' \<and> tl a \<noteq> [] then
        (if list_all (\<lambda>c. c = CHR ''l'') (tl a)
         then getopt_l as (if odd (length (tl a)) then \<not> lflag else lflag)
         else (True, lflag, []))
      else (let (bad, fl, ops) = getopt_l as lflag in (bad, fl, a # ops)))"

text \<open>The timetables are followed by the adjacency file.\<close>

definition write_network ::
  "(string \<Rightarrow> bool) \<Rightarrow> nat \<Rightarrow> nat \<Rightarrow> matrix \<Rightarrow> ((string \<times> string) list \<times> nat) res option \<Rightarrow>
   (string \<times> string) list res option" where
  "write_network can_create N type0 adj timetables =
     map_option (\<lambda>r. bindR r (\<lambda>(fs, _).
         bindR (create_file can_create ''adjacency'') (\<lambda>_.
         Inr (fs @ [(''adjacency'', print_adjacency N type0 adj)])))) timetables"

definition usage :: "nat \<Rightarrow> (string \<times> string) list res" where
  "usage status = Inl (Exit status)"

text \<open>\<open>main\<close> of \<open>buildrandomtimetables.c\<close>: service from 6 to 21.\<close>

definition main_random ::
  "(rat \<Rightarrow> rat) \<Rightarrow> (nat \<Rightarrow> nat) \<Rightarrow> (string \<Rightarrow> bool) \<Rightarrow> string list \<Rightarrow> (string \<times> string) list res option" where
  "main_random rnd rand can_create argv =
     (if length argv \<noteq> 2 then Some (usage 1)
      else let n = atoi (argv ! 1) in
        if n < MIN_NODES \<or> n > MAX_NODES then Some (usage 1)
        else let N = nat n; type0 = rand 0 mod 10 in
          case build_routes rand N 1 (new2D N) (new2D N) of
            None \<Rightarrow> None
          | Some (adj, k) \<Rightarrow>
              write_network can_create N type0 adj (build_timetables_random rnd rand can_create N type0 adj k))"

text \<open>\<open>main\<close> of \<open>buildlinetimetables.c\<close>: service from 5 to 22, and a linear network with \<open>-l\<close>.\<close>

definition main_line ::
  "(rat \<Rightarrow> rat) \<Rightarrow> (nat \<Rightarrow> nat) \<Rightarrow> (string \<Rightarrow> bool) \<Rightarrow> string list \<Rightarrow> (string \<times> string) list res option" where
  "main_line rnd rand can_create argv =
     (let (bad, lflag, ops) = getopt_l (tl argv) False in
      if bad \<or> length ops \<noteq> 1 then Some (usage 1)
      else let n = atoi (hd ops) in
        if n < MIN_NODES \<or> n > MAX_NODES then Some (usage 1)
        else let N = nat n; type0 = rand 0 mod 10 in
          case (if lflag then Some (build_linear_routes N (new2D N), 1)
                else build_routes rand N 1 (new2D N) (new2D N)) of
            None \<Rightarrow> None
          | Some (adj, k) \<Rightarrow>
              write_network can_create N type0 adj (build_timetables_line rnd rand can_create N type0 adj k))"

section \<open>Square matrices\<close>

definition square :: "nat \<Rightarrow> matrix \<Rightarrow> bool" where
  "square N a \<longleftrightarrow> length a = N \<and> list_all (\<lambda>r. length r = N) a"

lemma square_new2D [simp]: "square N (new2D N)"
  by (simp add: square_def new2D_def list_all_length)

lemma at2_new2D [simp]: "i < N \<Longrightarrow> j < N \<Longrightarrow> \<not> at2 (new2D N) i j"
  by (simp add: at2_def new2D_def)

lemma square_set2 [simp]: "square N a \<Longrightarrow> square N (set2 a i j b)"
  by (cases "i < N") (auto simp: square_def set2_def list_all_length nth_list_update)

lemma at2_set2 [simp]:
  "square N a \<Longrightarrow> i < N \<Longrightarrow> j < N \<Longrightarrow> at2 (set2 a i j b) i' j' = (if i' = i \<and> j' = j then b else at2 a i' j')"
  by (auto simp: square_def set2_def at2_def list_all_length nth_list_update)

lemma set_cells [simp]: "(i, j) \<in> set (cells_of N) \<longleftrightarrow> i < N \<and> j < N"
  by (simp add: cells_of_def)

lemma distinct_cells: "distinct (cells_of N)"
  by (simp add: cells_of_def distinct_product)

section \<open>The loops of Warshall\<close>

lemma copy_prefix:
  assumes "square N w" and "distinct ps" and "set ps \<subseteq> set (cells_of N)"
  shows "square N (fold (\<lambda>(i, j) w. set2 w i j (at2 adj i j)) ps w) \<and>
    (\<forall>a<N. \<forall>b<N. at2 (fold (\<lambda>(i, j) w. set2 w i j (at2 adj i j)) ps w) a b =
       (if (a, b) \<in> set ps then at2 adj a b else at2 w a b))"
  using assms(2,3)
proof (induction ps rule: rev_induct)
  case Nil
  with assms(1) show ?case by simp
next
  case (snoc p ps)
  then show ?case by (cases p) (auto split: if_splits)
qed

lemma copy_matrix_ok:
  assumes "square N w"
  shows "square N (copy_matrix adj N w)" and "i < N \<Longrightarrow> j < N \<Longrightarrow> at2 (copy_matrix adj N w) i j = at2 adj i j"
  using copy_prefix [OF assms distinct_cells order_refl, of adj] by (auto simp: copy_matrix_def)

lemma relax_one:
  assumes "square N v" and "i < N" and "j < N"
  shows "square N (relax k (i, j) v)"
    and "at2 (relax k (i, j) v) a b =
      (if a = i \<and> b = j then at2 v i j \<or> at2 v i k \<and> at2 v k j else at2 v a b)"
  using assms by (auto simp: relax_def)

text \<open>One round of \<open>k\<close>, in place, is the simultaneous update.\<close>

lemma relax_prefix:
  assumes "square N w" and "k < N" and "distinct ps" and "set ps \<subseteq> set (cells_of N)"
  shows "square N (fold (relax k) ps w) \<and>
    (\<forall>a<N. \<forall>b<N. at2 (fold (relax k) ps w) a b =
       (if (a, b) \<in> set ps then at2 w a b \<or> at2 w a k \<and> at2 w k b else at2 w a b))"
  using assms(3,4)
proof (induction ps rule: rev_induct)
  case Nil
  with assms(1) show ?case by simp
next
  case (snoc p ps)
  obtain i j where p: "p = (i, j)" by (cases p)
  let ?v = "fold (relax k) ps w"
  have ij: "i < N" "j < N" "(i, j) \<notin> set ps" using snoc.prems by (auto simp: p)
  have sq: "square N ?v"
    and v: "\<And>a b. a < N \<Longrightarrow> b < N \<Longrightarrow> at2 ?v a b =
       (if (a, b) \<in> set ps then at2 w a b \<or> at2 w a k \<and> at2 w k b else at2 w a b)"
    using snoc by auto
  have "at2 ?v i k = at2 w i k" "at2 ?v k j = at2 w k j" "at2 ?v i j = at2 w i j"
    using v ij assms(2) by auto
  with v have "at2 (relax k p ?v) a b =
      (if (a, b) \<in> set (ps @ [p]) then at2 w a b \<or> at2 w a k \<and> at2 w k b else at2 w a b)"
    if "a < N" "b < N" for a b
    using that unfolding p relax_one(2) [OF sq ij(1,2)] by (simp split: if_splits)
  with relax_one(1) [OF sq ij(1,2), of k] show ?case by (simp add: p)
qed

lemma relax_all_ok:
  assumes "square N w" and "k < N"
  shows "square N (relax_all N k w)"
    and "a < N \<Longrightarrow> b < N \<Longrightarrow> at2 (relax_all N k w) a b = (at2 w a b \<or> at2 w a k \<and> at2 w k b)"
  using relax_prefix [OF assms distinct_cells order_refl] by (auto simp: relax_all_def)

text \<open>The path relation with intermediate stations below \<open>k\<close>.\<close>

fun via :: "matrix \<Rightarrow> nat \<Rightarrow> nat \<Rightarrow> nat \<Rightarrow> bool" where
  "via adj 0 i j = at2 adj i j"
| "via adj (Suc k) i j = (via adj k i j \<or> via adj k i k \<and> via adj k k j)"

lemma rounds_via:
  assumes "square N w" and "K \<le> N"
  shows "square N (fold (relax_all N) [0..<K] (copy_matrix adj N w)) \<and>
    (\<forall>a<N. \<forall>b<N. at2 (fold (relax_all N) [0..<K] (copy_matrix adj N w)) a b = via adj K a b)"
  using assms(2)
proof (induction K)
  case 0
  show ?case using copy_matrix_ok [OF assms(1)] by auto
next
  case (Suc K)
  then have "square N (fold (relax_all N) [0..<K] (copy_matrix adj N w))" by simp
  from relax_all_ok [OF this, of K] Suc show ?case by auto
qed

section \<open>Warshall computes the transitive closure\<close>

definition edges :: "matrix \<Rightarrow> nat \<Rightarrow> (nat \<times> nat) set" where
  "edges adj N = {(i, j). i < N \<and> j < N \<and> at2 adj i j}"

lemma via_join: "m < k \<Longrightarrow> via adj k i m \<Longrightarrow> via adj k m j \<Longrightarrow> via adj k i j"
proof (induction k arbitrary: i j m)
  case (Suc k)
  show ?case
  proof (cases "m = k")
    case True
    with Suc.prems show ?thesis by auto
  next
    case False
    with Suc.prems(1) have m: "m < k" by simp
    from Suc.prems(2,3) Suc.IH [OF m] show ?thesis by auto
  qed
qed simp

lemma via_trancl: "i < N \<Longrightarrow> j < N \<Longrightarrow> k \<le> N \<Longrightarrow> via adj k i j \<Longrightarrow> (i, j) \<in> (edges adj N)\<^sup>+"
proof (induction k arbitrary: i j)
  case 0
  then show ?case by (auto simp: edges_def)
next
  case (Suc k)
  then show ?case by (metis Suc_le_lessD less_imp_le_nat trancl_trans via.simps(2))
qed

lemma via_mono: "at2 adj i j \<Longrightarrow> via adj k i j"
  by (induction k) auto

lemma trancl_via: "(i, j) \<in> (edges adj N)\<^sup>+ \<Longrightarrow> via adj N i j"
proof (induction rule: trancl_induct)
  case (base j)
  then show ?case by (simp add: edges_def via_mono)
next
  case (step j k)
  then have "j < N" "via adj N j k" by (auto simp: edges_def via_mono)
  with step.IH show ?case by (metis via_join)
qed

lemma Warshall_closure:
  assumes "square N w" and "i < N" and "j < N"
  shows "at2 (snd (Warshall adj N w)) i j \<longleftrightarrow> (i, j) \<in> (edges adj N)\<^sup>+"
  using rounds_via [OF assms(1) order_refl, of adj] assms(2,3) via_trancl [OF assms(2,3) order_refl, of adj]
    trancl_via [of i j adj N]
  by (auto simp: Warshall_def Let_def)

lemma Warshall_result:
  assumes "square N w"
  shows "square N (snd (Warshall adj N w))"
    and "fst (Warshall adj N w) \<longleftrightarrow> (\<forall>i<N. \<forall>j<N. (i, j) \<in> (edges adj N)\<^sup>+)"
proof -
  show "square N (snd (Warshall adj N w))"
    using rounds_via [OF assms order_refl, of adj] by (simp add: Warshall_def Let_def)
  have "fst (Warshall adj N w) \<longleftrightarrow> (\<forall>(i, j)\<in>set (cells_of N). at2 (snd (Warshall adj N w)) i j)"
    by (simp add: Warshall_def Let_def list_all_iff)
  then show "fst (Warshall adj N w) \<longleftrightarrow> (\<forall>i<N. \<forall>j<N. (i, j) \<in> (edges adj N)\<^sup>+)"
    using Warshall_closure [OF assms] set_cells [of _ _ N] by fastforce
qed

section \<open>The networks that are drawn\<close>

text \<open>No station is its own neighbour, and neighbours are mutual.\<close>

definition undirected :: "nat \<Rightarrow> matrix \<Rightarrow> bool" where
  "undirected N adj \<longleftrightarrow> square N adj \<and> (\<forall>i<N. \<forall>j<N. at2 adj i j = at2 adj j i) \<and> (\<forall>i<N. \<not> at2 adj i i)"

definition connected :: "nat \<Rightarrow> matrix \<Rightarrow> bool" where
  "connected N adj \<longleftrightarrow> (\<forall>i<N. \<forall>j<N. (i, j) \<in> (edges adj N)\<^sup>+)"

lemma Warshall_connected: "square N w \<Longrightarrow> fst (Warshall adj N w) \<longleftrightarrow> connected N adj"
  by (simp add: Warshall_result connected_def)

lemma undirected_new2D [simp]: "undirected N (new2D N)"
  by (simp add: undirected_def)

lemma at2_connect:
  "square N adj \<Longrightarrow> i < N \<Longrightarrow> j < N \<Longrightarrow> a < N \<Longrightarrow> b < N \<Longrightarrow>
   at2 (connect i j adj) a b \<longleftrightarrow> at2 adj a b \<or> (a = i \<and> b = j) \<or> (a = j \<and> b = i)"
  using at2_set2 [of N adj j i True a b] at2_set2 [OF square_set2, of N adj i j j i True True a b]
  by (auto simp: connect_def)

lemma undirected_connect:
  assumes "undirected N adj" and "i < N" and "j < N" and "i \<noteq> j"
  shows "undirected N (connect i j adj)"
proof -
  have sq: "square N adj" using assms(1) by (simp add: undirected_def)
  then have "square N (connect i j adj)" by (simp add: connect_def)
  with assms show ?thesis
    unfolding undirected_def by (auto simp: at2_connect [OF sq])
qed

lemma draw_cases:
  assumes "0 < N"
  obtains (same) "draw_route rand N k adj = adj" "rand k mod N = rand (k + 1) mod N \<or> at2 adj (rand k mod N) (rand (k + 1) mod N)"
  | (new) "draw_route rand N k adj = connect (rand k mod N) (rand (k + 1) mod N) adj"
      "rand k mod N \<noteq> rand (k + 1) mod N" "\<not> at2 adj (rand k mod N) (rand (k + 1) mod N)"
  by (cases "rand k mod N = rand (k + 1) mod N \<or> at2 adj (rand k mod N) (rand (k + 1) mod N)")
    (auto simp: draw_route_def Let_def)

lemma undirected_draw: "0 < N \<Longrightarrow> undirected N adj \<Longrightarrow> undirected N (draw_route rand N k adj)"
  by (cases rule: draw_cases [of N rand k adj]) (auto intro!: undirected_connect)

lemma build_routes_result:
  assumes "build_routes rand N k adj w = Some (adj', k')" and "0 < N" and "square N w" and "undirected N adj"
  shows "undirected N adj' \<and> connected N adj'"
proof -
  have "0 < N \<longrightarrow> square N w \<longrightarrow> undirected N adj \<longrightarrow> undirected N (fst r) \<and> connected N (fst r)"
    if "build_routes rand N k adj w = Some r" for r
    by (rule build_routes.raw_induct [where P = "\<lambda>rand N k adj w r. 0 < N \<longrightarrow> square N w \<longrightarrow>
          undirected N adj \<longrightarrow> undirected N (fst r) \<and> connected N (fst r)", OF _ that])
      (auto simp: undirected_draw Warshall_connected Warshall_result split: if_splits)
  from this [OF assms(1)] assms(2-4) show ?thesis by simp
qed

subsection \<open>Drawing ends\<close>

text \<open>Every pair of distinct stations keeps being drawn, from position \<open>k\<close> on in steps of two.\<close>

definition fair_pairs :: "(nat \<Rightarrow> nat) \<Rightarrow> nat \<Rightarrow> nat \<Rightarrow> bool" where
  "fair_pairs rand N k \<longleftrightarrow> (\<forall>i<N. \<forall>j<N. i \<noteq> j \<longrightarrow>
     (\<forall>n. \<exists>m\<ge>n. rand (k + 2 * m) mod N = i \<and> rand (k + 2 * m + 1) mod N = j))"

definition missing :: "nat \<Rightarrow> matrix \<Rightarrow> (nat \<times> nat) set" where
  "missing N adj = {(i, j). i < N \<and> j < N \<and> i \<noteq> j \<and> \<not> at2 adj i j}"

lemma finite_missing: "finite (missing N adj)"
  by (rule finite_subset [of _ "{..<N} \<times> {..<N}"]) (auto simp: missing_def)

lemma missing_connect:
  assumes "square N adj" and "i < N" and "j < N" and "i \<noteq> j" and "\<not> at2 adj i j"
  shows "card (missing N (connect i j adj)) < card (missing N adj)"
proof (rule psubset_card_mono [OF finite_missing])
  have "(i, j) \<in> missing N adj" using assms by (simp add: missing_def)
  moreover have "(i, j) \<notin> missing N (connect i j adj)" using assms by (simp add: missing_def at2_connect)
  moreover have "missing N (connect i j adj) \<subseteq> missing N adj"
    using assms by (auto simp: missing_def at2_connect)
  ultimately show "missing N (connect i j adj) \<subset> missing N adj" by blast
qed

lemma complete_connected:
  assumes "2 \<le> N" and "missing N adj = {}"
  shows "connected N adj"
  unfolding connected_def
proof (intro allI impI)
  fix i j
  assume ij: "i < N" "j < N"
  have edge: "(a, b) \<in> edges adj N" if "a < N" "b < N" "a \<noteq> b" for a b
    using assms(2) that by (auto simp: missing_def edges_def)
  show "(i, j) \<in> (edges adj N)\<^sup>+"
  proof (cases "i = j")
    case False
    with edge ij show ?thesis by blast
  next
    case True
    define b where "b = (if i = 0 then 1 else 0 :: nat)"
    have "b < N" "b \<noteq> i" using assms(1) by (auto simp: b_def)
    then have "(i, b) \<in> edges adj N" "(b, i) \<in> edges adj N" using edge ij by simp_all
    with True show ?thesis by (metis r_into_trancl trancl_into_trancl)
  qed
qed

lemma fair_pairs_later: "fair_pairs rand N k \<Longrightarrow> fair_pairs rand N (k + 2)"
  unfolding fair_pairs_def
proof (intro allI impI)
  fix i j n
  assume f: "\<forall>i<N. \<forall>j<N. i \<noteq> j \<longrightarrow> (\<forall>n. \<exists>m\<ge>n. rand (k + 2 * m) mod N = i \<and> rand (k + 2 * m + 1) mod N = j)"
    and ij: "i < N" "j < N" "i \<noteq> j"
  then obtain m where m: "Suc n \<le> m" "rand (k + 2 * m) mod N = i" "rand (k + 2 * m + 1) mod N = j" by blast
  then have "n \<le> m - 1" "k + 2 + 2 * (m - 1) = k + 2 * m" by simp_all
  then show "\<exists>m\<ge>n. rand (k + 2 + 2 * m) mod N = i \<and> rand (k + 2 + 2 * m + 1) mod N = j"
    using m(2,3) by (intro exI [of _ "m - 1"]) (simp only:)
qed

lemma build_routes_ends:
  assumes "2 \<le> N"
  shows "square N w \<Longrightarrow> undirected N adj \<Longrightarrow> fair_pairs rand N k \<Longrightarrow> \<exists>r. build_routes rand N k adj w = Some r"
proof (induction "card (missing N adj)" arbitrary: adj w k rule: less_induct)
  case less
  have pos: "0 < N" using assms by simp
  show ?case
  proof (cases "missing N adj = {}")
    case True
    have "missing N (draw_route rand N k adj) = {}"
    proof (cases rule: draw_cases [OF pos, of rand k adj])
      case 1
      with True show ?thesis by simp
    next
      case 2
      then have "(rand k mod N, rand (k + 1) mod N) \<in> missing N adj" using pos by (simp add: missing_def)
      with True show ?thesis by simp
    qed
    with less.prems(1) have "fst (Warshall (draw_route rand N k adj) N w)"
      using complete_connected [OF assms] by (simp add: Warshall_connected)
    then show ?thesis by (subst build_routes.simps) simp
  next
    case False
    then obtain i j where ij: "i < N" "j < N" "i \<noteq> j" "\<not> at2 adj i j" by (auto simp: missing_def)
    from less.prems(3) ij obtain m where m: "rand (k + 2 * m) mod N = i" "rand (k + 2 * m + 1) mod N = j"
      unfolding fair_pairs_def by blast
    from m less.prems show ?thesis
    proof (induction m arbitrary: k w)
      case (Suc m)
      let ?a = "draw_route rand N k adj"
      show ?case
      proof (cases "fst (Warshall ?a N w)")
        case True
        then show ?thesis by (subst build_routes.simps) simp
      next
        case go: False
        have sq: "square N (snd (Warshall ?a N w))" by (rule Warshall_result(1) [OF Suc.prems(3)])
        have "\<exists>r. build_routes rand N (k + 2) ?a (snd (Warshall ?a N w)) = Some r"
        proof (cases rule: draw_cases [OF pos, of rand k adj])
          case 1
          have "k + 2 + 2 * m = k + 2 * Suc m" by simp
          with Suc.IH [of "k + 2", OF _ _ sq Suc.prems(4) fair_pairs_later [OF Suc.prems(5)]] Suc.prems(1,2) 1(1)
          show ?thesis by (metis add.assoc)
        next
          case 2
          then have "card (missing N ?a) < card (missing N adj)"
            using Suc.prems(4) pos by (auto intro!: missing_connect simp: undirected_def)
          with less.hyps sq undirected_draw [OF pos Suc.prems(4)] fair_pairs_later [OF Suc.prems(5)]
          show ?thesis by blast
        qed
        with go show ?thesis by (subst build_routes.simps) simp
      qed
    next
      case 0
      let ?a = "draw_route rand N k adj"
      have a: "?a = connect i j adj" using 0 ij by (auto simp: draw_route_def Let_def)
      show ?case
      proof (cases "fst (Warshall ?a N w)")
        case True
        then show ?thesis by (subst build_routes.simps) simp
      next
        case go: False
        have "card (missing N ?a) < card (missing N adj)"
          unfolding a using 0(4) ij by (intro missing_connect) (simp_all add: undirected_def)
        with less.hyps Warshall_result(1) [OF 0(3)] undirected_draw [OF pos 0(4)] fair_pairs_later [OF 0(5)]
        have "\<exists>r. build_routes rand N (k + 2) ?a (snd (Warshall ?a N w)) = Some r" by blast
        with go show ?thesis by (subst build_routes.simps) simp
      qed
    qed
  qed
qed

subsection \<open>The linear network\<close>

definition neighbours_in_line :: "nat \<Rightarrow> nat \<Rightarrow> bool" where
  "neighbours_in_line a b \<longleftrightarrow> b = a + 1 \<or> a = b + 1"

lemma linear_prefix:
  assumes "square N adj" and "n < N"
  shows "square N (fold (\<lambda>i adj. connect i (i + 1) adj) [0..<n] adj) \<and>
    (\<forall>a<N. \<forall>b<N. at2 (fold (\<lambda>i adj. connect i (i + 1) adj) [0..<n] adj) a b =
      (at2 adj a b \<or> (neighbours_in_line a b \<and> a \<le> n \<and> b \<le> n)))"
  using assms(2)
proof (induction n)
  case 0
  with assms(1) show ?case by (auto simp: neighbours_in_line_def)
next
  case (Suc n)
  let ?f = "fold (\<lambda>i adj. connect i (i + 1) adj) [0..<n] adj"
  have sq: "square N ?f" using Suc by simp
  have "at2 (connect n (n + 1) ?f) a b = (at2 adj a b \<or> (neighbours_in_line a b \<and> a \<le> Suc n \<and> b \<le> Suc n))"
    if "a < N" "b < N" for a b
  proof -
    have "at2 ?f a b = (at2 adj a b \<or> (neighbours_in_line a b \<and> a \<le> n \<and> b \<le> n))"
      using Suc that by simp
    moreover have "n < N" "n + 1 < N" using Suc.prems by simp_all
    ultimately show ?thesis
      unfolding at2_connect [OF sq \<open>n < N\<close> \<open>n + 1 < N\<close> that] by (auto simp: neighbours_in_line_def)
  qed
  moreover have "square N (connect n (n + 1) ?f)" using sq by (simp add: connect_def)
  ultimately show ?case by simp
qed

lemma linear_at2:
  assumes "0 < N"
  shows "undirected N (build_linear_routes N (new2D N))"
    and "a < N \<Longrightarrow> b < N \<Longrightarrow> at2 (build_linear_routes N (new2D N)) a b = neighbours_in_line a b"
proof -
  have n: "N - 1 < N" using assms by simp
  note pre = linear_prefix [OF square_new2D n, folded build_linear_routes_def]
  show at: "at2 (build_linear_routes N (new2D N)) a b = neighbours_in_line a b" if "a < N" "b < N" for a b
    using pre that by auto
  show "undirected N (build_linear_routes N (new2D N))"
    unfolding undirected_def using pre at by (auto simp: neighbours_in_line_def)
qed

lemma linear_connected:
  assumes "2 \<le> N"
  shows "connected N (build_linear_routes N (new2D N))"
proof -
  let ?E = "edges (build_linear_routes N (new2D N)) N"
  have e: "(a, b) \<in> ?E" if "a < N" "b < N" "neighbours_in_line a b" for a b
    using that linear_at2(2) [of N a b] assms by (simp add: edges_def)
  have fwd: "(a, a + d + 1) \<in> ?E\<^sup>+ \<and> (a + d + 1, a) \<in> ?E\<^sup>+" if "a + d + 1 < N" for a d
    using that
  proof (induction d)
    case 0
    then have "(a, a + 1) \<in> ?E" "(a + 1, a) \<in> ?E" by (auto intro!: e simp: neighbours_in_line_def)
    then show ?case by auto
  next
    case (Suc d)
    then have "(a + d + 1, a + Suc d + 1) \<in> ?E" "(a + Suc d + 1, a + d + 1) \<in> ?E"
      by (auto intro!: e simp: neighbours_in_line_def)
    with Suc show ?case by (auto intro: trancl_into_trancl trancl_into_trancl2)
  qed
  show ?thesis
    unfolding connected_def
  proof (intro allI impI)
    fix i j
    assume ij: "i < N" "j < N"
    consider "i < j" | "j < i" | "i = j" by linarith
    then show "(i, j) \<in> ?E\<^sup>+"
    proof cases
      case 1
      then show ?thesis using fwd [of i "j - i - 1"] ij by simp
    next
      case 2
      then show ?thesis using fwd [of j "i - j - 1"] ij by simp
    next
      case 3
      define b where "b = (if i = 0 then 1 else i - 1)"
      have "b < N" "neighbours_in_line i b" "neighbours_in_line b i"
        using assms ij by (auto simp: b_def neighbours_in_line_def)
      then have "(i, b) \<in> ?E" "(b, i) \<in> ?E" using e ij by simp_all
      with 3 show ?thesis by (metis r_into_trancl trancl_into_trancl)
    qed
  qed
qed

text \<open>A station of a connected network has a neighbour.\<close>

lemma degree_pos:
  assumes "connected N adj" and "i < N"
  shows "0 < degree N adj i"
proof -
  from assms have "(i, i) \<in> (edges adj N)\<^sup>+" by (simp add: connected_def)
  then obtain j where "(i, j) \<in> edges adj N" by (meson tranclD)
  then have "j \<in> set (filter (at2 adj i) [0..<N])" by (simp add: edges_def)
  then show ?thesis unfolding degree_def by (metis length_greater_0_conv list.distinct(1) list.set_cases)
qed

section \<open>Names of stations\<close>

lemma of_char_letter: "of_char (letter n) = 65 + n mod 26"
proof -
  have "65 + n mod 26 < 256" using mod_less_divisor [of 26 n] by linarith
  then show ?thesis by (simp add: letter_def of_char_of take_bit_eq_mod)
qed

lemma letter_eq: "letter m = letter n \<longleftrightarrow> m mod 26 = n mod 26"
  using of_char_letter [of m] of_char_letter [of n] by (auto simp: letter_def)

lemma letter_not: "of_char c < (65 :: nat) \<Longrightarrow> letter n \<noteq> c"
  using of_char_letter [of n] by auto

lemma nodename_inj:
  assumes "N \<le> 676" and "i < N" and "j < N" and "nodename N i = nodename N j"
  shows "i = j"
proof (cases "N < 26")
  case True
  with assms show ?thesis by (simp add: nodename_def letter_eq)
next
  case False
  with assms have "i mod 26 = j mod 26" "i div 26 mod 26 = j div 26 mod 26"
    by (simp_all add: nodename_def letter_eq)
  moreover have "i div 26 < 26" "j div 26 < 26" using assms by (simp_all add: div_less_iff_less_mult)
  ultimately show ?thesis by (metis div_mult_mod_eq mod_less)
qed

lemma length_nodename: "length (nodename N i) = (if N < 26 then 1 else 2)"
  by (simp add: nodename_def)

lemma nodename_chars: "of_char c < (65 :: nat) \<Longrightarrow> c \<notin> set (nodename N i)"
  using letter_not [of c] by (auto simp: nodename_def)

lemma nodetype_cases:
  "nodetype t i \<in> {''Station'', ''Terminal'', ''Junction'', ''Busport''}"
proof -
  have "(i + t) mod 4 \<in> {0, 1, 2, 3}" by auto
  then show ?thesis by (auto simp: nodetype_def)
qed

definition station_label :: "nat \<Rightarrow> nat \<Rightarrow> nat \<Rightarrow> string" where
  "station_label N t i = nodetype t i @ nodename N i"

lemma station_label_inj:
  assumes "N \<le> 676" and "i < N" and "j < N" and "station_label N t i = station_label N t j"
  shows "i = j"
  using assms nodename_inj [OF assms(1-3)]
  by (simp add: station_label_def length_nodename append_eq_append_conv)

lemma nodetype_field:
  "length (nodetype t i) \<le> 8" "nodetype t i \<noteq> []" "hd (nodetype t i) \<noteq> CHR ''#''"
  "CHR '','' \<notin> set (nodetype t i)" "newline \<notin> set (nodetype t i)" "NUL \<notin> set (nodetype t i)"
  using nodetype_cases [of t i] by (auto simp: newline_def NUL_def)

lemma nodename_field:
  "CHR '','' \<notin> set (nodename N i)" "newline \<notin> set (nodename N i)" "NUL \<notin> set (nodename N i)"
  "length (nodename N i) \<le> 2" "nodename N i \<noteq> []"
  using nodename_chars [of "CHR '',''" N i] nodename_chars [of newline N i] nodename_chars [of NUL N i]
  by (simp_all add: newline_def NUL_def length_nodename) (simp add: nodename_def)

lemma field_append: "field m a \<Longrightarrow> field n b \<Longrightarrow> m + n \<le> k \<Longrightarrow> field k (a @ b)"
  by (auto simp: field_def)

lemma field_nodename: "field 2 (nodename N i)"
  using nodename_field [of N i] by (simp add: field_def)

lemma field_label: "field 60 (station_label N t i)"
  using nodetype_field [of t i] nodename_field [of N i] by (auto simp: field_def station_label_def)

end
