(* ===== verification/Generator.thy ===== *)
theory Generator
  imports Builder
begin

text \<open>
  The files the generators write: their shape, the times in them, that drawing them ends, and that
  the station server reads them back row by row.
\<close>

section \<open>Arithmetic on doubles\<close>

text \<open>Rounding is monotone and leaves the integers of 53 bits alone, as IEEE 754 prescribes.\<close>

definition double_rounding :: "(rat \<Rightarrow> rat) \<Rightarrow> bool" where
  "double_rounding rnd \<longleftrightarrow> (\<forall>a b. a \<le> b \<longrightarrow> rnd a \<le> rnd b) \<and>
     (\<forall>n::int. \<bar>n\<bar> \<le> 2 ^ 53 \<longrightarrow> rnd (of_int n) = of_int n)"

lemma rnd_between:
  assumes "double_rounding rnd" and "of_int a \<le> v" and "v \<le> of_int b"
    and "\<bar>a\<bar> \<le> 2 ^ 53" and "\<bar>b\<bar> \<le> 2 ^ 53"
  shows "of_int a \<le> rnd v \<and> rnd v \<le> of_int b"
  using assms unfolding double_rounding_def by metis

lemma hundredths:
  assumes "double_rounding rnd"
  shows "0 \<le> rnd (of_nat (r mod 40) / 100) \<and> rnd (of_nat (r mod 40) / 100) \<le> 1"
proof -
  have "r mod 40 < 40" by simp
  then have "of_nat (r mod 40) \<le> (40 :: rat)" by (metis less_imp_le_nat of_nat_le_iff of_nat_numeral)
  then show ?thesis
    using rnd_between [OF assms, of 0 "of_nat (r mod 40) / 100" 1] by simp
qed

lemma lon_bounds:
  assumes "double_rounding rnd"
  shows "115 \<le> RANDOM_LON rnd r \<and> RANDOM_LON rnd r \<le> 117"
proof -
  have "115 \<le> rnd (1158 / 10) \<and> rnd (1158 / 10) \<le> 116"
    using rnd_between [OF assms, of 115 "1158 / 10" 116] by simp
  then show ?thesis
    using rnd_between [OF assms, of 115 "rnd (1158 / 10) + rnd (of_nat (r mod 40) / 100)" 117]
      hundredths [OF assms, of r] by (simp add: RANDOM_LON_def)
qed

lemma lat_bounds:
  assumes "double_rounding rnd"
  shows "- 32 \<le> RANDOM_LAT rnd r \<and> RANDOM_LAT rnd r \<le> - 30"
proof -
  have "31 \<le> rnd (319 / 10) \<and> rnd (319 / 10) \<le> 32"
    using rnd_between [OF assms, of 31 "319 / 10" 32] by simp
  then show ?thesis
    using rnd_between [OF assms, of "- 32" "- rnd (319 / 10) + rnd (of_nat (r mod 40) / 100)" "- 30"]
      hundredths [OF assms, of r] by (simp add: RANDOM_LAT_def)
qed

definition job_ok :: "tt_job \<Rightarrow> bool" where
  "job_ok J \<longleftrightarrow> 0 < j_N J \<and> j_tlast J \<le> 1440 \<and>
     (\<forall>i<j_N J. 115 \<le> j_x J ! i \<and> j_x J ! i \<le> 117 \<and> - 32 \<le> j_y J ! i \<and> j_y J ! i \<le> - 30)"

lemma draw_job_ok:
  assumes "double_rounding rnd" and "0 < N" and "hour1 \<le> 24"
  shows "job_ok (draw_job rnd rand hour1 N type0 adj k)"
  using assms lon_bounds [OF assms(1)] lat_bounds [OF assms(1)]
  by (simp add: job_ok_def draw_job_def)

lemma distance_bounds:
  assumes "double_rounding rnd" and "job_ok J" and "i < j_N J" and "j < j_N J"
  shows "0 \<le> distance rnd (j_x J) (j_y J) i j \<and> distance rnd (j_x J) (j_y J) i j \<le> 400"
proof -
  let ?x = "rnd (j_x J ! i - j_x J ! j)" and ?y = "rnd (j_y J ! i - j_y J ! j)"
  have b: "115 \<le> j_x J ! i" "j_x J ! i \<le> 117" "115 \<le> j_x J ! j" "j_x J ! j \<le> 117"
    "- 32 \<le> j_y J ! i" "j_y J ! i \<le> - 30" "- 32 \<le> j_y J ! j" "j_y J ! j \<le> - 30"
    using assms(2-4) by (auto simp: job_ok_def)
  have "- 2 \<le> ?x \<and> ?x \<le> 2" using b rnd_between [OF assms(1), of "- 2" "j_x J ! i - j_x J ! j" 2] by simp
  moreover have "- 2 \<le> ?y \<and> ?y \<le> 2"
    using b rnd_between [OF assms(1), of "- 2" "j_y J ! i - j_y J ! j" 2] by simp
  ultimately have "0 \<le> \<bar>?x\<bar> + \<bar>?y\<bar>" "\<bar>?x\<bar> + \<bar>?y\<bar> \<le> 4" by linarith+
  then have "0 \<le> rnd (\<bar>?x\<bar> + \<bar>?y\<bar>) \<and> rnd (\<bar>?x\<bar> + \<bar>?y\<bar>) \<le> 4"
    using rnd_between [OF assms(1), of 0 "\<bar>?x\<bar> + \<bar>?y\<bar>" 4] by simp
  then show ?thesis
    using rnd_between [OF assms(1), of 0 "rnd (\<bar>?x\<bar> + \<bar>?y\<bar>) * 100" 400] by (simp add: distance_def)
qed

lemma arrival_bounds:
  assumes "double_rounding rnd" and "0 \<le> d" and "d \<le> 400" and "0 \<le> departs" and "departs \<le> 1440" and "skew < 3"
  shows "departs \<le> arrival rnd departs d skew \<and> arrival rnd departs d skew \<le> departs + 402"
proof -
  have "of_int departs \<le> rnd (of_int departs + d) \<and> rnd (of_int departs + d) \<le> of_int (departs + 400)"
    using assms by (intro rnd_between) auto
  moreover have "(of_nat skew :: rat) \<le> 2"
    using assms(6) by (metis less_Suc_eq_le numeral_2_eq_2 numeral_3_eq_3 of_nat_le_iff of_nat_numeral)
  ultimately have "of_int departs \<le> rnd (rnd (of_int departs + d) + of_nat skew) \<and>
      rnd (rnd (of_int departs + d) + of_nat skew) \<le> of_int (departs + 402)"
    using assms by (intro rnd_between) auto
  then show ?thesis by (simp add: arrival_def le_floor_iff floor_le_iff)
qed

text \<open>An arrival by its parts: when the bus is expected, and the delay that was drawn.\<close>

lemma arrival_expected:
  assumes "double_rounding rnd" and "0 \<le> d" and "d \<le> 400" and "0 \<le> departs" and "departs \<le> 1440" and "skew < 3"
  shows "\<lfloor>of_int departs + d\<rfloor> \<le> arrival rnd departs d skew \<and>
    arrival rnd departs d skew \<le> \<lfloor>of_int departs + d\<rfloor> + 1 + int skew"
proof -
  let ?e = "\<lfloor>of_int departs + d\<rfloor>"
  have e: "0 \<le> ?e" "?e \<le> 1840" using assms(2-5) by linarith+
  have "of_int ?e \<le> rnd (of_int departs + d) \<and> rnd (of_int departs + d) \<le> of_int (?e + 1)"
    using e by (intro rnd_between [OF assms(1)]) (simp_all, linarith+)
  then have "of_int ?e \<le> rnd (rnd (of_int departs + d) + of_nat skew) \<and>
      rnd (rnd (of_int departs + d) + of_nat skew) \<le> of_int (?e + 1 + int skew)"
    using e assms(6) by (intro rnd_between [OF assms(1)]) auto
  then show ?thesis by (simp add: arrival_def le_floor_iff floor_le_iff)
qed

section \<open>The texts\<close>

lemma dec_digit: "0 \<le> n \<Longrightarrow> n < 10 \<Longrightarrow> length (dec n) \<le> 1"
  using length_dec [of n 1] by simp

lemma dec_field: "0 \<le> n \<Longrightarrow> n < 10 ^ k \<Longrightarrow> 0 < k \<Longrightarrow> field k (dec n)"
proof -
  assume n: "0 \<le> n" "n < 10 ^ k" "0 < k"
  have "\<not> isdigit CHR '',''" "\<not> isdigit newline" "\<not> isdigit NUL"
    by (simp_all add: isdigit_iff newline_def NUL_def)
  then have "CHR '','' \<notin> set (dec n)" "newline \<notin> set (dec n)" "NUL \<notin> set (dec n)"
    using dec_digits_or_sign [of _ n] by (auto simp: newline_def NUL_def)
  with length_dec [OF n] show ?thesis by (simp add: field_def)
qed

lemma fmt_4f_field:
  assumes "\<bar>v\<bar> \<le> 999"
  shows "field 10 (fmt_4f v)"
proof -
  define n where "n = \<lfloor>\<bar>v\<bar> * 10000 + 1 / 2\<rfloor>"
  have n: "0 \<le> n" "n \<le> 9990000" using assms by (simp_all add: n_def floor_le_iff)
  have d3: "field 3 (dec (n div 10000))" using n by (intro dec_field) auto
  have d1: "field 1 (dec m)" if "0 \<le> m" "m < 10" for m using that by (intro dec_field) auto
  have ds: "field 1 (dec (n mod 10000 div 1000))" "field 1 (dec (n mod 10000 div 100 mod 10))"
    "field 1 (dec (n mod 10000 div 10 mod 10))" "field 1 (dec (n mod 10000 mod 10))"
    by (rule d1; simp)+
  have dot: "field 1 ''.''" by (simp add: field_def newline_def NUL_def)
  have body: "field 8 (dec (n div 10000) @ ''.'' @ dec (n mod 10000 div 1000) @
      dec (n mod 10000 div 100 mod 10) @ dec (n mod 10000 div 10 mod 10) @ dec (n mod 10000 mod 10))"
    by (rule field_append [OF d3 field_append [OF dot field_append [OF ds(1)
          field_append [OF ds(2) field_append [OF ds(3,4), of 2], of 3], of 4], of 5]]) simp_all
  show ?thesis
  proof (cases "v < 0")
    case True
    have "field 1 ''-''" by (simp add: field_def newline_def NUL_def)
    from field_append [OF this body, of 10] True show ?thesis
      by (simp add: fmt_4f_def Let_def n_def)
  next
    case False
    with body show ?thesis by (simp add: fmt_4f_def Let_def n_def field_def)
  qed
qed

lemma dec02_field: "0 \<le> n \<Longrightarrow> n < 100 \<Longrightarrow> field 2 (dec02 n)"
proof -
  assume n: "0 \<le> n" "n < 100"
  have "length (dec02 n) \<le> 2"
    using n length_dec [of n 1] length_dec [of n 2] by (simp add: dec02_def)
  moreover have "\<not> isdigit CHR '',''" "\<not> isdigit newline" "\<not> isdigit NUL"
    by (simp_all add: isdigit_iff newline_def NUL_def)
  then have "CHR '','' \<notin> set (dec02 n)" "newline \<notin> set (dec02 n)" "NUL \<notin> set (dec02 n)"
    using dec02_digits [OF n(1)] by blast+
  ultimately show ?thesis by (simp add: field_def)
qed

lemma clock_field:
  assumes "0 \<le> m" and "m < 6000"
  shows "field 5 (clock m)"
proof -
  have h: "field 2 (dec02 (m div 60))" and mm: "field 2 (dec02 (m mod 60))"
    using assms by (auto intro!: dec02_field)
  have "field 1 '':''" by (simp add: field_def newline_def NUL_def)
  from field_append [OF h field_append [OF this mm, of 3], of 5] show ?thesis by (simp add: clock_def)
qed

section \<open>Rows\<close>

text \<open>A departure: the neighbour it goes to, when it leaves and when it arrives.\<close>

type_synonym trip = "nat \<times> int \<times> int"

definition trip_entry :: "tt_job \<Rightarrow> nat \<Rightarrow> trip \<Rightarrow> entry" where
  "trip_entry J i t =
     (case t of (j, departs, arrives) \<Rightarrow>
        \<lparr>e_departure = clock departs, e_route = ''bus'' @ nodename (j_N J) i @ ''_'' @ nodename (j_N J) j,
         e_from = ''stop'' @ nodename (j_N J) i, e_arrival = clock arrives,
         e_to = station_label (j_N J) (j_type0 J) j\<rparr>)"

lemma tt_row_text_entry:
  "tt_row_text (nodename (j_N J) i) (nodename (j_N J) j) (nodetype (j_type0 J) j) departs arrives =
     entry_line (trip_entry J i (j, departs, arrives)) @ [newline]"
  by (simp add: tt_row_text_def entry_line_def trip_entry_def clock_def station_label_def)

definition rows_text :: "tt_job \<Rightarrow> nat \<Rightarrow> trip list \<Rightarrow> string" where
  "rows_text J i ts = concat (map (\<lambda>t. entry_line (trip_entry J i t) @ [newline]) ts)"

text \<open>Each trip goes to a neighbour within the hours of service, the departures increase, and no trip is
  overtaken by a later one to the same station.\<close>

definition trips_ok :: "tt_job \<Rightarrow> nat \<Rightarrow> int \<Rightarrow> trip list \<Rightarrow> bool" where
  "trips_ok J i first ts \<longleftrightarrow> sorted_wrt (\<lambda>(j, d, a) (j', d', a'). d < d' \<and> (j = j' \<longrightarrow> a \<le> a')) ts \<and>
     (\<forall>(j, d, a)\<in>set ts. j < j_N J \<and> at2 (j_adj J) i j \<and> first \<le> d \<and> d < j_tlast J \<and> d \<le> a \<and> a \<le> d + 402)"

lemma trips_ok_Nil [simp]: "trips_ok J i first []"
  by (simp add: trips_ok_def)

lemma trips_ok_Cons:
  assumes "j < j_N J" and "at2 (j_adj J) i j" and "d < j_tlast J" and "d \<le> a" and "a \<le> d + 402"
    and "d < next" and "trips_ok J i next ts" and "\<forall>(j', d', a')\<in>set ts. j = j' \<longrightarrow> a \<le> a'"
  shows "trips_ok J i d ((j, d, a) # ts)"
  using assms unfolding trips_ok_def by fastforce

lemma trip_entry_wf:
  assumes "job_ok J" and "trips_ok J i first ts" and "0 \<le> first" and "t \<in> set ts"
  shows "wf_entry (trip_entry J i t)"
proof -
  obtain j d a where t: "t = (j, d, a)" by (cases t)
  have "0 \<le> d" "d < 1440" "d \<le> a" "a \<le> d + 402"
    using assms unfolding t trips_ok_def job_ok_def by fastforce+
  then have c: "field 5 (clock d)" "field 5 (clock a)" by (auto intro!: clock_field)
  have b: "field 3 ''bus''" "field 1 ''_''" "field 4 ''stop''"
    by (simp_all add: field_def newline_def NUL_def)
  have r: "field 60 (''bus'' @ nodename (j_N J) i @ ''_'' @ nodename (j_N J) j)"
    by (rule field_append [OF b(1) field_append [OF field_nodename field_append [OF b(2) field_nodename,
            of 3], of 5]]) simp_all
  have f: "field 60 (''stop'' @ nodename (j_N J) i)"
    by (rule field_append [OF b(3) field_nodename]) simp
  have "isdigit (hd (clock d))"
    using dec02_digits [of "d div 60" "hd (clock d)"] \<open>0 \<le> d\<close> by (simp add: clock_def)
  then have "hd (clock d) \<noteq> CHR ''#''" by (auto simp: isdigit_iff)
  with c r f field_label show ?thesis by (simp add: wf_entry_def trip_entry_def t)
qed

section \<open>Drawing the departures\<close>

text \<open>A day that is long enough has a departure, or two.\<close>

definition enough :: "tt_job \<Rightarrow> int \<Rightarrow> int \<Rightarrow> trip list \<Rightarrow> bool" where
  "enough J tdelta departs ts \<longleftrightarrow> (departs < j_tlast J \<longrightarrow> ts \<noteq> []) \<and>
     (departs + tdelta + 8 < j_tlast J \<longrightarrow> 2 \<le> length ts)"

text \<open>No trip arrives before it is expected.\<close>

definition expected :: "(rat \<Rightarrow> rat) \<Rightarrow> tt_job \<Rightarrow> nat \<Rightarrow> trip list \<Rightarrow> bool" where
  "expected rnd J i ts \<longleftrightarrow>
     (\<forall>(j, d, a)\<in>set ts. \<lfloor>of_int d + distance rnd (j_x J) (j_y J) i j\<rfloor> \<le> a)"

text \<open>The next bus leaves so much later that it cannot arrive first.\<close>

lemma not_overtaken:
  assumes "expected rnd J i ts" and "trips_ok J i next ts" and "departs + int skew + 2 \<le> next"
    and "a \<le> \<lfloor>of_int departs + distance rnd (j_x J) (j_y J) i j\<rfloor> + 1 + int skew"
  shows "\<forall>(j', d', a')\<in>set ts. j = j' \<longrightarrow> a \<le> a'"
proof (intro ballI, clarify)
  fix d' a'
  let ?d = "distance rnd (j_x J) (j_y J) i j"
  assume t: "(j, d', a') \<in> set ts"
  have "\<lfloor>of_int d' + ?d\<rfloor> \<le> a'" "next \<le> d'" using assms(1,2) t by (auto simp: expected_def trips_ok_def)
  moreover from this have "of_int (departs + int skew + 2) + ?d \<le> of_int d' + ?d" using assms(3) by (simp flip: of_int_add)
  then have "\<lfloor>of_int departs + ?d\<rfloor> + (int skew + 2) \<le> \<lfloor>of_int d' + ?d\<rfloor>"
    by linarith
  ultimately show "a \<le> a'" using assms(4) by simp
qed

lemma departures_result:
  assumes "departures rnd rand J i tdelta departs k out = Some r" and "double_rounding rnd"
    and "job_ok J" and "i < j_N J" and "0 \<le> tdelta" and "0 \<le> departs"
  shows "\<exists>ts. fst r = out @ rows_text J i ts \<and> trips_ok J i departs ts \<and> enough J tdelta departs ts \<and> expected rnd J i ts"
proof -
  let ?P = "\<lambda>rnd rand J i tdelta departs k out r. double_rounding rnd \<longrightarrow> job_ok J \<longrightarrow> i < j_N J \<longrightarrow>
    0 \<le> tdelta \<longrightarrow> 0 \<le> departs \<longrightarrow> 
    (\<exists>ts. fst r = out @ rows_text J i ts \<and> trips_ok J i departs ts \<and> enough J tdelta departs ts \<and>
      expected rnd J i ts)"
  have "?P rnd rand J i tdelta departs k out r"
  proof (rule departures.raw_induct [where P = ?P, OF _ assms(1)], intro impI)
    fix dep rnd rand J i tdelta departs k out r
    assume IH: "\<And>rnd rand J i tdelta departs k out r.
        dep rnd rand J i tdelta departs k out = Some r \<Longrightarrow> ?P rnd rand J i tdelta departs k out r"
      and body: "(if departs < j_tlast J then
          (let j = rand k mod j_N J in
           if at2 (j_adj J) i j then
             (let skew = rand (k + 1) mod 3;
                  arrives = arrival rnd departs (distance rnd (j_x J) (j_y J) i j) skew
              in dep rnd rand J i tdelta (departs + tdelta + int skew + int (rand (k + 2) mod 5) + 2)
                   (k + 3) (out @ tt_row_text (nodename (j_N J) i) (nodename (j_N J) j)
                      (nodetype (j_type0 J) j) departs arrives))
           else dep rnd rand J i tdelta departs (k + 1) out)
        else Some (out, k)) = Some r"
      and ok: "double_rounding rnd" "job_ok J" "i < j_N J" "0 \<le> tdelta" "0 \<le> departs"
    let ?j = "rand k mod j_N J" and ?skew = "rand (k + 1) mod 3"
    let ?a = "arrival rnd departs (distance rnd (j_x J) (j_y J) i ?j) ?skew"
      and ?next = "departs + tdelta + int ?skew + int (rand (k + 2) mod 5) + 2"
    have j: "?j < j_N J" using ok(3) by simp
    consider (stop) "\<not> departs < j_tlast J" | (skip) "departs < j_tlast J" "\<not> at2 (j_adj J) i ?j"
      | (go) "departs < j_tlast J" "at2 (j_adj J) i ?j" by blast
    then show "\<exists>ts. fst r = out @ rows_text J i ts \<and> trips_ok J i departs ts \<and> enough J tdelta departs ts \<and>
        expected rnd J i ts"
    proof cases
      case stop
      with body have "r = (out, k)" by simp
      with stop ok(4) show ?thesis by (intro exI [of _ "[]"]) (simp add: rows_text_def enough_def expected_def)
    next
      case skip
      with body have "dep rnd rand J i tdelta departs (k + 1) out = Some r" by (simp add: Let_def)
      from IH [OF this] ok show ?thesis by blast
    next
      case go
      with body have "dep rnd rand J i tdelta ?next (k + 3)
          (out @ entry_line (trip_entry J i (?j, departs, ?a)) @ [newline]) = Some r"
        by (simp add: Let_def tt_row_text_entry)
      from IH [OF this] ok obtain ts where ts: "fst r =
          (out @ entry_line (trip_entry J i (?j, departs, ?a)) @ [newline]) @ rows_text J i ts"
        "trips_ok J i ?next ts" "enough J tdelta ?next ts" "expected rnd J i ts" by auto
      have "departs \<le> 1440" using go(1) ok(2) by (simp add: job_ok_def)
      then have "departs \<le> ?a \<and> ?a \<le> departs + 402"
        using distance_bounds [OF ok(1-3) j] ok(1,5) by (intro arrival_bounds) auto
      moreover have e: "\<lfloor>of_int departs + distance rnd (j_x J) (j_y J) i ?j\<rfloor> \<le> ?a"
        "?a \<le> \<lfloor>of_int departs + distance rnd (j_x J) (j_y J) i ?j\<rfloor> + 1 + int ?skew"
        using distance_bounds [OF ok(1-3) j] \<open>departs \<le> 1440\<close> ok(1,5)
          arrival_expected [of rnd "distance rnd (j_x J) (j_y J) i ?j" departs ?skew] by auto
      have "\<forall>(j', d', a')\<in>set ts. ?j = j' \<longrightarrow> ?a \<le> a'"
        using ok(4) by (intro not_overtaken [OF ts(4,2) _ e(2)]) simp
      ultimately have "trips_ok J i departs ((?j, departs, ?a) # ts)"
        using go j ts(2) ok(4) by (intro trips_ok_Cons [of _ _ _ _ _ ?next]) auto
      moreover have "expected rnd J i ((?j, departs, ?a) # ts)"
        using ts(4) e(1) by (simp add: expected_def)
      moreover have "int ?skew \<le> 2" "int (rand (k + 2) mod 5) \<le> 4" by linarith+
      then have "departs + tdelta + 8 < j_tlast J \<Longrightarrow> ?next < j_tlast J" by linarith
      with ts(3) have "enough J tdelta departs ((?j, departs, ?a) # ts)"
        by (cases ts) (auto simp: enough_def)
      ultimately show ?thesis
        using ts(1) by (intro exI [of _ "(?j, departs, ?a) # ts"]) (simp add: rows_text_def)
    qed
  qed
  with assms(2-6) show ?thesis by blast
qed

text \<open>A neighbour keeps being drawn.\<close>

definition fair_picks :: "(nat \<Rightarrow> nat) \<Rightarrow> nat \<Rightarrow> matrix \<Rightarrow> nat \<Rightarrow> bool" where
  "fair_picks rand N adj i \<longleftrightarrow> (\<forall>k. \<exists>m. at2 adj i (rand (k + m) mod N))"

lemma departures_end:
  assumes "fair_picks rand (j_N J) (j_adj J) i" and "0 \<le> tdelta"
  shows "\<exists>r. departures rnd rand J i tdelta departs k out = Some r"
proof (induction "nat (j_tlast J - departs)" arbitrary: departs k out rule: less_induct)
  case less
  obtain m where "at2 (j_adj J) i (rand (k + m) mod j_N J)"
    using assms(1) by (auto simp: fair_picks_def)
  then show ?case
  proof (induction m arbitrary: k)
    case 0
    show ?case
    proof (cases "departs < j_tlast J")
      case True
      have "\<exists>r. departures rnd rand J i tdelta
          (departs + tdelta + int (rand (k + 1) mod 3) + int (rand (k + 2) mod 5) + 2) k' out' = Some r" for k' out'
        using True assms(2) by (intro less) simp
      with True 0 show ?thesis by (subst departures.simps) (simp add: Let_def)
    next
      case False
      then show ?thesis by (subst departures.simps) simp
    qed
  next
    case (Suc m)
    show ?case
    proof (cases "departs < j_tlast J \<and> \<not> at2 (j_adj J) i (rand k mod j_N J)")
      case True
      with Suc.IH [of "k + 1"] Suc.prems show ?thesis by (subst departures.simps) (simp add: Let_def)
    next
      case False
      have "\<exists>r. departures rnd rand J i tdelta
          (departs + tdelta + int (rand (k + 1) mod 3) + int (rand (k + 2) mod 5) + 2) k' out' = Some r"
        if "departs < j_tlast J" for k' out'
        using that assms(2) by (intro less) simp
      with False show ?thesis by (subst departures.simps) (auto simp: Let_def)
    qed
  qed
qed

section \<open>Files\<close>

text \<open>The station a file is about.\<close>

definition job_station :: "tt_job \<Rightarrow> nat \<Rightarrow> station" where
  "job_station J i = \<lparr>station_name = station_label (j_N J) (j_type0 J) i,
     longitude = fmt_4f (j_x J ! i), latitude = fmt_4f (j_y J ! i)\<rparr>"

lemma job_station_wf:
  assumes "job_ok J" and "i < j_N J"
  shows "wf_station (job_station J i)"
proof -
  have "\<bar>j_x J ! i\<bar> \<le> 999" "\<bar>j_y J ! i\<bar> \<le> 999"
    using assms by (auto simp: job_ok_def abs_le_iff)
  moreover have "hd (station_label (j_N J) (j_type0 J) i) \<noteq> CHR ''#''"
    using nodetype_field [of "j_type0 J" i] by (simp add: station_label_def)
  ultimately show ?thesis by (simp add: wf_station_def job_station_def fmt_4f_field field_label)
qed

definition comment1 :: string where "comment1 = '' station-name,longitude,latitude''"

definition comment2 :: string where
  "comment2 = '' departure-time,route-name,departing-from,arrival-time,arrival-station''"

lemma comments_ok: "comment_ok comment1" "comment_ok comment2"
  by (simp_all add: comment_ok_def comment1_def comment2_def newline_def NUL_def)

lemma header_text:
  "station_header J i @ rows_text J i ts =
     file_text comment1 (job_station J i) comment2 (map (trip_entry J i) ts)"
  by (simp add: station_header_def file_text_def station_line_def job_station_def station_label_def
      comment1_def comment2_def rows_text_def comp_def)

text \<open>The text of a timetable file of station \<open>i\<close> with the trips \<open>ts\<close>, which the station server reads back.\<close>

definition timetable_of :: "tt_job \<Rightarrow> int \<Rightarrow> nat \<Rightarrow> string \<Rightarrow> bool" where
  "timetable_of J hour0 i text \<longleftrightarrow>
     (\<exists>ts. text = file_text comment1 (job_station J i) comment2 (map (trip_entry J i) ts) \<and>
       2 \<le> length ts \<and> trips_ok J i (hour0 * 60) ts)"

lemma trips_later: "trips_ok J i first ts \<Longrightarrow> first' \<le> first \<Longrightarrow> trips_ok J i first' ts"
  by (fastforce simp: trips_ok_def)

lemma build_timetable_ok:
  assumes "double_rounding rnd" and "job_ok J" and "i < j_N J" and "0 \<le> hour0"
    and "0 < degree (j_N J) (j_adj J) i" and "fair_picks rand (j_N J) (j_adj J) i"
    and "hour0 * 60 + int (j_N J) + 68 < j_tlast J"
  shows "\<exists>text k'. build_timetable rnd rand hour0 J i k = Some (Inr (text, k')) \<and> timetable_of J hour0 i text"
proof -
  let ?nn = "int (degree (j_N J) (j_adj J) i)"
  have td: "0 \<le> 60 div ?nn" using assms(5) by (simp add: pos_imp_zdiv_nonneg_iff)
  obtain r where r: "departures rnd rand J i (60 div ?nn) (hour0 * 60 + ?nn) k (station_header J i) = Some r"
    using departures_end [OF assms(6) td] by blast
  have "?nn \<le> int (j_N J)"
    using length_filter_le [of "at2 (j_adj J) i" "[0..<j_N J]"] by (simp add: degree_def)
  moreover have "60 div ?nn \<le> 60" using zdiv_mono2 [of 60 1 ?nn] assms(5) by simp
  ultimately have "hour0 * 60 + ?nn + 60 div ?nn + 8 < j_tlast J" using assms(7) by simp
  then obtain ts where ts: "fst r = station_header J i @ rows_text J i ts" "trips_ok J i (hour0 * 60 + ?nn) ts" "2 \<le> length ts"
    using departures_result [OF r assms(1-3) td] assms(4) by (auto simp: enough_def)
  have "build_timetable rnd rand hour0 J i k = Some (Inr r)"
    using assms(5) r by (simp add: build_timetable_def Let_def)
  moreover have "timetable_of J hour0 i (fst r)"
    unfolding timetable_of_def using ts trips_later [OF ts(2), of "hour0 * 60"]
    by (intro exI [of _ ts]) (simp add: header_text)
  ultimately show ?thesis by (cases r) auto
qed

definition file_name :: "tt_job \<Rightarrow> nat \<Rightarrow> string" where
  "file_name J i = ''tt-'' @ station_label (j_N J) (j_type0 J) i"

lemma build_files_ok:
  assumes "double_rounding rnd" and "job_ok J" and "0 \<le> hour0"
    and "\<And>i. i < j_N J \<Longrightarrow> 0 < degree (j_N J) (j_adj J) i \<and> fair_picks rand (j_N J) (j_adj J) i"
    and "hour0 * 60 + int (j_N J) + 68 < j_tlast J"
  shows "\<forall>i\<in>set js. i < j_N J \<Longrightarrow> \<exists>fs k'. build_files rnd rand (\<lambda>_. True) hour0 J js k = Some (Inr (fs, k')) \<and>
    list_all2 (\<lambda>i f. fst f = file_name J i \<and> timetable_of J hour0 i (snd f)) js fs"
proof (induction js arbitrary: k)
  case (Cons i js)
  obtain t k1 where one: "build_timetable rnd rand hour0 J i k = Some (Inr (t, k1))"
    "timetable_of J hour0 i t"
    using build_timetable_ok [OF assms(1,2) _ assms(3) _ _ assms(5)] assms(4) Cons.prems by (meson list.set_intros(1))
  obtain fs k2 where rest: "build_files rnd rand (\<lambda>_. True) hour0 J js k1 = Some (Inr (fs, k2))"
    "list_all2 (\<lambda>i f. fst f = file_name J i \<and> timetable_of J hour0 i (snd f)) js fs"
    using Cons.IH [of k1] Cons.prems by auto
  show ?case
    using one rest
    by (intro exI [of _ "(file_name J i, t) # fs"] exI [of _ k2])
       (simp add: Let_def create_file_def file_name_def station_label_def)
qed simp

section \<open>Fair sequences\<close>

text \<open>In a connected network, pairs that keep being drawn give every station its neighbours.\<close>

lemma fair_pairs_picks:
  assumes "fair_pairs rand N k0" and "2 \<le> N" and "j < N"
  shows "\<exists>m. rand (k + m) mod N = j"
proof -
  obtain i where "i < N" "i \<noteq> j" using assms(2) by (metis One_nat_def Suc_1 Suc_le_lessD less_trans neq0_conv zero_less_one not_less_eq less_one)
  with assms(1,3) obtain m where m: "k \<le> m" "rand (k0 + 2 * m + 1) mod N = j" unfolding fair_pairs_def by metis
  have "k0 + 2 * m + 1 = k + (k0 + 2 * m + 1 - k)" using m(1) by simp
  with m(2) show ?thesis by metis
qed

lemma connected_fair:
  assumes "fair_pairs rand N k0" and "2 \<le> N" and "connected N adj" and "i < N"
  shows "0 < degree N adj i \<and> fair_picks rand N adj i"
proof
  show "0 < degree N adj i" by (rule degree_pos [OF assms(3,4)])
  then obtain j where j: "j < N" "at2 adj i j"
    unfolding degree_def by (metis (no_types, lifting) length_greater_0_conv filter_False atLeastLessThan_iff atLeastLessThan_upt)
  then show "fair_picks rand N adj i"
    using fair_pairs_picks [OF assms(1,2) j(1)] by (metis fair_picks_def)
qed

text \<open>A network's files: one readable timetable per station, under distinct names, and the adjacency file.\<close>

definition network_files ::
  "(rat \<Rightarrow> rat) \<Rightarrow> (nat \<Rightarrow> nat) \<Rightarrow> int \<Rightarrow> int \<Rightarrow> nat \<Rightarrow> nat \<Rightarrow> matrix \<Rightarrow> nat \<Rightarrow> (string \<times> string) list \<Rightarrow> bool" where
  "network_files rnd rand hour0 hour1 N type0 adj k files \<longleftrightarrow>
     (\<exists>fs. files = fs @ [(''adjacency'', print_adjacency N type0 adj)] \<and> distinct (map fst files) \<and>
       list_all2 (\<lambda>i f. fst f = ''tt-'' @ station_label N type0 i \<and>
          timetable_of (draw_job rnd rand hour1 N type0 adj k) hour0 i (snd f)) [0..<N] fs)"

lemma write_network_ok:
  assumes "double_rounding rnd" and "2 \<le> N" and "N \<le> 676" and "0 \<le> hour0" and "hour1 \<le> 24"
    and "fair_pairs rand N k0" and "connected N adj" and "744 < (hour1 - hour0) * 60"
  shows "\<exists>files. write_network (\<lambda>_. True) N type0 adj
      (build_timetables rnd rand (\<lambda>_. True) hour0 hour1 N type0 adj k) = Some (Inr files) \<and>
    network_files rnd rand hour0 hour1 N type0 adj k files"
proof -
  let ?J = "draw_job rnd rand hour1 N type0 adj k"
  have J: "j_N ?J = N" "j_adj ?J = adj" "j_type0 ?J = type0" by (simp_all add: draw_job_def)
  have ok: "job_ok ?J" using assms(1,2,5) by (intro draw_job_ok) auto
  have last: "hour0 * 60 + int (j_N ?J) + 68 < j_tlast ?J" using assms(3,8) by (simp add: draw_job_def)
  obtain fs k' where fs: "build_files rnd rand (\<lambda>_. True) hour0 ?J [0..<N] (k + 2 * N) = Some (Inr (fs, k'))"
    "list_all2 (\<lambda>i f. fst f = file_name ?J i \<and> timetable_of ?J hour0 i (snd f)) [0..<N] fs"
    using build_files_ok [where js = "[0..<N]" and rand = rand and k = "k + 2 * N", OF assms(1) ok assms(4) _ last]
      connected_fair [OF assms(6,2,7)] by (auto simp: J)
  have names: "map fst fs = map (\<lambda>i. ''tt-'' @ station_label N type0 i) [0..<N]"
    using fs(2) by (intro nth_equalityI) (auto simp: list_all2_conv_all_nth file_name_def J)
  have "inj_on (\<lambda>i. ''tt-'' @ station_label N type0 i) {0..<N}"
    using station_label_inj [OF assms(3)] by (auto intro: inj_onI)
  then have "distinct (map fst fs)" by (simp add: names distinct_map)
  moreover have "''adjacency'' \<notin> set (map fst fs)" by (auto simp: names)
  ultimately show ?thesis
    using fs
    by (auto simp: write_network_def create_file_def build_timetables_def network_files_def file_name_def J)
qed

section \<open>Reading the files back\<close>

lemma timetable_of_readable:
  assumes "timetable_of J hour0 i txt" and "job_ok J" and "i < j_N J" and "0 \<le> hour0"
  shows "\<exists>ts tt'. 2 \<le> length ts \<and> trips_ok J i (hour0 * 60) ts \<and> shows_table tt' (map (trip_entry J i) ts) \<and>
    readtimetable (Some txt) st0 tt = Inr (int (length ts), job_station J i, tt')"
proof -
  obtain ts where ts: "txt = file_text comment1 (job_station J i) comment2 (map (trip_entry J i) ts)"
    "trips_ok J i (hour0 * 60) ts" "2 \<le> length ts" using assms(1) by (auto simp: timetable_of_def)
  have "list_all wf_entry (map (trip_entry J i) ts)"
    using trip_entry_wf [OF assms(2) ts(2)] assms(4) by (simp add: list_all_iff)
  from read_file_text [OF job_station_wf [OF assms(2,3)] this comments_ok, of st0 tt] ts
  show ?thesis by auto
qed

lemma network_files_readable:
  assumes "network_files rnd rand hour0 hour1 N type0 adj k files" and "double_rounding rnd"
    and "i < N" and "0 \<le> hour0" and "hour1 \<le> 24"
  shows "\<exists>txt ts tt'. files ! i = (''tt-'' @ station_label N type0 i, txt) \<and>
    readtimetable (Some txt) st0 tt = Inr (int (length ts), job_station (draw_job rnd rand hour1 N type0 adj k) i, tt') \<and>
    shows_table tt' (map (trip_entry (draw_job rnd rand hour1 N type0 adj k) i) ts) \<and>
    2 \<le> length ts \<and> trips_ok (draw_job rnd rand hour1 N type0 adj k) i (hour0 * 60) ts"
proof -
  let ?J = "draw_job rnd rand hour1 N type0 adj k"
  obtain fs where fs: "files = fs @ [(''adjacency'', print_adjacency N type0 adj)]"
    "list_all2 (\<lambda>i f. fst f = ''tt-'' @ station_label N type0 i \<and> timetable_of ?J hour0 i (snd f)) [0..<N] fs"
    using assms(1) by (auto simp: network_files_def)
  then have len: "length fs = N" and f: "fst (fs ! i) = ''tt-'' @ station_label N type0 i"
    "timetable_of ?J hour0 i (snd (fs ! i))"
    using assms(3) by (auto simp: list_all2_conv_all_nth)
  have "job_ok ?J" using assms(2,3,5) by (intro draw_job_ok) auto
  from timetable_of_readable [OF f(2) this, of st0 tt] assms(3,4) f(1) fs(1) len
  show ?thesis by (cases "fs ! i") (auto simp: nth_append draw_job_def)
qed

text \<open>What a run of \<open>buildrandomtimetables\<close> leaves behind.\<close>

lemma main_random_result:
  assumes "double_rounding rnd" and "2 \<le> N" and "N \<le> 676" and "atoi arg = int N"
    and "fair_pairs rand N 1"
  shows "\<exists>adj k files. main_random rnd rand (\<lambda>_. True) [prog, arg] = Some (Inr files) \<and>
    build_routes rand N 1 (new2D N) (new2D N) = Some (adj, k) \<and>
    connected N adj \<and> undirected N adj \<and> network_files rnd rand 6 21 N (rand 0 mod 10) adj k files"
proof -
  let ?t = "rand 0 mod 10"
  obtain adj k where r: "build_routes rand N 1 (new2D N) (new2D N) = Some (adj, k)"
    using build_routes_ends [OF assms(2) square_new2D undirected_new2D assms(5)] by auto
  have c: "connected N adj" and u: "undirected N adj"
    using build_routes_result [OF r _ square_new2D undirected_new2D] assms(2) by auto
  obtain files where files: "write_network (\<lambda>_. True) N ?t adj (build_timetables rnd rand (\<lambda>_. True) 6 21 N ?t adj k) = Some (Inr files)"
    "network_files rnd rand 6 21 N ?t adj k files"
    using write_network_ok [OF assms(1-3) _ _ assms(5) c, of 6 21 ?t k] by auto
  have "main_random rnd rand (\<lambda>_. True) [prog, arg] = Some (Inr files)"
    using assms(2-4) r files(1) by (simp add: main_random_def build_timetables_random_def MIN_NODES_def MAX_NODES_def Let_def)
  with r c u files(2) show ?thesis by blast
qed

section \<open>Properties\<close>

text \<open>C20. Warshall's algorithm, as written with its in-place update, computes the transitive closure of
  the network in \<open>w\<close>, whatever \<open>w\<close> held before, and returns true exactly when every station can
  reach every station (itself included) along at least one edge.\<close>

theorem Warshall_correct:
  assumes "square N w"
  shows "(fst (Warshall adj N w) \<longleftrightarrow> (\<forall>i<N. \<forall>j<N. (i, j) \<in> {(a, b). a < N \<and> b < N \<and> at2 adj a b}\<^sup>+)) \<and>
    (\<forall>i<N. \<forall>j<N. at2 (snd (Warshall adj N w)) i j \<longleftrightarrow> (i, j) \<in> {(a, b). a < N \<and> b < N \<and> at2 adj a b}\<^sup>+)"
  using Warshall_result(2) [OF assms, of adj] Warshall_closure [OF assms, of _ _ adj]
  by (simp add: edges_def)

theorem Warshall_correct_witness:
  "(0, 2) \<in> {(a, b). a < 3 \<and> b < 3 \<and> at2 [[False, True, False], [True, False, True], [False, True, False]] a b}\<^sup>+"
proof -
  let ?a = "[[False, True, False], [True, False, True], [False, True, False]]"
  have "square 3 (new2D 3)" by simp
  from Warshall_correct [OF this, of ?a]
  have "at2 (snd (Warshall ?a 3 (new2D 3))) 0 2 \<longleftrightarrow> (0, 2) \<in> {(a, b). a < 3 \<and> b < 3 \<and> at2 ?a a b}\<^sup>+"
    by simp
  moreover have "at2 (snd (Warshall ?a 3 (new2D 3))) 0 2" by code_simp
  ultimately show ?thesis by blast
qed

text \<open>C21. Drawing a random network ends, if the values of \<open>rand()\<close> keep hitting every pair of
  stations, and the network is then connected, its links are mutual and no station is linked to
  itself.\<close>

theorem build_routes_connected:
  assumes "2 \<le> N" and "fair_pairs rand N k" and "square N w"
  shows "\<exists>adj k'. build_routes rand N k (new2D N) w = Some (adj, k') \<and>
    (\<forall>i<N. \<forall>j<N. at2 adj i j = at2 adj j i) \<and> (\<forall>i<N. \<not> at2 adj i i) \<and>
    (\<forall>i<N. \<forall>j<N. (i, j) \<in> {(a, b). a < N \<and> b < N \<and> at2 adj a b}\<^sup>+)"
proof -
  obtain adj k' where r: "build_routes rand N k (new2D N) w = Some (adj, k')"
    using build_routes_ends [OF assms(1,3) undirected_new2D assms(2)] by auto
  from build_routes_result [OF r _ assms(3) undirected_new2D] assms(1) r show ?thesis
    by (auto simp: undirected_def connected_def edges_def)
qed

definition demo_rand :: "nat \<Rightarrow> nat" where
  "demo_rand n = ((n + 1) div 2 + (n + 1) mod 2) mod 2"

lemma demo_rand_values: "demo_rand (1 + 2 * m) = (m + 1) mod 2" "demo_rand (1 + 2 * m + 1) = m mod 2"
  by (simp_all add: demo_rand_def)

lemma demo_fair: "fair_pairs demo_rand 2 1"
proof -
  have "\<exists>m\<ge>n. demo_rand (1 + 2 * m) mod 2 = i \<and> demo_rand (1 + 2 * m + 1) mod 2 = j"
    if "i < 2" "j < 2" "i \<noteq> j" for i j n
    unfolding demo_rand_values using that by (intro exI [of _ "2 * n + j"]) (auto; presburger)
  then show ?thesis by (simp only: fair_pairs_def) blast
qed

theorem build_routes_connected_witness:
  "\<exists>adj k'. build_routes demo_rand 2 1 (new2D 2) (new2D 2) = Some (adj, k') \<and>
    (0, 0) \<in> {(a, b). a < 2 \<and> b < 2 \<and> at2 adj a b}\<^sup>+"
  using build_routes_connected [OF _ demo_fair square_new2D] by fastforce

text \<open>C22. The random generator, end to end: for 2 to 676 stations and a fair sequence it ends and
  writes one timetable per station, under distinct names, and the adjacency file. The station
  server reads each timetable back in full: the station's name and position, and every row (there are
  at least two), which goes to a neighbour, leaves between 6:00 and 21:00, after the row before it, and
  arrives no earlier than it leaves and no earlier than the rows before it to the same neighbour.\<close>

theorem main_random_readable:
  assumes "double_rounding rnd" and "2 \<le> N" and "N \<le> 676" and "atoi arg = int N"
    and "fair_pairs rand N 1"
  shows "\<exists>adj k files. main_random rnd rand (\<lambda>_. True) [prog, arg] = Some (Inr files) \<and>
    connected N adj \<and> distinct (map fst files) \<and> length files = N + 1 \<and>
    (\<forall>i<N. \<exists>txt ts tt'. files ! i = (''tt-'' @ station_label N (rand 0 mod 10) i, txt) \<and>
       readtimetable (Some txt) st0 tt =
         Inr (int (length ts), job_station (draw_job rnd rand 21 N (rand 0 mod 10) adj k) i, tt') \<and>
       shows_table tt' (map (trip_entry (draw_job rnd rand 21 N (rand 0 mod 10) adj k) i) ts) \<and>
       2 \<le> length ts \<and> trips_ok (draw_job rnd rand 21 N (rand 0 mod 10) adj k) i (6 * 60) ts)"
proof -
  obtain adj k files where run: "main_random rnd rand (\<lambda>_. True) [prog, arg] = Some (Inr files)"
    and c: "connected N adj" and files: "network_files rnd rand 6 21 N (rand 0 mod 10) adj k files"
    using main_random_result [OF assms] by blast
  have "distinct (map fst files) \<and> length files = N + 1"
    using files by (auto simp: network_files_def list_all2_lengthD [symmetric])
  then show ?thesis
    using run c network_files_readable [OF files assms(1)] by (intro exI [of _ adj] exI [of _ k] exI [of _ files]) auto
qed

theorem main_random_readable_witness:
  "\<exists>files. main_random (\<lambda>v. v) demo_rand (\<lambda>_. True) [''buildrandomtimetables'', ''2''] = Some (Inr files) \<and>
     length files = 3 \<and> distinct (map fst files)"
proof -
  have "atoi ''2'' = int 2" by (simp add: atoi_def) code_simp
  moreover have "double_rounding (\<lambda>v. v)" by (simp add: double_rounding_def)
  ultimately show ?thesis
    using main_random_readable [of "\<lambda>v. v" 2 "''2''" demo_rand "''buildrandomtimetables''"] demo_fair
    by fastforce
qed

text \<open>C23. The linear generator: with \<open>-l\<close> the network is the line in which station \<open>i\<close> is linked to
  \<open>i - 1\<close> and \<open>i + 1\<close>, which Warshall's algorithm accepts; the files are written and read back as
  above, with service from 5:00 to 22:00.\<close>

theorem main_line_readable:
  assumes "double_rounding rnd" and "2 \<le> N" and "N \<le> 676" and "atoi arg = int N"
    and "fair_pairs rand N 1" and "hd arg \<noteq> CHR ''-''"
  shows "\<exists>adj files. main_line rnd rand (\<lambda>_. True) [prog, ''-l'', arg] = Some (Inr files) \<and>
    (\<forall>i<N. \<forall>j<N. at2 adj i j \<longleftrightarrow> j = i + 1 \<or> i = j + 1) \<and> fst (Warshall adj N (new2D N)) \<and>
    distinct (map fst files) \<and> length files = N + 1 \<and>
    (\<forall>i<N. \<exists>txt ts tt'. files ! i = (''tt-'' @ station_label N (rand 0 mod 10) i, txt) \<and>
       readtimetable (Some txt) st0 tt =
         Inr (int (length ts), job_station (draw_job rnd rand 22 N (rand 0 mod 10) adj 1) i, tt') \<and>
       shows_table tt' (map (trip_entry (draw_job rnd rand 22 N (rand 0 mod 10) adj 1) i) ts) \<and>
       2 \<le> length ts \<and> trips_ok (draw_job rnd rand 22 N (rand 0 mod 10) adj 1) i (5 * 60) ts)"
proof -
  let ?t = "rand 0 mod 10" and ?adj = "build_linear_routes N (new2D N)"
  have c: "connected N ?adj" by (rule linear_connected [OF assms(2)])
  have line: "\<forall>i<N. \<forall>j<N. at2 ?adj i j \<longleftrightarrow> j = i + 1 \<or> i = j + 1"
    using linear_at2(2) [of N] assms(2) by (simp add: neighbours_in_line_def)
  obtain files where files: "write_network (\<lambda>_. True) N ?t ?adj (build_timetables rnd rand (\<lambda>_. True) 5 22 N ?t ?adj 1) = Some (Inr files)"
    "network_files rnd rand 5 22 N ?t ?adj 1 files"
    using write_network_ok [OF assms(1-3) _ _ assms(5) c, of 5 22 ?t 1] by auto
  have "arg \<noteq> ''--''" using assms(6) by auto
  then have "getopt_l [''-l'', arg] False = (False, True, [arg])" using assms(6) by simp
  then have "main_line rnd rand (\<lambda>_. True) [prog, ''-l'', arg] = Some (Inr files)"
    using assms(2-4) files(1) by (simp add: main_line_def build_timetables_line_def MIN_NODES_def MAX_NODES_def Let_def)
  moreover have "distinct (map fst files) \<and> length files = N + 1"
    using files(2) by (auto simp: network_files_def list_all2_lengthD [symmetric])
  moreover have "fst (Warshall ?adj N (new2D N))" using c by (simp add: Warshall_connected)
  ultimately show ?thesis
    using line network_files_readable [OF files(2) assms(1)]
    by (intro exI [of _ ?adj] exI [of _ files]) auto
qed

theorem main_line_readable_witness:
  "\<exists>files. main_line (\<lambda>v. v) demo_rand (\<lambda>_. True) [''buildlinetimetables'', ''-l'', ''2''] = Some (Inr files) \<and>
     length files = 3 \<and> distinct (map fst files)"
proof -
  have "atoi ''2'' = int 2" by (simp add: atoi_def) code_simp
  moreover have "double_rounding (\<lambda>v. v)" by (simp add: double_rounding_def)
  ultimately show ?thesis
    using main_line_readable [of "\<lambda>v. v" 2 "''2''" demo_rand "''buildlinetimetables''"] demo_fair
    by fastforce
qed

end
