(* ===== verification/Deployment.thy ===== *)
theory Deployment
  imports Journey Generator
begin

text \<open>
  The composition of the two programs of the repository: the timetable generator of \<open>src/files\<close>
  writes the file a station of \<open>src/main.c\<close> is started with. Every entry the generator prints has
  the form the station's lookup needs, so a station started on a generated file satisfies the
  hypotheses of the handler's and the network's theorems.
\<close>

section \<open>A station of a generated network\<close>

lemma dec02_plain: "0 \<le> n \<Longrightarrow> CHR '' '' \<notin> set (dec02 n) \<and> NUL \<notin> set (dec02 n)"
  using dec02_digits [of n] by (auto simp: isdigit_iff NUL_def)

lemma clock_token:
  assumes "0 \<le> m" and "m < 6000"
  shows "token MAX_TIMESTRING (clock m) \<and> is_time (clock m)"
proof -
  have "field 5 (clock m)" by (rule clock_field [OF assms])
  moreover have "CHR '' '' \<notin> set (clock m)"
    using dec02_plain [of "m div 60"] dec02_plain [of "m mod 60"] assms by (auto simp: clock_def)
  moreover have "timeToMinutes (clock m) = Inr m"
    using assms by (intro timeToMinutes_clock) (simp_all add: in_int_def)
  ultimately show ?thesis by (auto simp: token_def field_def is_time_def)
qed

lemma label_token: "token MAX_NAME_LENGTH (station_label N t i)"
proof -
  have "CHR '' '' \<notin> set (nodename N i)" by (rule nodename_chars) simp
  moreover have "CHR '' '' \<notin> set (nodetype t i)" using nodetype_cases [of t i] by auto
  moreover have "field 60 (station_label N t i)" by (rule field_label)
  ultimately show ?thesis by (auto simp: token_def field_def station_label_def)
qed

lemma trip_entry_ok:
  assumes "job_ok J" and "trips_ok J i first ts" and "0 \<le> first" and "t \<in> set ts"
  shows "entry_ok (trip_entry J i t)"
proof -
  obtain j d a where t: "t = (j, d, a)" by (cases t)
  have "0 \<le> d" "d < 1440" "d \<le> a" "a \<le> d + 402"
    using assms unfolding t trips_ok_def job_ok_def by fastforce+
  then have c: "token MAX_TIMESTRING (clock d) \<and> is_time (clock d)" "token MAX_TIMESTRING (clock a) \<and> is_time (clock a)"
    by (auto intro!: clock_token simp del: MAX_TIMESTRING_def)
  have "CHR '' '' \<notin> set (nodename n k)" for n k by (rule nodename_chars) simp
  then have r: "CHR '' '' \<notin> set (e_route (trip_entry J i t))" by (simp add: trip_entry_def t)
  have "wf_entry (trip_entry J i t)" by (rule trip_entry_wf [OF assms])
  with r have "token MAX_NAME_LENGTH (e_route (trip_entry J i t))" by (auto simp: wf_entry_def field_def token_def)
  with c show ?thesis by (simp add: entry_ok_def trip_entry_def t)
qed

text \<open>The command line of station \<open>i\<close>.\<close>

definition station_args :: "string \<Rightarrow> string \<Rightarrow> string \<Rightarrow> string \<Rightarrow> (string \<times> string) list \<Rightarrow> string list" where
  "station_args prog name tcp udp xs = prog # name # tcp # udp # map nb_arg xs"

text \<open>Ports, an address and neighbours a station can be started with.\<close>

definition config_ok :: "string \<Rightarrow> string \<Rightarrow> string \<Rightarrow> (string \<times> string) list \<Rightarrow> bool" where
  "config_ok tcp udp ip xs \<longleftrightarrow>
     length tcp < MAX_PORT \<and> port_ok udp \<and> ip_ok ip \<and> NUL \<notin> set (ip @ udp) \<and>
     xs \<noteq> [] \<and> list_all (\<lambda>x. ip_ok (fst x) \<and> port_ok (snd x)) xs"

text \<open>What is known of a station that was started on a generated file.\<close>

lemma generated_station:
  assumes "network_files rnd rand hour0 hour1 N type0 adj k files" and "double_rounding rnd"
    and "i < N" and "0 \<le> hour0" and "hour1 \<le> 24"
    and "config_ok tcp udp ip xs"
  defines "J \<equiv> draw_job rnd rand hour1 N type0 adj k"
  shows "\<exists>tx s ts. files ! i = (''tt-'' @ station_label N type0 i, tx) \<and>
    station_init (station_args prog (station_label N type0 i) tcp udp xs) (Some tx) stat now ip = Inr s \<and>
    server_ok s (map (trip_entry J i) ts) \<and> 2 \<le> length ts \<and> trips_ok J i (hour0 * 60) ts \<and> service_ok s \<and>
    my_name s = station_label N type0 i \<and> local_ip s = ip \<and> UDP_port s = udp \<and>
    g_neighbours s = map nb xs \<and> num_neighbours s = int (length xs) \<and> latest_time s = get_file_mtime stat"
proof -
  note cfg = assms(6) [unfolded config_ok_def]
  let ?name = "station_label N type0 i"
  let ?args = "station_args prog ?name tcp udp xs"
  have J: "job_ok J" unfolding J_def using assms(2,3,5) by (intro draw_job_ok) auto
  obtain tx ts tt where f: "files ! i = (''tt-'' @ ?name, tx)" "shows_table tt (map (trip_entry J i) ts)"
    "readtimetable (Some tx) \<lparr>station_name = [], longitude = [], latitude = []\<rparr> None =
      Inr (int (length ts), job_station J i, tt)"
    "2 \<le> length ts" "trips_ok J i (hour0 * 60) ts"
    using network_files_readable [OF assms(1-5)] unfolding J_def by blast
  have nbs: "readneighbours ?args = Inr (int (length xs), map nb xs)"
    using read_neighbours_ok [of xs "[]" 1] cfg by (auto simp: readneighbours_def station_args_def)
  have name: "length ?name < 61" using label_token [of N type0 i] by (simp add: token_def)
  have udp: "length udp < MAX_PORT" using cfg by (simp add: port_ok_def)
  define s where "s = \<lparr>g_station = job_station J i, g_timetable = tt, num_timetables = int (length ts),
    g_neighbours = map nb xs, num_neighbours = int (length xs), TCP_port = tcp, UDP_port = udp, local_ip = ip,
    formatted_time = now, latest_time = get_file_mtime stat, clients = init_clients\<rparr>"
  have "5 \<le> length ?args" using cfg by (cases xs) (simp_all add: station_args_def)
  moreover have "?args ! 1 = ?name" "?args ! 2 = tcp" "?args ! 3 = udp"
    by (simp_all add: station_args_def)
  ultimately have "station_init ?args (Some tx) stat now ip = Inr s"
    using f(3) nbs name udp cfg by (simp add: station_init_def fit_def s_def)
  moreover have "service_ok s"
    using init_clients_ok by (simp add: service_ok_def s_def)
  moreover have n: "my_name s = ?name"
    by (simp add: my_name_def s_def job_station_def J_def draw_job_def)
  have "list_all entry_ok (map (trip_entry J i) ts)"
    using trip_entry_ok [OF J f(5)] assms(4) by (simp add: list_all_iff)
  then have "server_ok s (map (trip_entry J i) ts)"
    using label_token [of N type0 i] cfg f(2,4) n
    by (simp add: server_ok_def) (auto simp: s_def my_address_def NUL_def)
  ultimately show ?thesis
    using f(1,4,5) n by (intro exI [of _ tx] exI [of _ s] exI [of _ ts]) (simp add: s_def)
qed

text \<open>The generator and the station server together: on every sequence of random numbers in which all
  pairs keep coming, each of the \<open>N\<close> stations starts on its file with a timetable of well-formed rows and
  the name the file is about.\<close>

lemma generated_stations_start:
  assumes "double_rounding rnd" and "2 \<le> N" and "N \<le> 676" and "atoi arg = int N"
    and "fair_pairs rand N 1"
    and "\<forall>i<N. config_ok (tcp i) (udp i) (ip i) (links i)"
  shows "\<exists>files. main_random rnd rand (\<lambda>_. True) [prog, arg] = Some (Inr files) \<and>
    (\<forall>i<N. \<exists>name file s es. files ! i = (''tt-'' @ name, file) \<and>
       station_init (station_args station name (tcp i) (udp i) (links i)) (Some file) stat now (ip i) = Inr s \<and>
       server_ok s es \<and> service_ok s \<and> my_name s = name \<and> my_address s = ip i @ '':'' @ udp i \<and>
       g_neighbours s = map nb (links i) \<and> num_neighbours s = int (length (links i)))"
proof -
  obtain adj k files where run: "main_random rnd rand (\<lambda>_. True) [prog, arg] = Some (Inr files)"
    and files: "network_files rnd rand 6 21 N (rand 0 mod 10) adj k files"
    using main_random_result [OF assms(1-5)] by blast
  have "\<exists>name file s es. files ! i = (''tt-'' @ name, file) \<and>
       station_init (station_args station name (tcp i) (udp i) (links i)) (Some file) stat now (ip i) = Inr s \<and>
       server_ok s es \<and> service_ok s \<and> my_name s = name \<and> my_address s = ip i @ '':'' @ udp i \<and>
       g_neighbours s = map nb (links i) \<and> num_neighbours s = int (length (links i))" if i: "i < N" for i
  proof -
    have "config_ok (tcp i) (udp i) (ip i) (links i)" using assms(6) i by blast
    from generated_station [OF files assms(1) i _ _ this, of station stat now] show ?thesis
      by (auto simp: my_address_def)
  qed
  with run show ?thesis by blast
qed

end
