(* ===== verification/Generated.thy ===== *)
theory Generated
  imports Requests Itinerary Deployment
begin

text \<open>
  Whole networks of stations that were started on the files of one run of the generator: each station
  knows the stations the adjacency matrix links it to, under the addresses under which those enter
  themselves. Such networks satisfy the hypotheses of the network's theorems, and the messages of
  journeys of up to eleven legs fit the buffers, because generated names are short. Between any
  two stations there is a path, and no bus of a generated timetable overtakes another to the same station.
\<close>

section \<open>Short messages\<close>

text \<open>The strings of a message of a generated network, by their lengths.\<close>

definition lean :: "msg \<Rightarrow> bool" where
  "lean m \<longleftrightarrow> lens m \<and>
     list_all (\<lambda>x. length x \<le> 10) (m_stations m) \<and> list_all (\<lambda>x. length x \<le> 53) (m_address m) \<and>
     list_all (\<lambda>x. length x \<le> 8) (m_routes m) \<and> list_all (\<lambda>x. length x \<le> 5) (m_time m) \<and>
     length (m_destination m) \<le> 10 \<and> length (m_source m) \<le> 10 \<and> length (m_start_time m) \<le> 5"

definition lean_entries :: "entry list \<Rightarrow> bool" where
  "lean_entries es \<longleftrightarrow> es \<noteq> [] \<and>
     list_all (\<lambda>e. length (e_departure e) \<le> 5 \<and> length (e_arrival e) \<le> 5 \<and> length (e_route e) \<le> 8) es"

definition lean_server :: "server \<Rightarrow> bool" where
  "lean_server s \<longleftrightarrow> length (my_name s) \<le> 10 \<and> length (my_address s) \<le> 53"

lemma length_spaced_le: "list_all (\<lambda>x. length x \<le> c) ts \<Longrightarrow> length (spaced ts) \<le> length ts * (c + 1)"
  by (induction ts) (simp_all add: spaced_Cons)

lemma length_dec_digits: "0 \<le> n \<Longrightarrow> n < 10 \<Longrightarrow> length (dec n) \<le> 1" "0 \<le> n \<Longrightarrow> n < 100 \<Longrightarrow> length (dec n) \<le> 2"
  using dec_digit dec_field [of n 2] by (simp_all add: field_def)

lemma short_wire:
  assumes "lens m" and "list_all (\<lambda>x. length x \<le> 10) (m_stations m)" and "list_all (\<lambda>x. length x \<le> 53) (m_address m)"
    and "list_all (\<lambda>x. length x \<le> 8) (m_routes m)" and "list_all (\<lambda>x. length x \<le> 5) (m_time m)"
    and "0 \<le> m_found m" and "m_found m < 10" and "0 \<le> m_current m" and "m_current m < 100" and "m_hops m < 100"
  shows "length (wire m) \<le> 80 * m_hops m + length (m_destination m) + length (m_source m) + length (m_start_time m) + 11"
proof -
  have l: "length (m_stations m) = m_hops m" "length (m_address m) = m_hops m" "length (m_routes m) = m_hops m"
    "length (m_time m) = m_hops m"
    using assms(1) by (simp_all add: lens_def m_hops_def)
  have "length (spaced (m_stations m)) \<le> m_hops m * 11" "length (spaced (m_address m)) \<le> m_hops m * 54"
    "length (spaced (m_routes m)) \<le> m_hops m * 9" "length (spaced (m_time m)) \<le> m_hops m * 6"
    using length_spaced_le [OF assms(2)] length_spaced_le [OF assms(3)] length_spaced_le [OF assms(4)]
      length_spaced_le [OF assms(5)] l by simp_all
  moreover have "length (dec (m_found m)) \<le> 1" "length (dec (int (m_hops m))) \<le> 2" "length (dec (m_current m)) \<le> 2"
    using length_dec_digits assms(6-10) by simp_all
  ultimately show ?thesis unfolding length_wire by simp
qed

lemma lean_fits:
  assumes "lean m" and "0 \<le> m_found m" and "m_found m < 10" and "0 \<le> m_current m" and "m_current m < 100"
    and "m_hops m \<le> 12"
  shows "fits m"
  using short_wire [of m] assms by (simp add: fits_def lean_def)

lemma list_all_update: "list_all P xs \<Longrightarrow> P x \<Longrightarrow> list_all P (xs[i := x])"
  by (auto simp: list_all_iff dest: set_update_subset_insert [THEN subsetD])

lemma lean_out:
  assumes "lean m" and "\<And>j. j < k \<Longrightarrow> lean_server (S j)"
  shows "lean (out_msg S m k)"
  using assms(2)
proof (induction k)
  case (Suc k)
  then have "lean (out_msg S m k)" "lean_server (S k)" by simp_all
  then show ?case by (simp add: out_msg.simps(2) flood_msg_def lean_def lens_def lean_server_def)
qed (simp add: assms(1))

lemma lean_entry: "lean_entries es \<Longrightarrow> i < length es \<Longrightarrow>
    length (e_departure (es ! i)) \<le> 5 \<and> length (e_arrival (es ! i)) \<le> 5 \<and> length (e_route (es ! i)) \<le> 8"
  by (simp add: lean_entries_def list_all_length)

lemma lean_found:
  assumes "lean m" and "\<And>j. j \<le> k \<Longrightarrow> lean_server (S j)" and "lean_entries (E k)"
  shows "lean (found_msg S E k m)"
proof -
  have "lean (out_msg S m k)" "lean_server (S k)" using assms by (auto intro: lean_out)
  moreover have "length (e_arrival (hd (E k))) \<le> 5" "length (e_route (hd (E k))) \<le> 8"
    using lean_entry [OF assms(3), of 0] assms(3) by (auto simp: lean_entries_def hd_conv_nth)
  ultimately show ?thesis
    by (simp add: found_msg_def arrive_msg_def lean_def lens_def lean_server_def)
qed

lemma first_departure_row: "es \<noteq> [] \<Longrightarrow> nat (first_departure es t go) < length es"
proof (cases rule: first_departure_cases [of es t go])
  case (row i)
  then show ?thesis using first_departure_found [of es t go i] by auto
qed simp

lemma lean_leg:
  assumes "lean b" and "\<And>j. j \<le> k \<Longrightarrow> lean_entries (E j)"
  shows "j \<le> k \<Longrightarrow> lean (leg_msg E b j)"
proof (induction j)
  case 0
  have "length (depart_time (E 0) b) \<le> 5"
    using lean_entry [OF assms(2) first_departure_row, of 0] assms(2) [of 0]
    by (simp add: depart_time_def lean_entries_def Let_def)
  with assms(1) show ?case by (simp add: depart_msg_def lean_def lens_def m_hops_def list_all_update)
next
  case (Suc j)
  then have l: "lean (leg_msg E b j)" "lean_entries (E j)" using assms(2) by simp_all
  have "nat (leg_row (E j) (leg_msg E b j)) < length (E j)"
    using l(2) first_departure_row by (simp add: leg_row_def lean_entries_def)
  from lean_entry [OF l(2) this] l(1) show ?case
    by (simp add: leg_msg.simps(2) fill_msg_def Let_def lean_def lens_def m_hops_def list_all_update)
qed

lemma lean_journey:
  assumes "lean m" and "m_found m = 0" and "m_current m = 0" and "m_hops m = 0" and "k \<le> 11"
    and "\<And>j. j \<le> k \<Longrightarrow> lean_server (S j) \<and> lean_entries (E j)"
  shows "journey_fits S E k m"
  unfolding journey_fits_def
proof (intro conjI allI ballI impI)
  let ?a = "found_msg S E k m"
  have at: "lean (at_hop c x) = lean x" "lean (x\<lparr>m_found := f\<rparr>) = lean x" "m_hops (x\<lparr>m_found := f\<rparr>) = m_hops x" for c x f
    by (simp_all add: at_hop_def lean_def lens_def m_hops_def)
  have a: "lean ?a" using assms by (intro lean_found) auto
  then have legs: "lean (leg_msg E (at_hop 1 ?a) j)" if "j \<le> k" for j
    using assms(6) that by (intro lean_leg [of _ k]) (auto simp: at)
  have r: "lean (route_msg S E k m)" "m_hops (route_msg S E k m) = k + 1" "m_found (route_msg S E k m) = 3"
    using legs [of k] assms(4) by (simp_all add: route_msg_def at)
  show "fits (out_msg S m j)" if "j \<le> k" for j
  proof (rule lean_fits)
    show "lean (out_msg S m j)" using assms(1,6) that by (intro lean_out) auto
    show "0 \<le> m_current (out_msg S m j)" "m_current (out_msg S m j) < 100"
      using that assms(3-5) by (cases j; simp add: out_msg.simps(2) flood_msg_def)+
  qed (use assms that in simp_all)
  show "fits (at_hop (int c) ?a)" if "c \<in> {1..k}" for c
    using that a assms(4,5) by (intro lean_fits) (simp_all add: at)
  show "fits (leg_msg E (at_hop 1 ?a) j)" if "j \<in> {1..k}" for j
    using that legs [of j] assms(4,5) by (intro lean_fits) simp_all
  show "fits (at_hop (int c) (route_msg S E k m))" if "c \<in> {1..k}" for c
    using that r assms(5) by (intro lean_fits) (simp_all add: at)
  show "fits ((at_hop 1 (route_msg S E k m))\<lparr>m_found := 4\<rparr>)"
    using r assms(5) by (intro lean_fits) (simp_all add: at)
qed

section \<open>A network started on generated files\<close>

text \<open>Where a station runs: its ports and its address.\<close>

record site =
  s_tcp :: string
  s_udp :: string
  s_ip :: string

definition endpoint :: "site \<Rightarrow> string \<times> string" where
  "endpoint x = (s_ip x, s_udp x)"

text \<open>The neighbours station \<open>i\<close> is given: those the matrix links it to.\<close>

definition links :: "nat \<Rightarrow> matrix \<Rightarrow> (nat \<Rightarrow> site) \<Rightarrow> nat \<Rightarrow> (string \<times> string) list" where
  "links N adj S i = map (\<lambda>j. endpoint (S j)) (filter (at2 adj i) [0..<N])"

definition sites_ok :: "nat \<Rightarrow> (nat \<Rightarrow> site) \<Rightarrow> bool" where
  "sites_ok N S \<longleftrightarrow> inj_on (\<lambda>i. endpoint (S i)) {..<N} \<and>
     (\<forall>i<N. length (s_tcp (S i)) < MAX_PORT \<and> port_ok (s_udp (S i)) \<and> ip_ok (s_ip (S i)) \<and>
        NUL \<notin> set (s_ip (S i) @ s_udp (S i)))"

text \<open>Every station of \<open>n\<close> was started on its file; browsers may have come since.\<close>

definition deployed ::
  "world \<Rightarrow> nat \<Rightarrow> nat \<Rightarrow> matrix \<Rightarrow> (string \<times> string) list \<Rightarrow> (nat \<Rightarrow> site) \<Rightarrow> net \<Rightarrow> bool" where
  "deployed W N type0 adj files S n \<longleftrightarrow> dom (up n) = {..<N} \<and>
     (\<forall>i<N. route W (s_ip (S i)) (s_udp (S i)) = Some i \<and> benign (sys W i) \<and>
        (\<exists>prog now s cs. station_init (station_args prog (station_label N type0 i) (s_tcp (S i)) (s_udp (S i)) (links N adj S i))
             (Some (snd (files ! i))) (stat_of W i) now (s_ip (S i)) = Inr s \<and>
           up n i = Some (s\<lparr>clients := cs\<rparr>) \<and> service_ok (s\<lparr>clients := cs\<rparr>)))"

text \<open>The files, the network and the sites of one run of a generator.\<close>

definition rollout ::
  "(rat \<Rightarrow> rat) \<Rightarrow> (nat \<Rightarrow> nat) \<Rightarrow> int \<Rightarrow> int \<Rightarrow> nat \<Rightarrow> nat \<Rightarrow> matrix \<Rightarrow> nat \<Rightarrow> (string \<times> string) list \<Rightarrow> (nat \<Rightarrow> site) \<Rightarrow> bool"
where
  "rollout rnd rand hour0 hour1 N type0 adj k0 files S \<longleftrightarrow>
     network_files rnd rand hour0 hour1 N type0 adj k0 files \<and> double_rounding rnd \<and> 0 \<le> hour0 \<and> hour1 \<le> 24 \<and>
     N \<le> 676 \<and> connected N adj \<and> undirected N adj \<and> sites_ok N S"

lemma sites_config:
  assumes "sites_ok N S" and "connected N adj" and "i < N"
  shows "config_ok (s_tcp (S i)) (s_udp (S i)) (s_ip (S i)) (links N adj S i)"
proof -
  have "links N adj S i \<noteq> []"
    using degree_pos [OF assms(2,3)] by (auto simp: links_def degree_def)
  then show ?thesis
    using assms(1,3) by (auto simp: config_ok_def sites_ok_def links_def endpoint_def list_all_iff)
qed

definition station_of ::
  "tt_job \<Rightarrow> nat \<Rightarrow> int \<Rightarrow> nat \<Rightarrow> (string \<times> string) list \<Rightarrow> site \<Rightarrow> trip list \<Rightarrow> server \<Rightarrow> bool" where
  "station_of J type0 hour0 i xs x ts s \<longleftrightarrow>
     server_ok s (map (trip_entry J i) ts) \<and> 2 \<le> length ts \<and> trips_ok J i (hour0 * 60) ts \<and> service_ok s \<and>
     my_name s = station_label (j_N J) type0 i \<and> local_ip s = s_ip x \<and> UDP_port s = s_udp x \<and>
     g_neighbours s = map nb xs \<and> num_neighbours s = int (length xs)"

lemma deployed_station:
  assumes "rollout rnd rand hour0 hour1 N type0 adj k0 files S" and "deployed W N type0 adj files S n" and "i < N"
  shows "\<exists>s ts. up n i = Some s \<and> station_ok (stat_of W i) s \<and>
    station_of (draw_job rnd rand hour1 N type0 adj k0) type0 hour0 i (links N adj S i) (S i) ts s"
proof -
  note r = assms(1) [unfolded rollout_def]
  let ?J = "draw_job rnd rand hour1 N type0 adj k0" and ?x = "S i"
  obtain prog now s cs where d: "station_init (station_args prog (station_label N type0 i) (s_tcp ?x) (s_udp ?x) (links N adj S i))
      (Some (snd (files ! i))) (stat_of W i) now (s_ip ?x) = Inr s"
    "up n i = Some (s\<lparr>clients := cs\<rparr>)" "service_ok (s\<lparr>clients := cs\<rparr>)"
    using assms(2,3) unfolding deployed_def by blast
  have cfg: "config_ok (s_tcp ?x) (s_udp ?x) (s_ip ?x) (links N adj S i)"
    using sites_config assms(3) r by blast
  obtain tx s' ts where g: "files ! i = (''tt-'' @ station_label N type0 i, tx)"
    "station_init (station_args prog (station_label N type0 i) (s_tcp ?x) (s_udp ?x) (links N adj S i))
      (Some tx) (stat_of W i) now (s_ip ?x) = Inr s'"
    "server_ok s' (map (trip_entry ?J i) ts)" "2 \<le> length ts" "trips_ok ?J i (hour0 * 60) ts"
    "my_name s' = station_label N type0 i" "local_ip s' = s_ip ?x" "UDP_port s' = s_udp ?x"
    "g_neighbours s' = map nb (links N adj S i)" "num_neighbours s' = int (length (links N adj S i))"
    "latest_time s' = get_file_mtime (stat_of W i)"
    using generated_station [OF _ _ assms(3) _ _ cfg, of rnd rand hour0 hour1 type0 adj k0 files prog "stat_of W i" now] r
    by blast
  have s: "s' = s" using d(1) g(1,2) by simp
  have "server_ok (s\<lparr>clients := cs\<rparr>) (map (trip_entry ?J i) ts)" "my_name (s\<lparr>clients := cs\<rparr>) = my_name s"
    using g(3) by (simp_all add: s server_ok_clients my_name_def)
  then show ?thesis
    using d(2,3) g(4-11) unfolding s station_of_def station_ok_def
    by (intro exI [of _ "s\<lparr>clients := cs\<rparr>"] exI [of _ ts]) (auto simp: draw_job_def)
qed

text \<open>Whatever the sites, all stations of the network start.\<close>

lemma rollout_deploys:
  assumes "rollout rnd rand hour0 hour1 N type0 adj k0 files S"
    and "\<forall>i<N. route W (s_ip (S i)) (s_udp (S i)) = Some i \<and> benign (sys W i)"
  shows "\<exists>n. deployed W N type0 adj files S n \<and> flight n = {#}"
proof -
  note r = assms(1) [unfolded rollout_def]
  have "\<exists>s. station_init (station_args [] (station_label N type0 i) (s_tcp (S i)) (s_udp (S i)) (links N adj S i))
      (Some (snd (files ! i))) (stat_of W i) [] (s_ip (S i)) = Inr s \<and> service_ok s" if "i < N" for i
  proof -
    have "config_ok (s_tcp (S i)) (s_udp (S i)) (s_ip (S i)) (links N adj S i)"
      using sites_config that r by blast
    from generated_station [OF _ _ that _ _ this, of rnd rand hour0 hour1 type0 adj k0 files "[]" "stat_of W i" "[]"] r
    show ?thesis by fastforce
  qed
  then obtain s where s: "\<And>i. i < N \<Longrightarrow>
      station_init (station_args [] (station_label N type0 i) (s_tcp (S i)) (s_udp (S i)) (links N adj S i))
        (Some (snd (files ! i))) (stat_of W i) [] (s_ip (S i)) = Inr (s i) \<and> service_ok (s i)" by metis
  let ?n = "\<lparr>up = \<lambda>i. if i < N then Some (s i) else None, flight = {#}\<rparr>"
  have "(s i)\<lparr>clients := clients (s i)\<rparr> = s i" for i by (cases "s i") simp
  then have "\<exists>prog now s' cs. station_init (station_args prog (station_label N type0 i) (s_tcp (S i)) (s_udp (S i)) (links N adj S i))
             (Some (snd (files ! i))) (stat_of W i) now (s_ip (S i)) = Inr s' \<and>
           up ?n i = Some (s'\<lparr>clients := cs\<rparr>) \<and> service_ok (s'\<lparr>clients := cs\<rparr>)" if "i < N" for i
    using s [OF that] that
    by (intro exI [of _ "[]"] exI [of _ "s i"] exI [of _ "clients (s i)"]) simp
  then have "deployed W N type0 adj files S ?n"
    using assms(2) by (auto simp: deployed_def dom_def)
  then show ?thesis by (intro exI [of _ ?n]) simp
qed

lemma rollout_stations_ok:
  assumes "rollout rnd rand hour0 hour1 N type0 adj k0 files S" and "deployed W N type0 adj files S n"
  shows "stations_ok W n"
  unfolding stations_ok_def
proof (intro allI impI)
  fix i s
  assume "up n i = Some s"
  moreover from this have "i < N" using assms(2) by (auto simp: deployed_def)
  ultimately show "station_ok (stat_of W i) s" using deployed_station [OF assms] by fastforce
qed

lemma endpoint_text_inj:
  assumes "ip_ok a" and "ip_ok b" and "a @ '':'' @ p = b @ '':'' @ q"
  shows "a = b \<and> p = q"
proof -
  have "takeWhile (\<lambda>c. c \<noteq> CHR '':'') (a @ '':'' @ p) = a" "takeWhile (\<lambda>c. c \<noteq> CHR '':'') (b @ '':'' @ q) = b"
    using assms(1,2) by (simp_all add: ip_ok_def takeWhile_colon)
  with assms(3) show ?thesis by simp
qed

lemma rollout_addressed:
  assumes "rollout rnd rand hour0 hour1 N type0 adj k0 files S" and "deployed W N type0 adj files S n"
  shows "addressed W n"
  unfolding addressed_def
proof (intro allI impI)
  fix i s b
  assume up: "up n i = Some s" and b: "b \<in> set (g_neighbours s)"
  have i: "i < N" using assms(2) up by (auto simp: deployed_def)
  note st = deployed_station [OF assms, unfolded station_of_def]
  have s: "g_neighbours s = map nb (links N adj S i)" "my_address s = s_ip (S i) @ '':'' @ s_udp (S i)"
    using st [OF i] up by (auto simp: my_address_def)
  then obtain j where j: "j < N" "at2 adj i j" "b = nb (endpoint (S j))"
    using b by (auto simp: links_def)
  have "i \<noteq> j" using j assms(1) by (auto simp: rollout_def undirected_def)
  then have "endpoint (S i) \<noteq> endpoint (S j)" "ip_ok (s_ip (S i))" "ip_ok (s_ip (S j))"
    using assms(1) i j(1) by (auto simp: rollout_def sites_ok_def dest: inj_onD)
  then have "addr_and_port b \<noteq> my_address s"
    using endpoint_text_inj [of "s_ip (S j)" "s_ip (S i)" "s_udp (S j)" "s_udp (S i)"] j(3)
    by (auto simp: s(2) nb_def endpoint_def)
  moreover have "addr_and_port b = my_address r"
    if "route W (ip_addr b) (udp_port b) = Some j'" "up n j' = Some r" for j' r
  proof -
    have "route W (ip_addr b) (udp_port b) = Some j"
      using assms(2) j(1,3) by (simp add: deployed_def nb_def endpoint_def)
    then have "up n j = Some r" using that by simp
    with st [OF j(1)] j(3) show ?thesis by (auto simp: my_address_def nb_def endpoint_def)
  qed
  ultimately show "addr_and_port b \<noteq> my_address s \<and>
      (\<forall>j r. route W (ip_addr b) (udp_port b) = Some j \<longrightarrow> up n j = Some r \<longrightarrow> addr_and_port b = my_address r)" by blast
qed

section \<open>Paths\<close>

text \<open>A path of linked stations that visits none twice.\<close>

definition simple_path :: "nat \<Rightarrow> matrix \<Rightarrow> (nat \<Rightarrow> nat) \<Rightarrow> nat \<Rightarrow> bool" where
  "simple_path N adj is k \<longleftrightarrow> 1 \<le> k \<and> inj_on is {..k} \<and> (\<forall>j\<le>k. is j < N) \<and>
     (\<forall>j<k. at2 adj (is j) (is (Suc j)))"

lemma row_of_inj: "row_of e = row_of e' \<Longrightarrow> e = e'"
  by (cases e; cases e') (simp add: row_of_def)

lemma server_entries_unique:
  assumes "server_ok s es" and "server_ok s es'"
  shows "es = es'"
proof -
  have "length es = length es'" "map row_of es = map row_of es'"
    using assms by (auto simp: server_ok_def shows_table_def split: option.splits)
  moreover have "inj row_of" by (rule injI) (rule row_of_inj)
  ultimately show ?thesis by (simp add: inj_map_eq_map)
qed

lemma trips_lean:
  assumes "job_ok J" and "trips_ok J i first ts" and "0 \<le> first" and "ts \<noteq> []"
  shows "lean_entries (map (trip_entry J i) ts)"
proof -
  have "length (e_departure (trip_entry J i t)) \<le> 5 \<and> length (e_arrival (trip_entry J i t)) \<le> 5 \<and>
      length (e_route (trip_entry J i t)) \<le> 8" if "t \<in> set ts" for t
  proof -
    have "wf_entry (trip_entry J i t)" by (rule trip_entry_wf [OF assms(1-3) that])
    then show ?thesis
      using nodename_field(4) [of "j_N J" i] nodename_field(4) [of "j_N J" "fst t"]
      by (auto simp: wf_entry_def field_def trip_entry_def split: prod.splits)
  qed
  with assms(4) show ?thesis by (simp add: lean_entries_def list_all_iff)
qed

lemma station_of_lean:
  assumes "station_of J type0 hour0 i xs x ts s" and "job_ok J" and "0 \<le> hour0" and "ip_ok (s_ip x)" and "port_ok (s_udp x)"
  shows "lean_server s \<and> lean_entries (map (trip_entry J i) ts)"
proof -
  have "ts \<noteq> []" using assms(1) by (auto simp: station_of_def)
  then show ?thesis
    using assms trips_lean [OF assms(2), of i "hour0 * 60" ts] nodetype_field(1) [of type0 i] nodename_field(4) [of "j_N J" i]
  by (auto simp: station_of_def lean_server_def station_label_def my_address_def ip_ok_def port_ok_def)
qed

text \<open>The generator's buses do not overtake each other, so the answers are earliest arrivals.\<close>

lemma trips_no_overtaking:
  assumes "trips_ok J i first ts" and "0 \<le> first" and "j_N J \<le> 676" and "j_tlast J \<le> 1440"
  shows "no_overtaking (map (trip_entry J i) ts)"
  unfolding no_overtaking_def sorted_wrt_iff_nth_less
proof (intro allI impI)
  fix m m'
  assume m: "m < m'" "m' < length (map (trip_entry J i) ts)"
    and same: "e_to (map (trip_entry J i) ts ! m) = e_to (map (trip_entry J i) ts ! m')"
  obtain j d a where t: "ts ! m = (j, d, a)" by (cases "ts ! m")
  obtain j' d' a' where t': "ts ! m' = (j', d', a')" by (cases "ts ! m'")
  have in_ts: "(j, d, a) \<in> set ts" "(j', d', a') \<in> set ts"
    using m t t' by (metis length_map nth_mem order_less_trans)+
  have le: "j = j' \<longrightarrow> a \<le> a'"
    using assms(1) m t t' unfolding trips_ok_def by (fastforce dest: sorted_wrt_nth_less)
  have b: "j < j_N J" "j' < j_N J" "0 \<le> a" "a < 2000" "0 \<le> a'" "a' < 2000"
    using assms in_ts unfolding trips_ok_def by fastforce+
  have "j = j'"
    using same m t t' station_label_inj [OF assms(3) b(1,2)] by (simp add: trip_entry_def)
  then show "minutes (e_arrival (map (trip_entry J i) ts ! m)) \<le> minutes (e_arrival (map (trip_entry J i) ts ! m'))"
    using le m t t' b by (simp add: trip_entry_def minutes_def timeToMinutes_clock in_int_def)
qed

lemma rollout_no_overtaking:
  assumes "rollout rnd rand hour0 hour1 N type0 adj k0 files S" and "deployed W N type0 adj files S n"
    and "up n i = Some s" and "server_ok s es"
  shows "no_overtaking es"
proof -
  have i: "i < N" using assms(2,3) by (auto simp: deployed_def)
  obtain ts where "station_of (draw_job rnd rand hour1 N type0 adj k0) type0 hour0 i (links N adj S i) (S i) ts s"
    using deployed_station [OF assms(1,2) i] assms(3) by auto
  then show ?thesis
    using server_entries_unique [OF assms(4)] trips_no_overtaking assms(1)
    by (fastforce simp: station_of_def rollout_def draw_job_def)
qed

lemma rollout_path:
  assumes "rollout rnd rand hour0 hour1 N type0 adj k0 files S" and "deployed W N type0 adj files S n"
    and "simple_path N adj is k" and "\<forall>j\<le>k. server_ok (stop n is j) (E j)"
  shows "path_ok W n is E k (station_label N type0 (is 0)) (station_label N type0 (is k))"
    and "\<And>j. j \<le> k \<Longrightarrow> lean_server (stop n is j) \<and> lean_entries (E j)"
proof -
  let ?J = "draw_job rnd rand hour1 N type0 adj k0"
  note r = assms(1) [unfolded rollout_def]
  have p: "1 \<le> k" "inj_on is {..k}" "\<And>j. j \<le> k \<Longrightarrow> is j < N" "\<And>j. j < k \<Longrightarrow> at2 adj (is j) (is (Suc j))"
    using assms(3) by (auto simp: simple_path_def)
  have job: "job_ok ?J" using r p(3) [of 0] by (intro draw_job_ok) auto
  have N: "j_N ?J = N" by (simp add: draw_job_def)
  have st: "\<exists>ts. up n (is j) = Some (stop n is j) \<and> station_ok (stat_of W (is j)) (stop n is j) \<and>
      station_of ?J type0 hour0 (is j) (links N adj S (is j)) (S (is j)) ts (stop n is j)" if "j \<le> k" for j
    using deployed_station [OF assms(1,2) p(3) [OF that]] by (auto simp: stop_def)
  have d: "route W (s_ip (S (is j))) (s_udp (S (is j))) = Some (is j)" "benign (sys W (is j))" if "j \<le> k" for j
    using assms(2) p(3) [OF that] by (auto simp: deployed_def)
  have site: "ip_ok (s_ip (S (is j)))" "port_ok (s_udp (S (is j)))" if "j \<le> k" for j
    using r p(3) [OF that] by (auto simp: sites_ok_def)
  show "lean_server (stop n is j) \<and> lean_entries (E j)" if j: "j \<le> k" for j
  proof -
    obtain ts where ts: "station_of ?J type0 hour0 (is j) (links N adj S (is j)) (S (is j)) ts (stop n is j)"
      using st [OF j] by blast
    then have "E j = map (trip_entry ?J (is j)) ts"
      using assms(4) j server_entries_unique by (auto simp: station_of_def)
    with station_of_lean [OF ts job _ site [OF j]] r show ?thesis by simp
  qed
  have name: "my_name (stop n is j) = station_label N type0 (is j)" if "j \<le> k" for j
    using st [OF that] N by (auto simp: station_of_def)
  have same: "station_label N type0 (is i) = station_label N type0 (is j) \<longleftrightarrow> i = j" if "i \<le> k" "j \<le> k" for i j
    using station_label_inj [OF _ p(3) p(3)] that r p(2) by (auto dest: inj_onD)
  have place: "place_ok W n is E k (station_label N type0 (is 0)) (station_label N type0 (is k)) j" if j: "j \<le> k" for j
    using st [OF j] d [OF j] j assms(4) name [OF j] same [of j 0] same [of j k]
    by (auto simp: place_ok_def Let_def station_of_def station_ok_def)
  have link: "link_ok W n is j" if j: "j < k" for j
  proof -
    let ?b = "nb (endpoint (S (is (Suc j))))"
    have nx: "is (Suc j) < N" "Suc j \<le> k" using p(3) j by simp_all
    have "?b \<in> set (g_neighbours (stop n is j))"
      using st [of j] p(4) [OF j] nx(1) j by (auto simp: station_of_def links_def)
    moreover have "route W (ip_addr ?b) (udp_port ?b) = Some (is (Suc j))"
      using d(1) [OF nx(2)] by (simp add: nb_def endpoint_def)
    moreover have "addr_and_port ?b \<noteq> my_address (stop n is i)" if i: "i < j" for i
    proof
      assume eq: "addr_and_port ?b = my_address (stop n is i)"
      have "i \<le> k" using i j by simp
      have addr: "my_address (stop n is i) = s_ip (S (is i)) @ '':'' @ s_udp (S (is i))"
        using st [OF \<open>i \<le> k\<close>] by (auto simp: station_of_def my_address_def)
      have "s_ip (S (is (Suc j))) @ '':'' @ s_udp (S (is (Suc j))) = s_ip (S (is i)) @ '':'' @ s_udp (S (is i))"
        using eq unfolding addr by (simp add: nb_def endpoint_def)
      from endpoint_text_inj [OF site(1) [OF nx(2)] site(1) [OF \<open>i \<le> k\<close>] this]
      have same_site: "endpoint (S (is (Suc j))) = endpoint (S (is i))" by (simp add: endpoint_def)
      have "inj_on (\<lambda>i. endpoint (S i)) {..<N}" using r by (simp add: sites_ok_def)
      from inj_onD [OF this same_site] have "is (Suc j) = is i" using nx(1) p(3) [OF \<open>i \<le> k\<close>] by simp
      from inj_onD [OF p(2) this] show False using nx(2) \<open>i \<le> k\<close> i by simp
    qed
    ultimately show ?thesis unfolding link_ok_def by blast
  qed
  show "path_ok W n is E k (station_label N type0 (is 0)) (station_label N type0 (is k))"
    using p(1) place link by (simp add: path_ok_def)
qed

section \<open>Answers and floods\<close>

text \<open>At station \<open>i\<close> the browser \<open>c\<close> waits for a way to \<open>dst\<close> from \<open>t\<close> on, and the query is in flight.\<close>

definition asking :: "net \<Rightarrow> nat \<Rightarrow> string \<Rightarrow> string \<Rightarrow> client_node \<Rightarrow> bool" where
  "asking n i dst t c \<longleftrightarrow> (\<exists>s. up n i = Some s \<and>
     (local_ip s, UDP_port s, wire (query_msg (my_name s) dst t)) \<in># flight n \<and>
     c \<in> set (head_client (clients s)) \<and> c_query c = asked dst t \<and> ring_has (clients s) (dst, t))"

lemma query_wf:
  assumes "clock_text t"
  shows "wf_msg (query_msg (station_label N type0 i) (station_label N type0 j) t)"
  by (rule wf_query [OF label_token label_token assms])

lemma rollout_answered:
  assumes "rollout rnd rand hour0 hour1 N type0 adj k0 files S" and "deployed W N type0 adj files S (f 0)"
    and "simple_path N adj is k" and "k \<le> 11" and "\<forall>j\<le>k. server_ok (stop (f 0) is j) (E j)" and "clock_text t"
  defines "src \<equiv> station_label N type0 (is 0)" and "dst \<equiv> station_label N type0 (is k)"
  assumes "legs_ok (stop (f 0) is) E k (query_msg src dst t)" and "asking (f 0) (is 0) dst t c"
    and "full_run W (is ` {..k}) f"
  shows "\<exists>i. answered W (is 0) c (f i) (f (Suc i))"
proof -
  note path = rollout_path [OF assms(1-3,5), folded src_def dst_def]
  have wf: "wf_msg (query_msg src dst t)" unfolding src_def dst_def by (rule query_wf [OF assms(6)])
  have "length (station_label N type0 i) \<le> 10" for i
    using nodetype_field(1) [of type0 i] nodename_field(4) [of N i] by (simp add: station_label_def)
  then have "lean (query_msg src dst t)"
    using assms(6) by (simp add: lean_def lens_def query_msg_def m_hops_def src_def dst_def clock_text_def)
  then have fit: "journey_fits (stop (f 0) is) E k (query_msg src dst t)"
    using assms(4) path(2) by (intro lean_journey) (simp_all add: query_msg_def m_hops_def)
  have "my_name (stop (f 0) is 0) = src" by (rule path_ends(2) [OF path(1)])
  then have "(local_ip (stop (f 0) is 0), UDP_port (stop (f 0) is 0), wire (query_msg src dst t)) \<in># flight (f 0)"
    "c \<in> set (head_client (clients (stop (f 0) is 0)))" "c_query c = asked dst t"
    "ring_has (clients (stop (f 0) is 0)) (dst, t)"
    using assms(10) by (auto simp: asking_def stop_def)
  from journey_tracked [OF path(1) wf _ fit assms(9) rollout_stations_ok [OF assms(1,2)] this] assms(6)
  obtain z where "tracked W (is ` {..k}) (f 0) (is 0) c z (f 0)" by (auto simp: clock_text_def)
  then show ?thesis using assms(11) by (rule tracked_answered)
qed

lemma network_stations_ok: "network W n0 n \<Longrightarrow> stations_ok W n0 \<Longrightarrow> stations_ok W n"
  by (induction rule: network.induct) (simp_all add: net_step_up)

lemma rollout_addresses:
  assumes "deployed W N type0 adj files S n"
  shows "finite (addresses n)" and "card (addresses n) \<le> N"
proof -
  have d: "dom (up n) = {..<N}" using assms by (simp add: deployed_def)
  have sub: "addresses n \<subseteq> (\<lambda>i. my_address (the (up n i))) ` {..<N}"
    unfolding addresses_def d [symmetric] by force
  show "finite (addresses n)" by (rule finite_subset [OF sub]) simp
  have "card (addresses n) \<le> card ((\<lambda>i. my_address (the (up n i))) ` {..<N})" by (rule card_mono [OF _ sub]) simp
  also have "\<dots> \<le> card {..<N}" by (rule card_image_le) simp
  finally show "card (addresses n) \<le> N" by simp
qed

text \<open>Queries pass no station twice, and the network settles.\<close>

lemma rollout_floods:
  assumes "rollout rnd rand hour0 hour1 N type0 adj k0 files S" and "deployed W N type0 adj files S n0"
    and "flight n0 = {#}" and "network W n0 n"
    and "(h, p, d) \<in># flight n" and "carries d m" and "m_found m = 0"
  shows "distinct (m_address m) \<and> m_hops m \<le> N"
  using network_floods [OF assms(4,3) rollout_stations_ok [OF assms(1,2)] rollout_addressed [OF assms(1,2)] assms(5-7)]
    card_mono [OF rollout_addresses(1) [OF assms(2)], of "set (m_address m)"] rollout_addresses(2) [OF assms(2)] by linarith

lemma rollout_settles:
  assumes "rollout rnd rand hour0 hour1 N type0 adj k0 files S" and "deployed W N type0 adj files S n0"
    and "network W n0 (f 0)"
  shows "\<exists>i. \<not> delivery W (f i) (f (Suc i))"
proof -
  have "stations_ok W (f 0)" by (rule network_stations_ok [OF assms(3) rollout_stations_ok [OF assms(1,2)]])
  then show ?thesis by (rule deliveries.stuck)
qed

section \<open>Every pair of stations has a path\<close>

lemma connected_path:
  assumes "connected N adj" and "a < N" and "b < N" and "a \<noteq> b"
  shows "\<exists>is k. simple_path N adj is k \<and> is 0 = a \<and> is k = b"
proof -
  let ?R = "edges adj N"
  have "\<exists>k. (a, b) \<in> ?R ^^ k"
    using assms(1-3) by (auto simp: connected_def intro: rtrancl_imp_relpow trancl_into_rtrancl)
  then obtain k where k: "(a, b) \<in> ?R ^^ k" "\<And>l. l < k \<Longrightarrow> (a, b) \<notin> ?R ^^ l"
    using exists_least_iff [of "\<lambda>k. (a, b) \<in> ?R ^^ k"] by auto
  from k(1) obtain f where f: "f 0 = a" "f k = b" "\<And>i. i < k \<Longrightarrow> (f i, f (Suc i)) \<in> ?R"
    by (auto simp: relpow_fun_conv)
  have "f i \<noteq> f j" if ij: "i < j" "j \<le> k" for i j
  proof
    assume same: "f i = f j"
    define g where "g l = (if l \<le> i then f l else f (l + (j - i)))" for l
    have "(g l, g (Suc l)) \<in> ?R" if "l < k - (j - i)" for l
      using f(3) [of l] f(3) [of "l + (j - i)"] that ij same by (cases "l < i"; cases "l = i") (auto simp: g_def)
    moreover have "g 0 = a" "g (k - (j - i)) = b"
      using f(1,2) ij same by (cases "j = k"; auto simp: g_def)+
    ultimately have "(a, b) \<in> ?R ^^ (k - (j - i))" by (auto simp: relpow_fun_conv)
    with k(2) [of "k - (j - i)"] ij show False by simp
  qed
  then have "inj_on f {..k}" by (intro linorder_inj_onI) auto
  moreover have "1 \<le> k" using f(1,2) assms(4) by (cases k) auto
  moreover have "f j < N" if "j \<le> k" for j
    using f that assms(3) by (cases "j = k") (auto simp: edges_def)
  ultimately have "simple_path N adj f k" using f(3) by (auto simp: simple_path_def edges_def)
  with f show ?thesis by blast
qed

lemma path_below: "simple_path N adj is k \<Longrightarrow> k < N"
  using card_mono [of "{..<N}" "is ` {..k}"] by (fastforce simp: simple_path_def card_image)

section \<open>Two stations of a generated network\<close>

text \<open>For a trip of one leg it is enough that the first station has a connection.\<close>

lemma direct_leg:
  assumes "first_departure (E 0) t (my_name (S 1)) = int i"
  shows "legs_ok S E 1 (query_msg src dst t)"
proof -
  let ?b = "at_hop 1 (found_msg S E 1 (query_msg src dst t))"
  have b: "m_stations ?b ! 1 = my_name (S 1)" "m_start_time ?b = t" "m_current ?b = 1" "m_hops ?b = 2" "lens ?b"
    by (simp_all add: at_hop_def found_msg_def out_msg.simps(2) flood_msg_def arrive_msg_def query_msg_def m_hops_def lens_def)
  have "depart_time (E 0) ?b = e_departure (E 0 ! i)"
    using b assms by (simp add: depart_time_def Let_def)
  moreover have "m_time ?b \<noteq> []" using b(4,5) by (auto simp: m_hops_def lens_def)
  ultimately have "leg_row (E 0) (depart_msg (E 0) ?b) = first_departure (E 0) (e_departure (E 0 ! i)) (my_name (S 1))"
    using b by (simp add: leg_row_def depart_msg_def)
  also have "\<dots> \<noteq> - 1"
    using assms by (auto simp: first_departure_none first_departure_found serves_def)
  finally show ?thesis by (simp add: legs_ok_def)
qed

definition demo_site :: "nat \<Rightarrow> site" where
  "demo_site i = \<lparr>s_tcp = if i = 0 then ''4003'' else ''4001'', s_udp = if i = 0 then ''4004'' else ''4002'', s_ip = ''10.0.0.1''\<rparr>"

lemma demo_sites_ok: "sites_ok 2 demo_site"
proof -
  have "port_ok ''4004''" "port_ok ''4002''" "ip_ok ''10.0.0.1''" "NUL \<notin> set (''10.0.0.1'' @ ''4004'')"
    "NUL \<notin> set (''10.0.0.1'' @ ''4002'')" by code_simp+
  moreover have "inj_on (\<lambda>i. endpoint (demo_site i)) {..<2}"
    by (auto simp: inj_on_def endpoint_def demo_site_def split: if_splits)
  ultimately show ?thesis by (simp add: sites_ok_def demo_site_def)
qed

lemma station_init_start:
  "station_init argv file stat now ip = Inr s \<Longrightarrow> formatted_time s = now \<and> clients s = init_clients"
  by (auto simp: station_init_def elim!: bindR_InrE)

text \<open>On any files for two stations: both start, and a browser that registers at the first for a way to the
  second is asked for with the next timeout. The first row of the timetable is a connection.\<close>

lemma demo_deployed:
  assumes "rollout rnd rand 6 hour1 2 type0 adj k0 files demo_site"
  defines "dst \<equiv> station_label 2 type0 1" and "c \<equiv> \<lparr>fd = 7, c_query = asked (station_label 2 type0 1) ''05:30''\<rparr>"
  shows "\<exists>n0 n E. deployed demo_world 2 type0 adj files demo_site n0 \<and> flight n0 = {#} \<and>
    net_step demo_world n0 n \<and> deployed demo_world 2 type0 adj files demo_site n \<and> up n = up n0 \<and>
    (\<forall>i s. up n0 i = Some s \<longrightarrow> formatted_time s = ''05:00'' \<and> set (head_client (clients s)) \<subseteq> {c}) \<and>
    simple_path 2 adj (\<lambda>j. j) 1 \<and> asking n 0 dst ''05:30'' c \<and>
    (\<forall>j\<le>1. server_ok (stop n (\<lambda>j. j) j) (E j)) \<and>
    legs_ok (stop n (\<lambda>j. j)) E 1 (query_msg (station_label 2 type0 0) dst ''05:30'')"
proof -
  note ro = assms(1) [unfolded rollout_def]
  let ?J = "draw_job rnd rand hour1 2 type0 adj k0" and ?q = "asked dst ''05:30''"
  let ?name = "station_label 2 type0" and ?links = "links 2 adj demo_site" and ?x = demo_site
  let ?cs = "add_client 7 ?q (add_query ?q init_clients)"
  have start: "\<exists>s ts. station_init (station_args [] (?name i) (s_tcp (?x i)) (s_udp (?x i)) (?links i))
      (Some (snd (files ! i))) None ''05:00'' (s_ip (?x i)) = Inr s \<and>
      server_ok s (map (trip_entry ?J i) ts) \<and> 2 \<le> length ts \<and> trips_ok ?J i 360 ts \<and> service_ok s" if "i < 2" for i
  proof -
    have "config_ok (s_tcp (?x i)) (s_udp (?x i)) (s_ip (?x i)) (?links i)"
      using sites_config [OF demo_sites_ok] ro that by blast
    from generated_station [OF _ _ that _ _ this, of rnd rand 6 hour1 type0 adj k0 files "[]" None "''05:00''"] ro
    show ?thesis by fastforce
  qed
  obtain s0 ts0 where s0: "station_init (station_args [] (?name 0) (s_tcp (?x 0)) (s_udp (?x 0)) (?links 0))
      (Some (snd (files ! 0))) None ''05:00'' (s_ip (?x 0)) = Inr s0"
    "server_ok s0 (map (trip_entry ?J 0) ts0)" "2 \<le> length ts0" "trips_ok ?J 0 360 ts0" "service_ok s0"
    using start [of 0] by auto
  obtain s1 ts1 where s1: "station_init (station_args [] (?name 1) (s_tcp (?x 1)) (s_udp (?x 1)) (?links 1))
      (Some (snd (files ! 1))) None ''05:00'' (s_ip (?x 1)) = Inr s1"
    "server_ok s1 (map (trip_entry ?J 1) ts1)" "service_ok s1"
    using start [of 1] by auto
  let ?s0 = "s0\<lparr>clients := ?cs\<rparr>" and ?E = "\<lambda>j::nat. if j = 0 then map (trip_entry ?J 0) ts0 else map (trip_entry ?J 1) ts1"
  define n0 where "n0 = \<lparr>up = [0 \<mapsto> ?s0, 1 \<mapsto> s1], flight = {#}\<rparr>"
  have cs: "service_ok ?s0" "ring_has ?cs (dst, ''05:30'')" "head_client ?cs = [c]"
  proof -
    have ok: "ring_ok init_clients" using init_clients_ok by (simp add: ring_ok_def clients_ok_def)
    show "ring_has ?cs (dst, ''05:30'')"
      using ring_has_add [OF ok, of ?q] by (simp add: ring_has_def search_query_def add_client_def query_key_def asked_def)
    show "head_client ?cs = [c]" by (simp add: add_client_def add_query_def init_clients_def c_def dst_def)
    show "service_ok ?s0"
      by (auto simp: service_ok_def clients_ok_def unanswered_def add_client_def add_query_def init_clients_def
          asked_def new_query_def dest: set_update_subset_insert [THEN subsetD])
  qed
  have up: "up n0 = [0 \<mapsto> ?s0, 1 \<mapsto> s1]" "stop n0 (\<lambda>j. j) 0 = ?s0" "stop n0 (\<lambda>j. j) 1 = s1"
    by (simp_all add: n0_def stop_def)
  have dep: "deployed demo_world 2 type0 adj files demo_site n0"
    unfolding deployed_def
  proof (intro conjI allI impI)
    fix i :: nat
    assume "i < 2"
    then consider "i = 0" | "i = 1" by linarith
    then show "\<exists>prog now s cs. station_init (station_args prog (?name i) (s_tcp (?x i)) (s_udp (?x i)) (?links i))
        (Some (snd (files ! i))) (stat_of demo_world i) now (s_ip (?x i)) = Inr s \<and>
        up n0 i = Some (s\<lparr>clients := cs\<rparr>) \<and> service_ok (s\<lparr>clients := cs\<rparr>)"
    proof cases
      case 1
      then show ?thesis using s0(1) cs(1) up(1) by (auto simp: demo_world_def)
    next
      case 2
      have "s1\<lparr>clients := clients s1\<rparr> = s1" by (cases s1) simp
      then have "station_init (station_args [] (?name i) (s_tcp (?x i)) (s_udp (?x i)) (?links i))
          (Some (snd (files ! i))) (stat_of demo_world i) ''05:00'' (s_ip (?x i)) = Inr s1 \<and>
          up n0 i = Some (s1\<lparr>clients := clients s1\<rparr>) \<and> service_ok (s1\<lparr>clients := clients s1\<rparr>)"
        using 2 s1(1,3) up(1) by (simp add: demo_world_def)
      then show ?thesis by blast
    qed
    from \<open>i < 2\<close> show "route demo_world (s_ip (?x i)) (s_udp (?x i)) = Some i" "benign (sys demo_world i)"
      using demo_benign by (auto simp: demo_world_def demo_site_def)
  qed (auto simp: up(1))
  have self: "\<not> at2 adj 0 0" using ro by (simp add: undirected_def)
  have "at2 adj 0 1"
  proof -
    have "{j. j < 2 \<and> at2 adj 0 j} \<noteq> {}" using degree_pos [of 2 adj 0] ro by (fastforce simp: degree_def filter_empty_conv)
    then show ?thesis using self by (auto simp: less_2_cases_iff)
  qed
  then have path: "simple_path 2 adj (\<lambda>j. j) 1" by (auto simp: simple_path_def)
  have E: "\<forall>j\<le>1. server_ok (stop n0 (\<lambda>j. j) j) (?E j)"
    using s0(2) s1(2) up(2,3) by (auto simp: server_ok_clients le_Suc_eq)
  note pa = rollout_path(1) [OF assms(1) dep path E]
  have "\<forall>c\<in>set (head_client (clients (stop n0 (\<lambda>j. j) 0))). ask_fits (stop n0 (\<lambda>j. j) 0) (c_query c)"
    using cs(3) up(2) label_token [of 2 type0 1] path_ends(2) [OF pa] label_token [of 2 type0 0]
    by (simp add: ask_fits_def c_def asked_def token_def)
  then obtain n where n: "net_step demo_world n0 n" "up n = up n0"
    "(local_ip ?s0, UDP_port ?s0, wire (query_msg (?name 0) dst ''05:30'')) \<in># flight n"
    using query_asked [OF pa, of c "''05:30''"] up(2) cs(3) by (auto simp: c_def dst_def asked_def)
  have st: "stop n = stop n0" using n(2) by (simp add: stop_def fun_eq_iff)
  have "first_departure (?E 0) ''05:30'' dst = int 0"
  proof -
    obtain j d a rest where t: "ts0 = (j, d, a) # rest" "rest \<noteq> []" using s0(3) by (cases ts0; cases "tl ts0") auto
    have j: "j < 2" "at2 adj 0 j" "360 \<le> d" "d < 1440"
      using s0(4) ro unfolding t trips_ok_def by (auto simp: draw_job_def)
    then have "j = 1" using self by (auto simp: less_2_cases_iff)
    moreover have "minutes (clock d) = d" using j(3,4) by (simp add: minutes_def timeToMinutes_clock in_int_def)
    moreover have "minutes ''05:30'' = 330" by code_simp
    ultimately show ?thesis
      unfolding first_departure_found using j(3) t by (simp add: serves_def trip_entry_def dst_def draw_job_def)
  qed
  moreover have "my_name s1 = dst"
    using path_place [OF pa, of 1] up(3) by (simp add: place_ok_def Let_def dst_def)
  ultimately have "legs_ok (stop n (\<lambda>j. j)) ?E 1 (query_msg (?name 0) dst ''05:30'')"
    unfolding st using up(3) by (intro direct_leg [of _ _ _ 0]) simp
  moreover have "asking n 0 dst ''05:30'' c"
    using n(2,3) cs path_ends(2) [OF pa] up by (auto simp: asking_def c_def dst_def)
  moreover have "deployed demo_world 2 type0 adj files demo_site n" using dep n(2) by (simp add: deployed_def)
  moreover have "flight n0 = {#}" by (simp add: n0_def)
  moreover have "\<forall>i s. up n0 i = Some s \<longrightarrow> formatted_time s = ''05:00'' \<and> set (head_client (clients s)) \<subseteq> {c}"
    using station_init_start [OF s0(1)] station_init_start [OF s1(1)] cs(3) up(1)
    by (auto simp: init_clients_def split: if_splits)
  moreover have "\<forall>j\<le>1. server_ok (stop n (\<lambda>j. j) j) (?E j)" unfolding st by (rule E)
  ultimately show ?thesis
    using dep n(1,2) path by (intro exI [of _ n0] exI [of _ n] exI [of _ ?E] conjI)
qed

section \<open>One run of the generator\<close>

lemma random_rollout:
  assumes "double_rounding rnd" and "2 \<le> N" and "N \<le> 676" and "atoi arg = int N" and "fair_pairs rand N 1"
    and "sites_ok N S"
  shows "\<exists>adj k files. main_random rnd rand (\<lambda>_. True) [prog, arg] = Some (Inr files) \<and>
    build_routes rand N 1 (new2D N) (new2D N) = Some (adj, k) \<and>
    rollout rnd rand 6 21 N (rand 0 mod 10) adj k files S"
  using main_random_result [OF assms(1-5), of prog] assms(1,3,6) unfolding rollout_def by fastforce

lemma two_stations:
  "double_rounding (\<lambda>v. v)" "(2::nat) \<le> 2" "(2::nat) \<le> 676" "atoi ''2'' = int 2" "fair_pairs demo_rand 2 1"
  "sites_ok 2 demo_site"
proof -
  show "atoi ''2'' = int 2" by (simp add: atoi_def) code_simp
qed (simp_all add: double_rounding_def demo_fair [simplified] demo_sites_ok)

lemma demo_type: "demo_rand 0 mod 10 = 1"
  by (simp add: demo_rand_def)

lemma demo_rollout:
  "\<exists>adj k files. main_random (\<lambda>v. v) demo_rand (\<lambda>_. True) [''buildrandomtimetables'', ''2''] = Some (Inr files) \<and>
    build_routes demo_rand 2 1 (new2D 2) (new2D 2) = Some (adj, k) \<and>
    rollout (\<lambda>v. v) demo_rand 6 21 2 1 adj k files demo_site"
  using random_rollout [OF two_stations, of "''buildrandomtimetables''"] unfolding demo_type .

end
