(* ===== verification/Robust.thy ===== *)
theory Robust
  imports Rounds Generated
begin

text \<open>
  Networks of generated stations satisfy the hypotheses of \<open>station_round\<close>, and with at most eleven
  stations all their messages fit the buffers, whatever the browsers ask for: the datagrams they fail on are
  queries for themselves, legs without a connection and answers to forgotten queries.
\<close>

section \<open>Generated networks are properly configured\<close>

lemma rollout_laid_out:
  assumes "rollout rnd rand hour0 hour1 N type0 adj k0 files S" and "deployed W N type0 adj files S n" and "flight n = {#}"
    and "\<forall>i s. up n i = Some s \<longrightarrow> clock_text (formatted_time s) \<and> asks_ok s"
  shows "laid_out W n"
proof -
  have i: "i < N" if "up n i = Some s" for i s using assms(2) that by (auto simp: deployed_def)
  have st: "\<exists>ts. station_of (draw_job rnd rand hour1 N type0 adj k0) type0 hour0 i (links N adj S i) (S i) ts s"
    if "up n i = Some s" for i s
    using deployed_station [OF assms(1,2) i [OF that]] that by auto
  have home: "route W (local_ip s) (UDP_port s) = Some i \<and> benign (sys W i) \<and>
      num_neighbours s = int (length (g_neighbours s))" if "up n i = Some s" for i s
    using st [OF that] assms(2) i [OF that] by (auto simp: station_of_def deployed_def)
  have "i = j" if up: "up n i = Some r" "up n j = Some s" and nm: "my_name r = my_name s" for i j r s
  proof -
    have "station_label N type0 i = station_label N type0 j"
      using st [OF up(1)] st [OF up(2)] nm by (auto simp: station_of_def draw_job_def)
    moreover have "N \<le> 676" using assms(1) by (simp add: rollout_def)
    ultimately show ?thesis using station_label_inj i [OF up(1)] i [OF up(2)] by blast
  qed
  with home assms(3,4) rollout_stations_ok [OF assms(1,2)] rollout_addressed [OF assms(1,2)] show ?thesis
    unfolding laid_out_def by blast
qed

section \<open>All messages fit\<close>

text \<open>Routes have short names, and a query counts its hops in \<open>current\<close>.\<close>

definition slim :: "msg \<Rightarrow> bool" where
  "slim m \<longleftrightarrow> list_all (\<lambda>x. length x \<le> 8) (m_routes m) \<and> (m_found m = 0 \<longrightarrow> m_current m = int (m_hops m))"

lemma slim_step:
  assumes "msg_step s es m m'" and "slim m" and "lean_entries es"
  shows "slim m'"
  using assms(1)
proof cases
  case arrive
  have "length (e_route (hd es)) \<le> 8"
    using lean_entry [OF assms(3), of 0] assms(3) by (auto simp: lean_entries_def hd_conv_nth)
  with arrive assms(2) show ?thesis by (simp add: slim_def arrive_msg_def back_msg_def)
next
  case depart
  have "nat (leg_row es (depart_msg es m)) < length es"
    using assms(3) first_departure_row by (simp add: leg_row_def lean_entries_def)
  from lean_entry [OF assms(3) this] depart assms(2) show ?thesis
    by (simp add: slim_def fill_msg_def Let_def list_all_update)
next
  case fill
  have "nat (leg_row es m) < length es"
    using assms(3) first_departure_row by (simp add: leg_row_def lean_entries_def)
  from lean_entry [OF assms(3) this] fill assms(2) show ?thesis
    by (simp add: slim_def fill_msg_def Let_def list_all_update)
qed (use assms(2) in \<open>auto simp: slim_def flood_msg_def back_msg_def\<close>)

text \<open>A sound message has at most as many hops as there are stations.\<close>

lemma sound_hops:
  assumes "sound_msg n m" and "dom (up n) = {..<N}"
  shows "m_hops m \<le> N"
proof -
  have sub: "set (m_stations m) \<subseteq> (\<lambda>i. my_name (the (up n i))) ` {..<N}"
  proof
    fix x
    assume "x \<in> set (m_stations m)"
    then obtain k where k: "k < m_hops m" "x = m_stations m ! k" by (auto simp: in_set_conv_nth m_hops_def)
    then obtain i s where "up n i = Some s" "x = my_name s"
      using sound_parts(5) [OF assms(1) k(1)] by (auto simp: housed_def)
    moreover from this have "i < N" using assms(2) by auto
    ultimately show "x \<in> (\<lambda>i. my_name (the (up n i))) ` {..<N}" by force
  qed
  have "m_hops m = card (set (m_stations m))"
    using assms(1) by (simp add: sound_msg_def m_hops_def distinct_card)
  also have "\<dots> \<le> card ((\<lambda>i. my_name (the (up n i))) ` {..<N})" by (rule card_mono [OF _ sub]) simp
  also have "\<dots> \<le> card {..<N}" by (rule card_image_le) simp
  finally show ?thesis by simp
qed

lemma sound_short:
  assumes "sound_msg n m" and "slim m" and "dom (up n) = {..<N}" and "N \<le> 11"
    and "\<forall>i s. up n i = Some s \<longrightarrow> lean_server s"
  shows "length (wire m) < MAXDATASIZE" and "m_hops m \<noteq> 0 \<Longrightarrow> room m"
proof -
  note m = sound_parts [OF assms(1)]
  have h: "m_hops m \<le> 11" using sound_hops [OF assms(1,3)] assms(4) by simp
  have hop: "length (m_stations m ! k) \<le> 10 \<and> length (m_address m ! k) \<le> 53" if "k < m_hops m" for k
    using m(5) [OF that] assms(5) by (auto simp: housed_def lean_server_def)
  have names: "list_all (\<lambda>x. length x \<le> 10) (m_stations m)" "list_all (\<lambda>x. length x \<le> 53) (m_address m)"
    using hop m(3) by (auto simp: list_all_length lens_def m_hops_def)
  have times: "list_all (\<lambda>x. length x \<le> 5) (m_time m)"
    using m(1) by (auto simp: wf_msg_def tokens_def token_def list_all_iff)
  have routes: "list_all (\<lambda>x. length x \<le> 8) (m_routes m)" using assms(2) by (simp add: slim_def)
  have nums: "0 \<le> m_found m" "m_found m < 10" "0 \<le> m_current m" "m_current m < 100" "m_hops m < 100"
    using m(4) assms(2) h by (auto simp: on_track_def slim_def)
  have fields: "length (m_destination m) \<le> 60" "length (m_start_time m) \<le> 5" "length (m_source m) \<le> 60"
    using m(1) by (auto simp: wf_msg_def token_def)
  have w: "length (wire m) \<le> 80 * m_hops m + length (m_source m) + 76"
    using short_wire [OF m(3) names routes times nums] fields by linarith
  with fields h show "length (wire m) < MAXDATASIZE" by simp
  show "room m" if "m_hops m \<noteq> 0"
  proof -
    have "length (m_source m) \<le> 10" using hop [of 0] m(6) [of 0] that by simp
    with w that show ?thesis by (simp add: room_def)
  qed
qed

lemma outgoing_room:
  assumes "sound_msg n m" and "slim m" and "dom (up n) = {..<N}" and "N \<le> 11"
    and "\<forall>i s. up n i = Some s \<longrightarrow> lean_server s" and "addressee m \<in> {None, Some (my_name s)}"
    and "m_found m = 0 \<longrightarrow> my_name s \<notin> set (m_stations m)" and "housed n (my_name s) (my_address s)"
    and "server_ok s es" and "lean_entries es" and "\<not> no_connection s es m"
    and "\<not> (m_found m = 0 \<and> m_destination m = my_name s \<and> m_source m = my_name s)"
  shows "room (outgoing s es m)"
proof (cases "m_found m = 3 \<and> m_source m = my_name s")
  case True
  then have "outgoing s es m = m\<lparr>m_found := 4\<rparr>" by (simp add: outgoing_def)
  moreover have "m_hops m \<noteq> 0" using sound_parts(4) [OF assms(1)] True by (auto simp: on_track_def)
  ultimately show ?thesis using sound_short(2) [OF assms(1-5)] True by (simp add: room_four)
next
  case False
  note step = sound_steps [OF assms(1,6,11,12) False]
  have "length (wire m) < MAXDATASIZE" by (rule sound_short(1) [OF assms(1-5)])
  then have "m_hops m < MAXDATASIZE" using hops_below_length [of m] by simp
  from sound_step [OF assms(1,6) step assms(9,8,7) this] have sound: "sound_msg n (outgoing s es m)" .
  have "m_hops (outgoing s es m) \<noteq> 0"
    using step by (auto elim!: msg_stepE simp: flood_msg_def arrive_msg_simps fill_msg_simps)
  then show ?thesis by (rule sound_short(2) [OF sound slim_step [OF step assms(2,10)] assms(3-5)])
qed

lemma slim_kept:
  assumes "rollout rnd rand hour0 hour1 N type0 adj k0 files S" and "deployed W N type0 adj files S n"
  shows "kept n slim" and "up n i = Some s \<Longrightarrow> lean_server s" and "up n i = Some s \<Longrightarrow> server_ok s es \<Longrightarrow> lean_entries es"
proof -
  let ?J = "draw_job rnd rand hour1 N type0 adj k0"
  note r = assms(1) [unfolded rollout_def]
  have lean: "lean_server s \<and> (server_ok s es \<longrightarrow> lean_entries es)" if up: "up n i = Some s" for i s es
  proof -
    have i: "i < N" using assms(2) up by (auto simp: deployed_def)
    obtain ts where ts: "station_of ?J type0 hour0 i (links N adj S i) (S i) ts s"
      using deployed_station [OF assms i] up by auto
    have "job_ok ?J" using r i by (intro draw_job_ok) auto
    moreover have "ip_ok (s_ip (S i))" "port_ok (s_udp (S i))" using r i by (auto simp: sites_ok_def)
    ultimately have "lean_server s \<and> lean_entries (map (trip_entry ?J i) ts)"
      using station_of_lean [OF ts] r by blast
    moreover have "es = map (trip_entry ?J i) ts" if "server_ok s es"
      using ts server_entries_unique [OF that] by (auto simp: station_of_def)
    ultimately show ?thesis by blast
  qed
  then show "up n i = Some s \<Longrightarrow> lean_server s" "up n i = Some s \<Longrightarrow> server_ok s es \<Longrightarrow> lean_entries es" by blast+
  have "slim (query_msg src d t)" for src d t by (simp add: slim_def query_msg_def m_hops_def)
  then show "kept n slim" using lean slim_step unfolding kept_def by (metis server_ok_clients)
qed

lemma rollout_verdict:
  assumes "rollout rnd rand hour0 hour1 N type0 adj k0 files S" and "deployed W N type0 adj files S n0"
    and "flight n0 = {#}" and "\<forall>i s. up n0 i = Some s \<longrightarrow> clock_text (formatted_time s) \<and> asks_ok s" and "N \<le> 11"
    and "calm W n0 n" and "up n i = Some s" and "server_ok s es"
    and "\<forall>d t. sel = Ready (UdpData d) t \<longrightarrow> (\<exists>h p. (h, p, d) \<in># flight n \<and> route W h p = Some i)"
  shows "\<exists>m. (\<forall>d t. sel = Ready (UdpData d) t \<longrightarrow> d = wire m \<and> sound_msg n0 m \<and>
      cause_of s es m \<in> {None, Some SelfQuery, Some NoConnection, Some QueryGone}) \<and>
    round_of W i sel s = turn es m sel s"
proof -
  note out = rollout_laid_out [OF assms(1-4)] and slim = slim_kept [OF assms(1,2)]
  obtain m where m: "\<forall>d t. sel = Ready (UdpData d) t \<longrightarrow>
      d = wire m \<and> sound_msg n0 m \<and> slim m \<and> addressee m \<in> {None, Some (my_name s)} \<and>
      (length d < MAXDATASIZE \<longrightarrow> m_found m = 0 \<longrightarrow> my_name s \<notin> set (m_stations m))"
    "round_of W i sel s = turn es m sel s"
    using calm_turn [OF assms(6) out assms(7,8) slim(1) assms(9)] by blast
  have dom: "dom (up n0) = {..<N}" using assms(2) by (simp add: deployed_def)
  have lean: "\<forall>i s. up n0 i = Some s \<longrightarrow> lean_server s" using slim(2) by blast
  have "comes_from n0 n"
    using network_fresh [OF calm_network [OF assms(6)]] out by (simp add: laid_out_def)
  note house = housed_self [OF this assms(7)]
  obtain s0 cs where s0: "up n0 i = Some s0" "s = s0\<lparr>clients := cs\<rparr>" using came_from [OF \<open>comes_from n0 n\<close> assms(7)] .
  have "server_ok s0 es" using assms(8) s0(2) by (simp add: server_ok_clients)
  then have es: "lean_entries es" by (rule slim(3) [OF s0(1)])
  have "cause_of s es m \<in> {None, Some SelfQuery, Some NoConnection, Some QueryGone}"
    if sel: "sel = Ready (UdpData d) t" for d t
  proof -
    have d: "d = wire m" "sound_msg n0 m" "slim m" "addressee m \<in> {None, Some (my_name s)}"
      "length d < MAXDATASIZE \<longrightarrow> m_found m = 0 \<longrightarrow> my_name s \<notin> set (m_stations m)"
      using m(1) sel by blast+
    note short = sound_short(1) [OF d(2,3) dom assms(5) lean]
    have "m_found m = 0 \<longrightarrow> my_name s \<notin> set (m_stations m)" using d(1,5) short by blast
    from outgoing_room [OF d(2,3) dom assms(5) lean d(4) this house assms(8) es] short show ?thesis
      by (auto simp: cause_of_def simp del: MAXDATASIZE_def)
  qed
  with m show ?thesis by blast
qed

section \<open>Property\<close>

text \<open>C3. What takes a generated station down while browsers are polite. \<open>buildrandomtimetables\<close>, run for at
  most eleven stations, ends with the files they read. Take a network of stations deployed on these files, and
  any \<open>calm\<close> network it gets to: one in whose states no browser waits for a destination with a blank
  in it. (A request without a time registers such a destination, and \<open>request_without_time\<close> shows the
  further failure it leads to, which this theorem does not cover.) In a calm network every round of every
  station is exactly \<open>turn\<close>. A datagram handed over carries a
  sound message, and fails the round in three cases only: the query asks for the very station it
  comes from, no row of the timetable serves the leg, or the answered query is no longer among the
  last 100. No message is ever too long for a buffer, however long the names browsers ask for. What
  else can fail is in \<open>turn\<close>: a request that overflows or does not scan, a waiting connection that has
  been closed, and the errors of the system calls.\<close>

theorem generated_failures:
  assumes "double_rounding rnd" and "2 \<le> N" and "N \<le> 11" and "atoi arg = int N" and "fair_pairs rand N 1"
    and "sites_ok N S"
  shows "\<exists>files adj k0. main_random rnd rand (\<lambda>_. True) [prog, arg] = Some (Inr files) \<and>
    build_routes rand N 1 (new2D N) (new2D N) = Some (adj, k0) \<and>
    (\<forall>W n0 n i s es sel. deployed W N (rand 0 mod 10) adj files S n0 \<longrightarrow> flight n0 = {#} \<longrightarrow>
       (\<forall>i s. up n0 i = Some s \<longrightarrow> clock_text (formatted_time s) \<and> asks_ok s) \<longrightarrow>
       calm W n0 n \<longrightarrow> up n i = Some s \<longrightarrow> server_ok s es \<longrightarrow>
       (\<forall>d t. sel = Ready (UdpData d) t \<longrightarrow> (\<exists>h p. (h, p, d) \<in># flight n \<and> route W h p = Some i)) \<longrightarrow>
       (\<exists>m. (\<forall>d t. sel = Ready (UdpData d) t \<longrightarrow> d = wire m \<and> sound_msg n0 m \<and>
            cause_of s es m \<in> {None, Some SelfQuery, Some NoConnection, Some QueryGone}) \<and>
          round_of W i sel s = turn es m sel s))"
proof -
  have "N \<le> 676" using assms(3) by simp
  then obtain adj k0 files where r: "main_random rnd rand (\<lambda>_. True) [prog, arg] = Some (Inr files)"
    "build_routes rand N 1 (new2D N) (new2D N) = Some (adj, k0)"
    "rollout rnd rand 6 21 N (rand 0 mod 10) adj k0 files S" using random_rollout [OF assms(1,2) _ assms(4-6)] by blast
  with rollout_verdict [OF r(3) _ _ _ assms(3)] show ?thesis by blast
qed

theorem generated_failures_witness:
  "\<exists>files n0 n h p m s es. main_random (\<lambda>v. v) demo_rand (\<lambda>_. True) [''buildrandomtimetables'', ''2''] = Some (Inr files) \<and>
    calm demo_world n0 n \<and> (h, p, wire m) \<in># flight n \<and> route demo_world h p = Some 0 \<and> up n 0 = Some s \<and>
    sound_msg n0 m \<and> cause_of s es m \<in> {None, Some SelfQuery, Some NoConnection, Some QueryGone} \<and>
    round_of demo_world 0 (Ready (UdpData (wire m)) NoTcp) s = turn es m (Ready (UdpData (wire m)) NoTcp) s"
proof -
  have few: "(2::nat) \<le> 11" by simp
  let ?c = "\<lparr>fd = 7, c_query = asked (station_label 2 1 1) ''05:30''\<rparr>"
  obtain files adj k0 where r: "main_random (\<lambda>v. v) demo_rand (\<lambda>_. True) [''buildrandomtimetables'', ''2''] = Some (Inr files)"
    "build_routes demo_rand 2 1 (new2D 2) (new2D 2) = Some (adj, k0)"
    and all: "\<And>W n0 n i s es sel. deployed W 2 1 adj files demo_site n0 \<Longrightarrow> flight n0 = {#} \<Longrightarrow>
       \<forall>i s. up n0 i = Some s \<longrightarrow> clock_text (formatted_time s) \<and> asks_ok s \<Longrightarrow>
       calm W n0 n \<Longrightarrow> up n i = Some s \<Longrightarrow> server_ok s es \<Longrightarrow>
       \<forall>d t. sel = Ready (UdpData d) t \<longrightarrow> (\<exists>h p. (h, p, d) \<in># flight n \<and> route W h p = Some i) \<Longrightarrow>
       \<exists>m. (\<forall>d t. sel = Ready (UdpData d) t \<longrightarrow> d = wire m \<and> sound_msg n0 m \<and>
            cause_of s es m \<in> {None, Some SelfQuery, Some NoConnection, Some QueryGone}) \<and>
          round_of W i sel s = turn es m sel s"
    using generated_failures [OF two_stations(1,2) few two_stations(4-6), of "''buildrandomtimetables''"]
    unfolding demo_type by auto
  have ro: "rollout (\<lambda>v. v) demo_rand 6 21 2 1 adj k0 files demo_site" using demo_rollout r by auto
  obtain n0 n where n: "deployed demo_world 2 1 adj files demo_site n0" "flight n0 = {#}" "net_step demo_world n0 n"
    "up n = up n0" "\<forall>i s. up n0 i = Some s \<longrightarrow> formatted_time s = ''05:00'' \<and> set (head_client (clients s)) \<subseteq> {?c}"
    "asking n 0 (station_label 2 1 1) ''05:30'' ?c"
    using demo_deployed [OF ro] by (elim exE conjE) (rule that)
  have clocks: "clock_text ''05:00''" "clock_text ''05:30''" by code_simp+
  have dst: "well_asked (station_label 2 1 1) ''05:30''" "CHR '' '' \<notin> set (station_label 2 1 1)"
    using label_token [of 2 1 1] clocks(2) by (simp_all add: well_asked_def token_def)
  have ask: "asks_ok s \<and> polite s" if up: "up n0 i = Some s" for i s
  proof -
    have "well_asked (q_destination (c_query c)) (q_start_time (c_query c)) \<and> CHR '' '' \<notin> set (q_destination (c_query c))"
      if c: "c \<in> set (head_client (clients s))" for c
    proof -
      have "c = ?c" using n(5) up c by blast
      then show ?thesis using dst by (simp add: asked_def)
    qed
    then show ?thesis by (simp add: asks_ok_def polite_def)
  qed
  with n(4,5) clocks(1) have cond: "\<forall>i s. up n0 i = Some s \<longrightarrow> clock_text (formatted_time s) \<and> asks_ok s"
    "\<forall>i s. up n0 i = Some s \<longrightarrow> polite s" "\<forall>i s. up n i = Some s \<longrightarrow> polite s" by auto
  have calm: "calm demo_world n0 n" by (rule calm.advance [OF calm.outset [OF cond(2)] n(3) cond(3)])
  obtain s where s: "up n 0 = Some s" "(local_ip s, UDP_port s, wire (query_msg (my_name s) (station_label 2 1 1) ''05:30'')) \<in># flight n"
    using n(6) by (auto simp: asking_def)
  have out: "laid_out demo_world n0" by (rule rollout_laid_out [OF ro n(1,2) cond(1)])
  have home: "route demo_world (local_ip s) (UDP_port s) = Some 0" "\<exists>es. server_ok s es"
    using laid_out_home(1,4) [OF out] s(1) n(4) by auto
  then obtain es where es: "server_ok s es" by blast
  let ?sel = "Ready (UdpData (wire (query_msg (my_name s) (station_label 2 1 1) ''05:30''))) NoTcp"
  have "\<forall>d t. ?sel = Ready (UdpData d) t \<longrightarrow> (\<exists>h p. (h, p, d) \<in># flight n \<and> route demo_world h p = Some 0)"
    using s(2) home(1) by blast
  from all [OF n(1,2) cond(1) calm s(1) es this]
  obtain m where "wire (query_msg (my_name s) (station_label 2 1 1) ''05:30'') = wire m" "sound_msg n0 m"
    "cause_of s es m \<in> {None, Some SelfQuery, Some NoConnection, Some QueryGone}"
    "round_of demo_world 0 ?sel s = turn es m ?sel s"
    by blast
  with r(1) calm s home(1) show ?thesis
    by (intro exI [of _ files] exI [of _ n0] exI [of _ n] exI [of _ "local_ip s"] exI [of _ "UDP_port s"]
        exI [of _ m] exI [of _ s] exI [of _ es]) simp
qed

end
