(* ===== verification/Answers.thy ===== *)
theory Answers
  imports Rounds Itinerary
begin

text \<open>
  What browsers are answered. \<open>told\<close> is what the messages in flight know of the timetables: every leg that has
  been filled in is the first row, of the timetable of the station it leaves from, that goes to the
  next station of the path and can be caught. It is kept by every step of the protocol, in every network
  of properly configured stations, so it holds of every answer, over whichever path it comes back.
\<close>

section \<open>What a message knows\<close>

definition leg_told :: "net \<Rightarrow> msg \<Rightarrow> nat \<Rightarrow> bool" where
  "leg_told n m j \<longleftrightarrow> (\<exists>i s es r. up n i = Some s \<and> server_ok s es \<and> m_stations m ! j = my_name s \<and>
     first_departure es (if j = 0 then m_start_time m else m_time m ! j) (m_stations m ! Suc j) = int r \<and>
     m_time m ! Suc j = e_arrival (es ! r) \<and> m_routes m ! Suc j = e_route (es ! r) \<and>
     (j = 0 \<longrightarrow> m_time m ! 0 = e_departure (es ! r)))"

lemma leg_toldI:
  assumes "up n i = Some s" and "server_ok s es" and "m_stations m ! j = my_name s"
    and "first_departure es (if j = 0 then m_start_time m else m_time m ! j) (m_stations m ! Suc j) = int r"
    and "m_time m ! Suc j = e_arrival (es ! r)" and "m_routes m ! Suc j = e_route (es ! r)"
    and "j = 0 \<Longrightarrow> m_time m ! 0 = e_departure (es ! r)"
  shows "leg_told n m j"
  using assms unfolding leg_told_def by blast

definition legs_known :: "msg \<Rightarrow> nat" where
  "legs_known m = (if m_found m = 2 then nat (m_current m - 1) else if m_found m = 3 then m_hops m - 1 else 0)"

definition told :: "net \<Rightarrow> msg \<Rightarrow> bool" where
  "told n m \<longleftrightarrow> (m_routes m = [] \<or> m_routes m ! 0 = ''...'') \<and> (m_found m \<noteq> 0 \<longrightarrow> 2 \<le> m_hops m) \<and>
     (minutes (m_start_time m) \<le> minutes ''99:99'' \<longrightarrow> (\<forall>j<legs_known m. leg_told n m j))"

lemma leg_told_cong:
  assumes "leg_told n m j" and "m_stations m' = m_stations m" and "m_start_time m' = m_start_time m"
    and "\<forall>i\<le>Suc j. m_time m' ! i = m_time m ! i \<and> m_routes m' ! i = m_routes m ! i"
  shows "leg_told n m' j"
proof -
  have "m_time m' ! 0 = m_time m ! 0" "m_time m' ! j = m_time m ! j" "m_time m' ! Suc j = m_time m ! Suc j"
    "m_routes m' ! Suc j = m_routes m ! Suc j" using assms(4) by simp_all
  with assms(1-3) show ?thesis unfolding leg_told_def by (simp only:)
qed

lemma told_query: "told n (query_msg src d t)"
  by (simp add: told_def query_msg_def legs_known_def)

lemma back_msg_routes [simp]: "m_routes (back_msg m) = m_routes m"
  by (simp add: back_msg_def)

lemma told_fill:
  assumes "up n i = Some s0" and "server_ok s0 es" and "m_stations m ! nat (m_current m - 1) = my_name s0"
    and "lens m" and "m_found m = 2" and "2 \<le> m_current m" and "m_current m < int (m_hops m)"
    and "leg_row es m = int r" and "told n m"
  shows "told n (fill_msg es m)"
proof -
  define c where "c = nat (m_current m)"
  have c: "m_current m = int c" "2 \<le> c" "c < m_hops m" "nat (m_current m - 1) = c - 1" "Suc (c - 1) = c"
    using assms(6,7) by (auto simp: c_def)
  have len: "c < length (m_time m)" "c < length (m_routes m)" using c(3) assms(4) by (simp_all add: lens_def)
  have known: "legs_known (fill_msg es m) = c" "legs_known m = c - 1"
    using assms(5) c by (simp_all add: legs_known_def fill_msg_simps)
  have lists: "m_time (fill_msg es m) = (m_time m)[c := e_arrival (es ! r)]"
    "m_routes (fill_msg es m) = (m_routes m)[c := e_route (es ! r)]"
    using assms(8) by (simp_all add: fill_msg_def Let_def c_def)
  have new: "leg_told n (fill_msg es m) (c - 1)"
  proof -
    have "first_departure es (m_time m ! (c - 1)) (m_stations m ! c) = int r"
      using assms(8) c(1,4) by (simp add: leg_row_def)
    with assms(3) c len show ?thesis
      by (intro leg_toldI [OF assms(1,2), where r = r]) (simp_all add: lists)
  qed
  have old: "leg_told n (fill_msg es m) j" if "j < c - 1" "leg_told n m j" for j
    by (rule leg_told_cong [OF that(2)]) (use that(1) in \<open>auto simp: lists\<close>)
  have "m_routes (fill_msg es m) = [] \<longleftrightarrow> m_routes m = []" "m_routes (fill_msg es m) ! 0 = m_routes m ! 0"
    using c(2) by (simp_all add: lists)
  moreover have "leg_told n (fill_msg es m) j"
    if "j < c" "minutes (m_start_time m) \<le> minutes ''99:99''" for j
    using new old [of j] that assms(9) known(2) by (cases "j = c - 1") (auto simp: told_def)
  ultimately show ?thesis using assms(9) known(1) assms(5) by (auto simp: told_def fill_msg_simps)
qed

lemma told_depart:
  assumes "up n i = Some s0" and "server_ok s0 es" and "m_stations m ! 0 = my_name s0"
    and "lens m" and "m_current m = 1" and "2 \<le> m_hops m"
    and "leg_row es (depart_msg es m) = int r" and "told n m"
  shows "told n (fill_msg es (depart_msg es m))"
proof -
  let ?d = "depart_msg es m"
  let ?e = "es ! r"
  have len: "0 < length (m_time m)" "1 < length (m_time m)" "1 < length (m_routes m)" using assms(4,6) by (simp_all add: lens_def)
  have lists: "m_time (fill_msg es ?d) = (m_time m)[0 := depart_time es m, 1 := e_arrival ?e]"
    "m_routes (fill_msg es ?d) = (m_routes m)[1 := e_route ?e]"
    "m_stations (fill_msg es ?d) = m_stations m" "m_start_time (fill_msg es ?d) = m_start_time m"
    using assms(5,7) by (simp_all add: fill_msg_def Let_def)
  have "leg_told n (fill_msg es ?d) 0" if "minutes (m_start_time m) \<le> minutes ''99:99''"
  proof -
    have "m_time m \<noteq> []" "leg_row es ?d \<noteq> - 1" using len assms(7) by auto
    note row = depart_row [OF this(2) that assms(5) this(1)]
    have "first_departure es (m_start_time m) (m_stations m ! 1) = int r" "depart_time es m = e_departure ?e"
      using row assms(7) by simp_all
    with assms(3) len show ?thesis
      by (intro leg_toldI [OF assms(1,2), where r = r]) (simp_all add: lists)
  qed
  moreover have "legs_known (fill_msg es ?d) = 1" using assms(5) by (simp add: legs_known_def fill_msg_simps)
  ultimately show ?thesis using assms(6,8) by (auto simp: told_def fill_msg_simps lists)
qed

lemma told_confirm:
  assumes "sound_msg n m" and "m_found m = 2" and "m_destination m = my_name s"
    and "m_stations m ! nat (m_current m - 1) = my_name s" and "1 \<le> m_current m" and "m_current m \<le> int (m_hops m)"
    and "told n m"
  shows "told n (back_msg (m\<lparr>m_found := 3\<rparr>))"
proof -
  have "on_track m" by (rule sound_parts [OF assms(1)])
  then have "m_stations m ! (m_hops m - 1) = my_name s" using assms(2,3) by (simp add: on_track_def)
  moreover have "distinct (m_stations m)" using assms(1) by (simp add: sound_msg_def)
  ultimately have "nat (m_current m - 1) = m_hops m - 1"
    using assms(4-6) nth_eq_iff_index_eq [of "m_stations m" "nat (m_current m - 1)" "m_hops m - 1"]
    by (simp add: m_hops_def)
  then have known: "legs_known m = m_hops m - 1" using assms(2) by (simp add: legs_known_def)
  have "leg_told n (back_msg (m\<lparr>m_found := 3\<rparr>)) j" if "leg_told n m j" for j
    by (rule leg_told_cong [OF that]) simp_all
  with assms(2,7) known show ?thesis by (auto simp: told_def legs_known_def)
qed

lemma told_step:
  assumes "sound_msg n m" and "told n m" and "addressee m \<in> {None, Some (my_name s)}" and "msg_step s es m m'"
    and "up n i = Some s0" and "server_ok s0 es" and "my_name s = my_name s0"
  shows "told n m'"
proof -
  note m = sound_parts [OF assms(1)]
  from assms(4) show ?thesis
  proof cases
    case flood
    then show ?thesis using assms(2) by (auto simp: told_def legs_known_def flood_msg_def nth_append)
  next
    case arrive
    then have "m_routes m \<noteq> []" using m(3) by (auto simp: lens_def)
    with arrive assms(2) show ?thesis
      by (auto simp: told_def legs_known_def arrive_msg_def nth_append m_hops_def Suc_le_eq)
  next
    case pass_back
    have "leg_told n (back_msg m) j" if "leg_told n m j" for j
      by (rule leg_told_cong [OF that]) simp_all
    with pass_back assms(2) show ?thesis by (auto simp: told_def legs_known_def)
  next
    case depart
    have f: "m_found m \<noteq> 0" using depart by simp
    note at = at_holder [OF assms(1,3) f]
    have "m_current m = 1" using at depart by simp
    moreover from this have "m_stations m ! 0 = my_name s0" using at(4) assms(7) by simp
    moreover have "2 \<le> m_hops m" using assms(2) f by (simp add: told_def)
    moreover have "leg_row es (depart_msg es m) = int (nat (leg_row es (depart_msg es m)))"
      by (rule leg_row_nat [OF depart(6)])
    ultimately have "told n (fill_msg es (depart_msg es m))"
      using told_depart [OF assms(5,6) _ m(3) _ _ _ assms(2)] by blast
    then show ?thesis unfolding depart(1) .
  next
    case fill
    have f: "m_found m \<noteq> 0" using fill by simp
    note at = at_holder [OF assms(1,3) f]
    have "m_stations m ! nat (m_current m - 1) = my_name s0" using at(4) assms(7) by (rule trans)
    moreover have "2 \<le> m_current m" using at(7) fill(2) by blast
    moreover have "leg_row es m = int (nat (leg_row es m))" by (rule leg_row_nat [OF fill(6)])
    ultimately have "told n (fill_msg es m)"
      using told_fill [OF assms(5,6) _ m(3) fill(2) _ fill(5) _ assms(2)] by blast
    then show ?thesis unfolding fill(1) .
  next
    case confirm
    have f: "m_found m \<noteq> 0" using confirm by simp
    note at = at_holder [OF assms(1,3) f]
    show ?thesis using told_confirm [OF assms(1)] at confirm assms(2) by simp
  qed
qed

lemma kept_told: "kept n (told n)"
  unfolding kept_def
proof (intro conjI allI impI)
  fix i s cs es m m'
  assume a: "up n i = Some s" "server_ok s es" "sound_msg n m" "told n m"
    "addressee m \<in> {None, Some (my_name s)}" "msg_step (s\<lparr>clients := cs\<rparr>) es m m'"
  have name: "my_name (s\<lparr>clients := cs\<rparr>) = my_name s" by (simp add: my_name_def)
  show "told n m'" by (rule told_step [OF a(3,4) _ a(6,1,2) name]) (use a(5) in \<open>simp only: name\<close>)
qed (rule told_query)

section \<open>The trip an answer tells\<close>

text \<open>The station of hop \<open>j\<close>, its timetable and the row taken there, on a path of \<open>k\<close> legs.\<close>

definition hop_told :: "net \<Rightarrow> msg \<Rightarrow> nat \<Rightarrow> nat \<Rightarrow> server \<times> entry list \<times> nat \<Rightarrow> bool" where
  "hop_told n m k j x \<longleftrightarrow> (case x of (s, es, r) \<Rightarrow>
     (j \<le> k \<longrightarrow> (\<exists>i. up n i = Some s) \<and> server_ok s es \<and> m_stations m ! j = my_name s) \<and>
     (j < k \<longrightarrow> first_departure es (if j = 0 then m_start_time m else m_time m ! j) (m_stations m ! Suc j) = int r \<and>
        m_time m ! Suc j = e_arrival (es ! r) \<and> m_routes m ! Suc j = e_route (es ! r) \<and>
        (j = 0 \<longrightarrow> m_time m ! 0 = e_departure (es ! r))))"

lemma hop_told_exists:
  assumes "sound_msg n m" and "stations_ok W n" and "m_hops m = Suc k" and "\<And>j. j < k \<Longrightarrow> leg_told n m j"
  shows "\<exists>x. hop_told n m k j x"
proof -
  consider "j < k" | "j = k" | "k < j" by linarith
  then show ?thesis
  proof cases
    case 1
    from assms(4) [OF 1] obtain i s es r where "up n i = Some s" "server_ok s es" "m_stations m ! j = my_name s"
      "first_departure es (if j = 0 then m_start_time m else m_time m ! j) (m_stations m ! Suc j) = int r"
      "m_time m ! Suc j = e_arrival (es ! r)" "m_routes m ! Suc j = e_route (es ! r)"
      "j = 0 \<longrightarrow> m_time m ! 0 = e_departure (es ! r)"
      unfolding leg_told_def by blast
    then have "hop_told n m k j (s, es, r)" by (simp only: hop_told_def prod.case) blast
    then show ?thesis by (rule exI)
  next
    case 2
    then obtain i s where s: "up n i = Some s" "m_stations m ! j = my_name s"
      using sound_parts(5) [OF assms(1), of j] assms(3) by (auto simp: housed_def)
    then obtain es where "server_ok s es" using assms(2) by (auto simp: stations_ok_def station_ok_def)
    with s 2 have "hop_told n m k j (s, es, 0)" by (auto simp: hop_told_def)
    then show ?thesis by (rule exI)
  next
    case 3
    then show ?thesis by (auto simp: hop_told_def)
  qed
qed

text \<open>One choice for all hops.\<close>

lemma told_trip:
  assumes "sound_msg n m" and "stations_ok W n" and "told n m" and "m_found m = 3"
    and "minutes (m_start_time m) \<le> minutes ''99:99''" and "m_hops m = Suc k"
  shows "\<exists>S E c. (\<forall>j\<le>k. (\<exists>i. up n i = Some (S j)) \<and> server_ok (S j) (E j)) \<and>
    tells S E k c m \<and> first_rides S E k (m_start_time m) c"
proof -
  have legs: "leg_told n m j" if "j < k" for j
    using assms(3-6) that by (simp add: told_def legs_known_def)
  have "\<forall>j. \<exists>x. hop_told n m k j x" using hop_told_exists [OF assms(1,2,6) legs] by blast
  then obtain X where X: "\<forall>j. hop_told n m k j (X j)" by (rule choice [THEN exE])
  define S E c where def: "S = fst \<circ> X" "E = fst \<circ> snd \<circ> X" "c = snd \<circ> snd \<circ> X"
  have hop: "hop_told n m k j (S j, E j, c j)" for j using X by (simp add: def)
  have place: "(\<exists>i. up n i = Some (S j)) \<and> server_ok (S j) (E j)" "m_stations m ! j = my_name (S j)" if "j \<le> k" for j
    using hop [of j] that by (simp_all add: hop_told_def)
  have leg: "first_departure (E j) (if j = 0 then m_start_time m else m_time m ! j) (my_name (S (Suc j))) = int (c j)"
    "m_time m ! Suc j = e_arrival (E j ! c j)" "m_routes m ! Suc j = e_route (E j ! c j)"
    "j = 0 \<Longrightarrow> m_time m ! 0 = e_departure (E j ! c j)" if "j < k" for j
    using hop [of j] that place(2) [of "Suc j"] by (simp_all add: hop_told_def)
  have "first_rides S E k (m_start_time m) c"
    unfolding first_rides_def
  proof (intro allI impI)
    fix j
    assume j: "j < k"
    show "first_departure (E j) (ready E (m_start_time m) c j) (my_name (S (Suc j))) = int (c j)"
      using leg(1) [OF j] leg(2) [of "j - 1"] j by (cases j) simp_all
  qed
  moreover have "tells S E k c m"
  proof -
    have k: "1 \<le> k" using assms(3,4,6) by (simp add: told_def)
    have len: "length (m_stations m) = Suc k" "length (m_time m) = Suc k" "length (m_routes m) = Suc k"
      using sound_parts(3) [OF assms(1)] assms(6) by (simp_all add: lens_def m_hops_def)
    have "m_stations m = map (\<lambda>j. my_name (S j)) [0..<Suc k]"
      using place(2) by (intro nth_equalityI) (simp_all add: len del: upt_Suc)
    moreover have "m_time m = e_departure (E 0 ! c 0) # map (\<lambda>j. e_arrival (E j ! c j)) [0..<k]"
    proof (rule nth_equalityI)
      fix i
      assume "i < length (m_time m)"
      then show "m_time m ! i = (e_departure (E 0 ! c 0) # map (\<lambda>j. e_arrival (E j ! c j)) [0..<k]) ! i"
        using leg(2) [of "i - 1"] leg(4) [of 0] k by (cases i) (simp_all add: len)
    qed (simp add: len)
    moreover have "m_routes m = ''...'' # map (\<lambda>j. e_route (E j ! c j)) [0..<k]"
    proof (rule nth_equalityI)
      fix i
      assume "i < length (m_routes m)"
      then show "m_routes m ! i = (''...'' # map (\<lambda>j. e_route (E j ! c j)) [0..<k]) ! i"
        using leg(3) [of "i - 1"] assms(3) len(3) by (cases i) (auto simp: told_def)
    qed (simp add: len)
    ultimately show ?thesis by (simp add: tells_def)
  qed
  ultimately show ?thesis using place(1) by blast
qed

text \<open>Only a confirmed route at its source makes the datagram handler send to a browser.\<close>

lemma reaction_answers:
  assumes "reaction s es m = Inr (s', ev)" and "TcpSend f a \<in> set ev"
  shows "m_found m = 3 \<and> m_source m = my_name s \<and> a = wire (m\<lparr>m_found := 4\<rparr>) \<and>
    f \<in> set (waiting (clients s) (asked (m_destination m) (m_start_time m)))"
proof -
  have none: "cause_of s es m = None" using assms(1) by (cases "cause_of s es m") (simp_all add: reaction_def)
  show ?thesis
  proof (cases "m_found m = 3 \<and> m_source m = my_name s")
    case True
    then have "outgoing s es m = m\<lparr>m_found := 4\<rparr>" by (simp add: outgoing_def)
    with True assms none show ?thesis by (auto simp: reaction_def Let_def)
  next
    case False
    then have "ev = flood_events s m \<or> ev = [to_hop (outgoing s es m)]"
      using assms(1) none by (auto simp: reaction_def split: if_splits)
    with assms(2) show ?thesis by (auto simp: flood_events_def to_hop_def Let_def)
  qed
qed

section \<open>A run of two stations\<close>

lemma calm_hand_over:
  assumes "calm W n0 \<lparr>up = u, flight = {#(h, p, d)#}\<rparr>" and "route W h p = Some i" and "u i = Some s"
    and "round_of W i (Ready (UdpData d) NoTcp) s = Inr (s, [UdpSend h' p' d'])"
  shows "calm W n0 \<lparr>up = u, flight = {#(h', p', d')#}\<rparr>"
proof (rule calm.advance [OF assms(1)])
  show "net_step W \<lparr>up = u, flight = {#(h, p, d)#}\<rparr> \<lparr>up = u, flight = {#(h', p', d')#}\<rparr>"
    by (rule net_step.deliver [OF steady_delivery [of W h p i u s d, OF assms(2-4)]])
  show "\<forall>i s. up \<lparr>up = u, flight = {#(h', p', d')#}\<rparr> i = Some s \<longrightarrow> polite s"
    using calm_polite [OF assms(1)] by simp
qed

lemma demo_line_laid_out: "laid_out demo_world demo_line"
proof -
  have up: "up demo_line = [0 \<mapsto> demo_stop 0, 1 \<mapsto> demo_stop 1]" by (simp add: demo_line_def demo_stop_def)
  have "server_ok (demo_stop 0) demo_entries" "server_ok (demo_stop 1) demo_entries" "service_ok (demo_stop 0)"
    "service_ok (demo_stop 1)" "get_file_mtime None \<le> latest_time (demo_stop 0)"
    "get_file_mtime None \<le> latest_time (demo_stop 1)"
    by code_simp+
  then have "stations_ok demo_world demo_line"
    by (auto simp: stations_ok_def station_ok_def up demo_world_def split: if_splits)
  moreover have "addressed demo_world demo_line"
  proof -
    have "addr_and_port (nb (''10.0.0.1'', ''4002'')) = my_address (demo_stop 1)"
      "addr_and_port (nb (''10.0.0.1'', ''4004'')) = my_address (demo_stop 0)"
      "my_address (demo_stop 1) \<noteq> my_address (demo_stop 0)"
      "g_neighbours (demo_stop 0) = [nb (''10.0.0.1'', ''4002'')]"
      "g_neighbours (demo_stop 1) = [nb (''10.0.0.1'', ''4004'')]"
      "udp_port (nb (''10.0.0.1'', ''4002'')) = ''4002''" "udp_port (nb (''10.0.0.1'', ''4004'')) = ''4004''"
      by code_simp+
    then show ?thesis unfolding addressed_def by (auto simp: up demo_world_def split: if_splits)
  qed
  moreover have "UDP_port (demo_stop 0) = ''4004''" "UDP_port (demo_stop 1) = ''4002''"
    "num_neighbours (demo_stop 0) = int (length (g_neighbours (demo_stop 0)))"
    "num_neighbours (demo_stop 1) = int (length (g_neighbours (demo_stop 1)))"
    "clock_text (formatted_time (demo_stop 0))" "clock_text (formatted_time (demo_stop 1))"
    "list_all (\<lambda>c. well_asked (q_destination (c_query c)) (q_start_time (c_query c))) (head_client (clients (demo_stop 0)))"
    "head_client (clients (demo_stop 1)) = []" "my_name (demo_stop 0) \<noteq> my_name (demo_stop 1)"
    by code_simp+
  moreover have "flight demo_line = {#}" by (simp add: demo_line_def)
  ultimately show ?thesis
    using demo_benign unfolding laid_out_def
    by (auto simp: up demo_world_def asks_ok_def list_all_iff split: if_splits)
qed

lemma demo_line_run:
  "calm demo_world demo_line \<lparr>up = up demo_line, flight = {#(''10.0.0.1'', ''4004'', wire (demo_trip 3 1 ''06:02''))#}\<rparr>"
proof -
  let ?n = "\<lambda>p m. \<lparr>up = up demo_line, flight = {#(''10.0.0.1'', p, wire m)#}\<rparr>"
  have up: "up demo_line = [0 \<mapsto> demo_stop 0, 1 \<mapsto> demo_stop 1]" by (simp add: demo_line_def demo_stop_def)
  have "list_all (\<lambda>c. CHR '' '' \<notin> set (q_destination (c_query c))) (head_client (clients (demo_stop 0)))"
    "head_client (clients (demo_stop 1)) = []"
    by code_simp+
  then have polite: "\<forall>i s. up demo_line i = Some s \<longrightarrow> polite s"
    by (auto simp: up polite_def list_all_iff split: if_splits)
  have "loop_step demo_os None None (Timeout (\<lambda>_. True)) (demo_stop 0) =
      Inr (demo_stop 0, [UdpSend ''10.0.0.1'' ''4004'' (wire demo_query_msg)])" by code_simp
  then have "net_step demo_world demo_line \<lparr>up = (up demo_line)(0 \<mapsto> demo_stop 0),
      flight = flight demo_line + datagrams [UdpSend ''10.0.0.1'' ''4004'' (wire demo_query_msg)]\<rparr>"
    by (intro net_step.idle_round [of _ 0 "demo_stop 0" "Timeout (\<lambda>_. True)"])
      (simp_all add: up demo_world_def no_datagram_def)
  moreover have "(up demo_line)(0 \<mapsto> demo_stop 0) = up demo_line" by (auto simp: up)
  ultimately have "net_step demo_world demo_line (?n ''4004'' demo_query_msg)"
    by (simp add: datagrams_def demo_line_def)
  then have start: "calm demo_world demo_line (?n ''4004'' demo_query_msg)"
    using polite by (intro calm.advance [OF calm.outset [OF polite]]) simp_all
  have r: "loop_step demo_os None None (Ready (UdpData (wire demo_query_msg)) NoTcp) (demo_stop 0) =
      Inr (demo_stop 0, [UdpSend ''10.0.0.1'' ''4002'' (wire (flood_msg (demo_stop 0) demo_query_msg))])"
    "loop_step demo_os None None (Ready (UdpData (wire (flood_msg (demo_stop 0) demo_query_msg))) NoTcp) (demo_stop 1) =
      Inr (demo_stop 1, [UdpSend ''10.0.0.1'' ''4004'' (wire (demo_trip 1 1 ''...''))])"
    "loop_step demo_os None None (Ready (UdpData (wire (demo_trip 1 1 ''...''))) NoTcp) (demo_stop 0) =
      Inr (demo_stop 0, [UdpSend ''10.0.0.1'' ''4002'' (wire (demo_trip 2 2 ''06:02''))])"
    "loop_step demo_os None None (Ready (UdpData (wire (demo_trip 2 2 ''06:02''))) NoTcp) (demo_stop 1) =
      Inr (demo_stop 1, [UdpSend ''10.0.0.1'' ''4004'' (wire (demo_trip 3 1 ''06:02''))])"
    by code_simp+
  from start have "calm demo_world demo_line (?n ''4002'' (flood_msg (demo_stop 0) demo_query_msg))"
    by (rule calm_hand_over [where i = 0 and s = "demo_stop 0"]) (simp_all add: up r [unfolded One_nat_def] demo_world_def)
  then have "calm demo_world demo_line (?n ''4004'' (demo_trip 1 1 ''...''))"
    by (rule calm_hand_over [where i = 1 and s = "demo_stop 1"]) (simp_all add: up r [unfolded One_nat_def] demo_world_def)
  then have "calm demo_world demo_line (?n ''4002'' (demo_trip 2 2 ''06:02''))"
    by (rule calm_hand_over [where i = 0 and s = "demo_stop 0"]) (simp_all add: up r [unfolded One_nat_def] demo_world_def)
  then show ?thesis
    by (rule calm_hand_over [where i = 1 and s = "demo_stop 1"]) (simp_all add: up r [unfolded One_nat_def] demo_world_def)
qed

section \<open>Property\<close>

text \<open>C6. Every answer tells the best trip along its path. Take properly configured stations, whose
  browsers ask for names of one word, and any network they get to. When the datagram handler of a
  station sends a browser anything, it is the route of a confirmed message, from this station to the
  destination the browser waits for; and if it was asked for a time up to 99:99, as every time of at
  most two digits each is, the message tells, station by station, rides of the stations' timetables
  that can be caught one after the other from that time on. When no row of these timetables is overtaken by a
  later one to the same station, every other choice of such rides along the path arrives at each
  station no earlier. It need not be the best path: the first route that comes back is the answer.\<close>

theorem answers_earliest:
  assumes "calm W n0 n" and "laid_out W n0" and "(h, p, d) \<in># flight n" and "route W h p = Some i"
    and "up n i = Some s" and "udp_handler (sys W i) s d = Inr (s', ev)" and "TcpSend f a \<in> set ev"
  shows "\<exists>m. d = wire m \<and> sound_msg n0 m \<and> a = wire (m\<lparr>m_found := 4\<rparr>) \<and>
    f \<in> set (waiting (clients s) (asked (m_destination m) (m_start_time m))) \<and>
    (minutes (m_start_time m) \<le> minutes ''99:99'' \<longrightarrow> (\<exists>k S E c. 1 \<le> k \<and>
       (\<forall>j\<le>k. (\<exists>i. up n0 i = Some (S j)) \<and> server_ok (S j) (E j)) \<and>
       my_name (S 0) = my_name s \<and> my_name (S k) = m_destination m \<and>
       tells S E k c m \<and> rides S E k (m_start_time m) c \<and>
       (\<forall>c'. rides S E k (m_start_time m) c' \<longrightarrow> (\<forall>j<k. no_overtaking (E j)) \<longrightarrow>
          (\<forall>j<k. minutes (e_arrival (E j ! c j)) \<le> minutes (e_arrival (E j ! c' j))))))"
proof -
  have "stations_ok W n"
    using network_fresh [OF calm_network [OF assms(1)]] assms(2) by (simp add: laid_out_def)
  then obtain es where "server_ok s es" using assms(5) by (auto simp: stations_ok_def station_ok_def)
  from calm_verdict [OF assms(1-5) this kept_told]
  obtain m where m: "d = wire m" "sound_msg n0 m" "told n0 m" "udp_handler (sys W i) s d = reaction s es m" by blast
  note ans = reaction_answers [OF m(4) [symmetric, unfolded assms(6)] assms(7)]
  have "2 \<le> m_hops m" using m(3) ans by (simp add: told_def)
  then obtain k where k: "m_hops m = Suc k" "1 \<le> k" by (cases "m_hops m") auto
  have ends: "m_stations m ! 0 = my_name s" "m_stations m ! k = m_destination m"
    using sound_parts(4,6) [OF m(2)] ans k by (auto simp: on_track_def)
  have "\<exists>k S E c. 1 \<le> k \<and> (\<forall>j\<le>k. (\<exists>i. up n0 i = Some (S j)) \<and> server_ok (S j) (E j)) \<and>
      my_name (S 0) = my_name s \<and> my_name (S k) = m_destination m \<and>
      tells S E k c m \<and> rides S E k (m_start_time m) c \<and>
      (\<forall>c'. rides S E k (m_start_time m) c' \<longrightarrow> (\<forall>j<k. no_overtaking (E j)) \<longrightarrow>
         (\<forall>j<k. minutes (e_arrival (E j ! c j)) \<le> minutes (e_arrival (E j ! c' j))))"
    if start: "minutes (m_start_time m) \<le> minutes ''99:99''"
  proof -
    obtain S E c where t: "\<forall>j\<le>k. (\<exists>i. up n0 i = Some (S j)) \<and> server_ok (S j) (E j)" "tells S E k c m"
      "first_rides S E k (m_start_time m) c"
      using told_trip [OF m(2) laid_out_stations [OF assms(2)] m(3) _ start k(1)] ans by blast
    have "my_name (S 0) = my_name s" "my_name (S k) = m_destination m"
      using t(2) ends by (simp_all add: tells_def nth_append del: upt_Suc)
    with t k(2) first_rides_rides [OF t(3)] first_rides_earliest [OF t(3)] show ?thesis by blast
  qed
  with m(1,2) ans show ?thesis by blast
qed

theorem answers_earliest_witness:
  "\<exists>n m k S E c. calm demo_world demo_line n \<and> (''10.0.0.1'', ''4004'', wire m) \<in># flight n \<and>
     m = demo_trip 3 1 ''06:02'' \<and> 1 \<le> k \<and> my_name (S 0) = ''JunctionC'' \<and> my_name (S k) = ''TerminalR'' \<and>
     tells S E k c m \<and> rides S E k ''05:30'' c"
proof -
  let ?m = "demo_trip 3 1 ''06:02''"
  let ?n = "\<lparr>up = up demo_line, flight = {#(''10.0.0.1'', ''4004'', wire ?m)#}\<rparr>"
  have "case udp_handler demo_os (demo_stop 0) (wire ?m) of
      Inl e \<Rightarrow> False | Inr (s', ev) \<Rightarrow> TcpSend 7 (wire (demo_trip 4 1 ''06:02'')) \<in> set ev"
    by code_simp
  then obtain s' ev where h: "udp_handler (sys demo_world 0) (demo_stop 0) (wire ?m) = Inr (s', ev)"
    "TcpSend 7 (wire (demo_trip 4 1 ''06:02'')) \<in> set ev"
    by (auto simp: demo_world_def split: sum.splits)
  have at: "(''10.0.0.1'', ''4004'', wire ?m) \<in># flight ?n" "route demo_world ''10.0.0.1'' ''4004'' = Some 0"
    "up ?n 0 = Some (demo_stop 0)"
    by (simp_all add: demo_world_def demo_line_up)
  obtain m where m: "wire ?m = wire m" "sound_msg demo_line m"
    "minutes (m_start_time m) \<le> minutes ''99:99'' \<longrightarrow> (\<exists>k S E c. 1 \<le> k \<and>
       my_name (S 0) = my_name (demo_stop 0) \<and> my_name (S k) = m_destination m \<and>
       tells S E k c m \<and> rides S E k (m_start_time m) c)"
    using answers_earliest [OF demo_line_run demo_line_laid_out at h] by blast
  have "wf_msg ?m" by code_simp
  then have "m = ?m" using load_wire_cstr load_struct_unique sound_parts(1) [OF m(2)] m(1) by (metis sum.inject(2))
  moreover have "minutes (m_start_time ?m) \<le> minutes ''99:99''" "m_start_time ?m = ''05:30''"
    "m_destination ?m = ''TerminalR''" "my_name (demo_stop 0) = ''JunctionC''" by code_simp+
  ultimately show ?thesis using m(3) demo_line_run at(1) by (intro exI [of _ ?n] exI [of _ ?m]) simp
qed

end
