(* ===== verification/Outage.thy ===== *)
theory Outage
  imports Rounds
begin

text \<open>
  What a request without a time does to the station that serves it. The destination of such a request
  runs on through the protocol version, so that it has a blank in it, and the query that the next
  timeout prints with it has one field too many. The station that receives the query is the station
  itself, and it overruns \<open>start_time\<close>.
\<close>

section \<open>A datagram with one field too many\<close>

lemma load_header_numbers:
  assumes "in_int f" and "in_int h" and "in_int c"
  shows "load_header (dec f @ CHR '' '' # dec h @ CHR '' '' # dec c @ CHR '' '' # r) = Inr (f, h, Some c)"
proof -
  have nd: "\<not> isdigit CHR '' ''" by (simp add: isdigit_iff)
  show ?thesis using assms by (simp add: load_header_def sscanf_int sscanf_space_dec nd del: sscanf.simps(3-6))
qed

lemma skip_blank: "CHR '' '' \<notin> set x \<Longrightarrow> x \<noteq> [] \<Longrightarrow> next_token '' '' (x @ CHR '' '' # r) = Inr (x, r)"
  unfolding next_token_def by (subst strtok_token) auto

lemma load_too_long:
  assumes "x \<noteq> []" and "CHR '' '' \<notin> set x" and "length x < MAX_NAME_LENGTH"
    and "y \<noteq> []" and "CHR '' '' \<notin> set y" and "length y < MAX_NAME_LENGTH"
    and "CHR '';'' \<notin> set r" and "MAX_TIMESTRING \<le> length r"
  shows "load_payload (''0 0 0 '' @ x @ '' '' @ y @ '' '' @ r @ '';'') = Inl BufferOverflow"
proof -
  let ?s = "dec 0 @ CHR '' '' # dec 0 @ CHR '' '' # dec 0 @ CHR '' '' # x @ CHR '' '' # y @ CHR '' '' # r @ '';''"
  have head: "load_header ?s = Inr (0, 0, Some 0)"
    by (rule load_header_numbers) (simp_all add: in_int_def)
  have rest: "snd (strtok '' '' (snd (strtok '' '' (snd (strtok '' '' ?s))))) = x @ CHR '' '' # y @ CHR '' '' # r @ '';''"
    by (simp only: skip_number)
  have one: "c_int (0 + 1) = Inr 1" by (simp add: c_int_def in_int_def)
  have none: "load_fields k 0 st = Inr st" for k st by (simp add: load_fields_def)
  have ends: "load_last MAX_NAME_LENGTH '' '' (x @ CHR '' '' # u) = Inr (x, u)"
    "load_last MAX_NAME_LENGTH '' '' (y @ CHR '' '' # u) = Inr (y, u)" for u
    using assms(1-6) by (simp_all add: load_last_def skip_blank fit_def)
  have "r \<noteq> []" using assms(8) by auto
  then have "next_token '';'' (r @ '';'') = Inr (r, [])"
    unfolding next_token_def using assms(7) by (subst strtok_token) auto
  then have last: "load_last MAX_TIMESTRING '';'' (r @ '';'') = Inl BufferOverflow"
    using assms(8) by (simp add: load_last_def fit_def)
  have "load_payload ?s = Inl BufferOverflow"
    unfolding load_payload_def head rest bindR_Inr prod.case Let_def
    by (simp add: none ends last one [simplified] del: MAX_NAME_LENGTH_def MAX_TIMESTRING_def)
  then show ?thesis by (simp add: dec_zero)
qed

section \<open>The request, the timeout and the datagram\<close>

lemma request_of_no_time:
  assumes "r \<noteq> []" and "CHR ''&'' \<notin> set r"
  shows "request_of now (''GET /?to='' @ r) = (if 61 \<le> length r then Inl BufferOverflow else Inr (Some (r, now)))"
proof -
  have "takeWhile (\<lambda>c. c \<noteq> CHR ''&'') r = r" using assms(2) by (intro takeWhile_all) auto
  moreover have "after ''GET /?to='' (''GET /?to='' @ r) = Some r" by (simp add: after.simps isspace_def)
  moreover have "after ''&time='' [] = None" by (simp add: after.simps isspace_def)
  ultimately show ?thesis using assms(1) by (simp only: request_of_def option.case Let_def) simp
qed

lemma reception_no_time:
  assumes "r \<noteq> []" and "CHR ''&'' \<notin> set r" and "NUL \<notin> set r" and "length (''GET /?to='' @ r) < MAXDATASIZE"
    and "0 \<le> shut"
  shows "reception s a (RecvBytes (''GET /?to='' @ r)) shut =
    (if 61 \<le> length r then Inl BufferOverflow
     else Inr (s\<lparr>clients := enlist r (formatted_time s) (new_connection a) (clients s)\<rparr>,
       [TcpSend (new_connection a) (HTTP_200_RESPONSE @ CRLF @ HTML_200_MESSAGE)]))"
proof -
  have "NUL \<notin> set (''GET /?to='' @ r)" using assms(3) by (simp add: NUL_def)
  then have id: "cstr (''GET /?to='' @ r) = ''GET /?to='' @ r" by (rule cstr_id)
  have all: "take MAXDATASIZE (''GET /?to='' @ r) = ''GET /?to='' @ r" using assms(4) by simp
  show ?thesis
    unfolding reception_def received.case Let_def all id request_of_no_time [OF assms(1,2)]
    using assms(4,5) by simp
qed

text \<open>The extra field and the name of the station stand where the start time should.\<close>

lemma too_long_query:
  assumes "x \<noteq> []" and "CHR '' '' \<notin> set x" and "y \<noteq> []" and "hd y \<noteq> CHR '' ''" and "CHR '';'' \<notin> set y"
    and "length (x @ '' '' @ y) < 61" and "CHR '';'' \<notin> set n" and "CHR '';'' \<notin> set t" and "length t = 5"
  shows "load_payload (''0 0 0 '' @ (x @ '' '' @ y) @ '' '' @ n @ '' '' @ t @ '';'') = Inl BufferOverflow"
proof -
  define w where "w = takeWhile (\<lambda>c. c \<noteq> CHR '' '') y"
  define r where "r = drop 1 (dropWhile (\<lambda>c. c \<noteq> CHR '' '') (y @ '' '' @ n @ '' '' @ t))"
  have split: "y @ '' '' @ n @ '' '' @ t = w @ '' '' @ r"
  proof -
    have "dropWhile (\<lambda>c. c \<noteq> CHR '' '') (y @ CHR '' '' # z) = CHR '' '' # drop 1 (dropWhile (\<lambda>c. c \<noteq> CHR '' '') (y @ CHR '' '' # z))" for z
      by (induction y) auto
    moreover have "takeWhile (\<lambda>c. c \<noteq> CHR '' '') (y @ CHR '' '' # z) = w" for z
      unfolding w_def by (induction y) auto
    ultimately show ?thesis unfolding r_def using takeWhile_dropWhile_id [of "\<lambda>c. c \<noteq> CHR '' ''" "y @ '' '' @ n @ '' '' @ t"]
      by (metis append_Cons append_Nil)
  qed
  have "w \<noteq> []" using assms(3,4) by (cases y) (auto simp: w_def)
  moreover have blank: "CHR '' '' \<notin> set w" by (auto simp: w_def dest: set_takeWhileD)
  moreover have "length w \<le> length y" by (simp add: w_def length_takeWhile_le)
  moreover have "length w + length r = length y + length n + 6"
    using arg_cong [OF split, of length] assms(9) by simp
  moreover have "CHR '';'' \<notin> set r"
    unfolding r_def using assms(5,7,8) by (auto dest!: in_set_dropD set_dropWhileD)
  ultimately have "load_payload (''0 0 0 '' @ x @ '' '' @ w @ '' '' @ r @ '';'') = Inl BufferOverflow"
    using assms(1,2,6) by (intro load_too_long) simp_all
  moreover have "(x @ '' '' @ y) @ '' '' @ n @ '' '' @ t @ '';'' = x @ '' '' @ w @ '' '' @ r @ '';''"
    using arg_cong [OF split, of "\<lambda>u. u @ '';''"] by simp
  ultimately show ?thesis by (simp only:)
qed

lemma demo_station_name:
  assumes "station_init demo_argv (Some demo_file) (Some 5) ''09:00'' ''10.0.0.1'' = Inr s"
  shows "my_name s = ''JunctionC''"
proof -
  have "(case station_init demo_argv (Some demo_file) (Some 5) ''09:00'' ''10.0.0.1'' of
      Inl _ \<Rightarrow> False | Inr s \<Rightarrow> my_name s = ''JunctionC'')"
    by code_simp
  then show ?thesis by (simp add: assms)
qed

section \<open>Property\<close>

text \<open>C37. A request that names a place and no time takes the station that serves it down, in every
  reachable state whose timetable file is not newer. The station's clock reads \<open>hh:mm\<close>, its name has no
  semicolon and no NUL, and the request is shorter than the receive buffer. The place \<open>x\<close> is followed by
  one blank and by any text \<open>y\<close>, such as the protocol version; neither has an ampersand, a semicolon or a NUL.
  From 61 characters on, \<open>x\<close> and \<open>y\<close> overrun the buffer of the destination at once. Else the browser is
  told to wait and the clock of the station is taken for the time, but \<open>y\<close> stays part of the
  destination: a timeout with all connections open then sends the station itself a query with a field
  too many, and when the station reads it the rest of it overruns \<open>start_time\<close>.\<close>

theorem request_without_time:
  fixes b :: int
  assumes "reachable os s" and "clock_text (formatted_time s)" and "length (formatted_time s) = 5" and "benign os"
    and "get_file_mtime stat \<le> latest_time s" and "0 \<le> shut"
    and "CHR '';'' \<notin> set (my_name s)" and "NUL \<notin> set (my_name s)"
    and "x \<noteq> []" and "CHR '' '' \<notin> set x" and "y \<noteq> []" and "hd y \<noteq> CHR '' ''"
    and "set (x @ y) \<inter> {CHR ''&'', CHR '';'', NUL} = {}" and "length (''GET /?to='' @ x @ '' '' @ y) < MAXDATASIZE"
  defines "asks_it \<equiv> Ready NoUdp (TcpConn b (RecvBytes (''GET /?to='' @ x @ '' '' @ y)) shut)"
    and "d \<equiv> ''0 0 0 '' @ (x @ '' '' @ y) @ '' '' @ my_name s @ '' '' @ formatted_time s @ '';''"
  shows "if 61 \<le> length (x @ '' '' @ y) then loop_step os stat f asks_it s = Inl BufferOverflow
    else \<exists>s1 ev. loop_step os stat f asks_it s =
        Inr (s1, [TcpSend (new_connection b) (HTTP_200_RESPONSE @ CRLF @ HTML_200_MESSAGE)]) \<and>
      loop_step os stat f (Timeout (\<lambda>_. True)) s1 = Inr (s1, UdpSend (local_ip s) (UDP_port s) d # ev) \<and>
      loop_step os stat f (Ready (UdpData d) t) s1 = Inl BufferOverflow"
proof -
  let ?q = "x @ '' '' @ y" and ?page = "HTTP_200_RESPONSE @ CRLF @ HTML_200_MESSAGE"
  let ?s1 = "s\<lparr>clients := enlist ?q (formatted_time s) (new_connection b) (clients s)\<rparr>"
  note name = reachable_name [OF assms(1)]
  have plain: "CHR ''&'' \<notin> set ?q" "NUL \<notin> set ?q" using assms(13) by (auto simp: NUL_def)
  have "tcp_handler s b (RecvBytes (''GET /?to='' @ ?q)) shut = reception s b (RecvBytes (''GET /?to='' @ ?q)) shut"
    using reachable_ok [OF assms(1)] assms(2) name by (intro tcp_is_reception) (simp_all add: service_ok_def)
  also have "\<dots> = (if 61 \<le> length ?q then Inl BufferOverflow else Inr (?s1, [TcpSend (new_connection b) ?page]))"
    by (rule reception_no_time [OF _ plain assms(14,6)]) simp
  finally have "tcp_handler s b (RecvBytes (''GET /?to='' @ ?q)) shut =
      (if 61 \<le> length ?q then Inl BufferOverflow else Inr (?s1, [TcpSend (new_connection b) ?page]))" .
  then have serve: "loop_step os stat f asks_it s =
      (if 61 \<le> length ?q then Inl BufferOverflow else Inr (?s1, [TcpSend (new_connection b) ?page]))"
    unfolding asks_it_def loop_step_same [OF assms(5)] by (simp add: serve_udp_def serve_tcp_def)
  show ?thesis
  proof (cases "61 \<le> length ?q")
    case True
    with serve show ?thesis by simp
  next
    case False
    with serve have first: "loop_step os stat f asks_it s = Inr (?s1, [TcpSend (new_connection b) ?page])" by simp
    with assms(1) have s1: "reachable os ?s1" by (rule reachable.step)
    have late: "get_file_mtime stat \<le> latest_time ?s1" using assms(5) by simp
    have "\<forall>c\<in>set (head_client (clients ?s1)). ask_fits ?s1 (c_query c)"
      using reachable_asks_ok [OF s1] assms(2) reachable_name [OF s1]
      by (auto simp: asks_ok_def well_asked_def ask_fits_def clock_text_def)
    from walk_is_reminders [OF reachable_ok [OF s1] assms(4) this, of "\<lambda>_. True"]
    have "timeout_walk os (\<lambda>_. True) ?s1 0 = Inr (?s1, map (ask_event ?s1) (head_client (clients ?s1)))"
      by (simp add: reminders_def list_all_iff)
    moreover have "\<exists>cs. head_client (clients ?s1) = \<lparr>fd = new_connection b, c_query = asked ?q (formatted_time s)\<rparr> # cs"
      by (simp add: enlist_def add_client_def)
    moreover have "ask_event ?s1 \<lparr>fd = new_connection b, c_query = asked ?q (formatted_time s)\<rparr> =
        UdpSend (local_ip s) (UDP_port s) d"
      by (simp add: ask_event_def wire_def ask_msg_def m_hops_def dec_zero spaced_Cons asked_def my_name_def d_def)
    ultimately have second: "\<exists>ev. loop_step os stat f (Timeout (\<lambda>_. True)) ?s1 =
        Inr (?s1, UdpSend (local_ip s) (UDP_port s) d # ev)"
      unfolding loop_step_same [OF late] by auto
    have "length d < MAXDATASIZE" using False name assms(3) by (simp add: d_def)
    moreover have "NUL \<notin> set d" using assms(2,8,13) by (auto simp: d_def clock_text_def NUL_def)
    moreover have "load_payload d = Inl BufferOverflow"
      unfolding d_def using assms(2,3,7,9-13) False by (intro too_long_query) (auto simp: clock_text_def)
    ultimately have "udp_handler os ?s1 d = Inl BufferOverflow"
      by (simp add: udp_handler_def cstr_id checkR_def)
    then have "loop_step os stat f (Ready (UdpData d) t) ?s1 = Inl BufferOverflow"
      unfolding loop_step_same [OF late] by (simp add: serve_udp_def)
    with first second False show ?thesis by auto
  qed
qed

theorem request_without_time_witness:
  "\<exists>s s1 d ev. reachable demo_os s \<and>
    loop_step demo_os (Some 5) None (Ready NoUdp (TcpConn 11 (RecvBytes demo_get) 0)) s =
      Inr (s1, [TcpSend 11 (HTTP_200_RESPONSE @ CRLF @ HTML_200_MESSAGE)]) \<and>
    d = ''0 0 0 BusportC HTTP/1.1 JunctionC 09:00;'' \<and>
    loop_step demo_os (Some 5) None (Timeout (\<lambda>_. True)) s1 = Inr (s1, UdpSend (local_ip s) (UDP_port s) d # ev) \<and>
    loop_step demo_os (Some 5) None (Ready (UdpData d) NoTcp) s1 = Inl BufferOverflow"
proof -
  obtain s where s: "station_init demo_argv (Some demo_file) (Some 5) ''09:00'' ''10.0.0.1'' = Inr s" "reachable demo_os s"
    using demo_reachable by blast
  then have now: "formatted_time s = ''09:00''" "latest_time s = 5"
    by (auto simp: station_init_def get_file_mtime_def elim!: bindR_InrE)
  let ?d = "''0 0 0 BusportC HTTP/1.1 JunctionC 09:00;''"
  have "clock_text (formatted_time s)" "length (formatted_time s) = 5" "get_file_mtime (Some 5) \<le> latest_time s"
    using now demo_clock by (simp_all add: get_file_mtime_def)
  moreover note demo_station_name [OF s(1)]
  ultimately obtain s1 ev where
    "loop_step demo_os (Some 5) None (Ready NoUdp (TcpConn 11 (RecvBytes demo_get) 0)) s =
      Inr (s1, [TcpSend 11 (HTTP_200_RESPONSE @ CRLF @ HTML_200_MESSAGE)])"
    "loop_step demo_os (Some 5) None (Timeout (\<lambda>_. True)) s1 = Inr (s1, UdpSend (local_ip s) (UDP_port s) ?d # ev)"
    "loop_step demo_os (Some 5) None (Ready (UdpData ?d) NoTcp) s1 = Inl BufferOverflow"
    using request_without_time [OF s(2) _ _ demo_benign, of "Some 5" 0 "''BusportC''" "''HTTP/1.1''" None 11 NoTcp] now s(2)
    by (auto simp: demo_get_def new_connection_def NUL_def)
  with s(2) show ?thesis by blast
qed

end
