(* ===== verification/Spec2Isabelle.thy ===== *)
theory Spec2Isabelle
  imports Robust Answers Outage
begin

text \<open>
  A network of bus and train stations. Every station is one process running \<open>src/main.c\<close>: it
  reads its own timetable file, knows the addresses of its neighbours, takes requests of browsers
  over TCP, and finds routes by exchanging UDP datagrams with the other stations. Two programs
  under \<open>src/files\<close> draw networks and write the timetable files the stations read.

  \<^bold>\<open>How the parts interact.\<close> A browser asks for a destination (\<open>GET /?to=X&time=HH-MM\<close>);
  \<open>tcp_handler\<close> answers with a waiting page and registers the connection and the query with the
  client component. When \<open>select\<close> times out, \<open>timeout_walk\<close> sends every registered query to the
  station itself. \<open>udp_handler\<close> loads a datagram with the payload component and acts on its \<open>found\<close>
  field: a query that is not yet found is flooded to the neighbours not visited yet; at its
  destination it turns round and goes back hop by hop; at its source it gets a departure and is
  sent along the recorded hops a second time, each station filling in the first connection its
  timetable offers; at the destination it is confirmed and goes back again, and the source sends it
  to every browser that waits for it.

  \<^bold>\<open>Theories, in the order they build on each other.\<close>

  \<^item> \<open>Prelude\<close>: outcomes of C functions (\<open>res\<close>: a value, or one of the errors of \<open>c_error\<close>, among them
    every undefined behaviour the code can run into), 32-bit range of \<open>int\<close>, character buffers.
  \<^item> \<open>CLib\<close>: the functions of the C library the program calls, as executable functions on strings:
    \<open>strtok\<close>, \<open>sscanf\<close> with the formats used, decimal printing, \<open>fgets\<close>.
  \<^item> \<open>Macros\<close>: \<open>src/macros/macros.h\<close>, and well-formed addresses.
  \<^item> \<open>Payload\<close>: \<open>src/payload\<close>. The structure \<open>payload\<close> with its arrays; \<open>craft_payload\<close>, \<open>load_payload\<close>,
    \<open>get_ip_port\<close>. The abstract value is the record \<open>msg\<close>, related by \<open>denotes\<close>; the locale
    \<open>payload_codec\<close> is the contract the handler uses.
  \<^item> \<open>Timetable\<close>: \<open>src/timetable\<close>. The file reader with its growing array, the neighbour arguments, the
    search, the reload. The abstract value is a list of \<open>entry\<close>, related by \<open>shows_table\<close>; the locale
    \<open>departure_search\<close> is the contract of the search.
  \<^item> \<open>Client\<close>: \<open>src/client\<close>. The linked list of waiting connections and the ring of the last 100
    queries; locales \<open>waiting_list\<close> and \<open>query_store\<close>.
  \<^item> \<open>Sockets\<close>: \<open>src/server\<close>. The socket helpers as functions of the system calls, which are the
    fields of the record \<open>os\<close>.
  \<^item> \<open>Server\<close>: \<open>src/main.c\<close>. The record \<open>server\<close> is the state \<open>main\<close> keeps; one definition per block of
    \<open>main\<close>: \<open>station_init\<close>, \<open>open_sockets\<close>, \<open>udp_handler\<close> with a definition per phase, \<open>tcp_handler\<close>,
    \<open>timeout_walk\<close>, and \<open>loop_step\<close>, one round of the loop.
  \<^item> \<open>Handler\<close>, \<open>Phases\<close>: the datagram handler against an abstract specification on messages
    (\<open>flood_msg\<close>, \<open>arrive_msg\<close>, \<open>back_msg\<close>, \<open>depart_msg\<close>, \<open>fill_msg\<close>), one refinement theorem per phase;
    \<open>room\<close> says when the buffer \<open>craft_payload\<close> allocates holds a message, and each theorem what
    happens when it does not.
  \<^item> \<open>Service\<close>: the station as a long-running process: the invariant of every reachable state, the
    browser requests, the timeout, the delivery of an answer, the start-up.
  \<^item> \<open>Protocol\<close>: the step relation \<open>msg_step\<close> on messages; whatever bytes a station receives, it sends
    only messages that are one such step further (\<open>udp_simulates\<close>). Every step lowers the measure
    \<open>msg_weight\<close>.
  \<^item> \<open>Network\<close>: the record \<open>world\<close> (stations and datagrams in flight) and its step relations \<open>delivery\<close>
    and \<open>net_step\<close>: a station handles a datagram that is in flight, or datagrams get lost. Order is
    arbitrary. The locale \<open>shrinking_flight\<close> is what termination needs of the stations.
  \<^item> \<open>Journey\<close>: the whole life of a query along a path of stations, composed from the phases.
  \<^item> \<open>Liveness\<close>: such a query is answered in every run. \<open>sparing\<close> are the deliveries that treat the path's
    stations well, \<open>full_run\<close> the runs that stop only when no step is left; the locale \<open>progress\<close> extends
    \<open>shrinking_flight\<close> by what must stay true until the goal.
  \<^item> \<open>Requests\<close>: the browser's request, the next timeout and the answer, in one theorem.
  \<^item> \<open>Browsers\<close>: what bytes browsers can send: whatever they are, a request that is accepted registers a destination
    that fits its buffer and a time of day.
  \<^item> \<open>Failures\<close>: progress and preservation. \<open>sound_msg\<close> is what holds of every message in flight between properly
    configured stations (\<open>laid_out\<close>); on such a message the datagram handler is the function \<open>reaction\<close>, which
    fails for the causes \<open>cause_of\<close> names and no others.
  \<^item> \<open>Rounds\<close>: the round of the loop as one function. \<open>request_of\<close> is the grammar of the browsers' requests,
    \<open>reception\<close> all that serving a browser does, \<open>reminders\<close> the timeout and \<open>turn\<close> the whole round. The code
    computes them in every reachable state, and in every network of properly configured stations.
  \<^item> \<open>Itinerary\<close>: what a path's stations fill in are rides of their timetables that can be caught, the earliest
    along the path.
  \<^item> \<open>Answers\<close>: the same of every answer that any station of a calm network sends, over whichever path the message
    came back. \<open>told\<close> is what the messages in flight know of the timetables.
  \<^item> \<open>Outage\<close>: a request without a time, which takes the station that serves it down.
  \<^item> \<open>Builder\<close>, \<open>Generator\<close>: \<open>buildrandomtimetables.c\<close> and \<open>buildlinetimetables.c\<close>, with Warshall's
    algorithm, the random and the linear network, and the files written.
  \<^item> \<open>Deployment\<close>: a station started on a generated file (\<open>generated_station\<close>).
  \<^item> \<open>Generated\<close>, and this theory: a network of stations, all started on the files of one run of the
    generator (\<open>rollout\<close>, \<open>deployed\<close>), satisfies the hypotheses of the theorems on networks; \<open>Robust\<close> does
    the same for those of \<open>Failures\<close> and \<open>Rounds\<close>.

  \<^bold>\<open>What the lemmas show.\<close> Memory safety of the reader and exactness of the bounds of the writer; round
  trips between structures and texts for messages, timetable files and addresses; the functional
  behaviour of each phase; the invariant of the loop; that a network cannot hand over datagrams for
  ever, that with consistent addresses a query visits no station twice, and that along a path with
  connections the browser is answered in every run; that every answer sent in a calm network tells the earliest rides
  along its own path, which need not be the best path; that the rounds of the stations of a calm network are
  one function, and that the stations, of a generated network in particular, go down on datagrams for the listed causes only
  as long as no browser waits for a destination with a blank in it; that drawing a network ends and connects it, and that
  what it writes is read back by the stations, whose network then has all these properties. Where the code has no defined behaviour or does
  not do what it means to, a theorem states the input and the outcome (\<open>udp_self_query\<close>,
  \<open>udp_no_connection\<close>, \<open>udp_evicted_query\<close>, \<open>timeout_exact\<close>, \<open>parse_request_exact\<close>,
  \<open>parse_request_no_time\<close>, \<open>request_without_time\<close>, \<open>loop_keeps_row_count\<close>, \<open>start_never_clean\<close>,
  and the lemmas \<open>flood_echoes\<close>, \<open>search_skips_last_row\<close>, \<open>readneighbours_overflow\<close>,
  \<open>craft_payload_undersized\<close>).

  \<^bold>\<open>Parameters and assumptions.\<close>

  \<^item> What \<open>select\<close>, \<open>recvfrom\<close>, \<open>accept\<close>, \<open>recv\<close> and the clock deliver is input to \<open>loop_step\<close>. A system call
    in \<open>os\<close> answers the same way each time it is made with the same arguments. \<open>malloc\<close>, \<open>calloc\<close>,
    \<open>realloc\<close> and \<open>strdup\<close> succeed.
  \<^item> In a \<open>world\<close> the system hands a datagram to the station that \<open>route\<close> names for its address; it may
    lose any. The theorems on networks take the timetable files as not changing while they run.
  \<^item> The theorems on failures and on answers are about \<open>calm\<close> networks: browsers wait for names of one word only
    (\<open>polite\<close>), and the clock a station was started at reads as a time of day. A blank in a destination
    shifts the fields of the message; \<open>request_without_time\<close> shows how a request brings one about.
  \<^item> The states of a station are those reached from the end of \<open>station_init\<close> (lines 81 to 109 of \<open>main\<close>) by
    rounds of the loop (\<open>reachable\<close>, \<open>deployed\<close>). The sockets, lines 116 to 119, are \<open>open_sockets\<close>, which the
    reachable states skip: \<open>start_never_clean\<close> shows that it never completes with defined behaviour, so the
    theorems on the loop are about systems on which the read of freed memory does no harm.
  \<^item> The calls \<open>get_ip_port(pload, .., --pload.current)\<close> copy the structure and change it without an order between
    the two. They are taken as defined; \<open>get_ip_port\<close> does not read \<open>current\<close>, so the order does not matter.
  \<^item> \<open>atoi\<close> is not cut to 32 bits (the theorems use at most 676), \<open>%.4f\<close> rounds half
    up, and the field \<open>name\<close> of a neighbour, which no code reads or writes, is left out.
  \<^item> The generators' \<open>rand\<close> is an arbitrary sequence; that drawing ends is proved for sequences in
    which every pair of stations keeps coming (\<open>fair_pairs\<close>). \<open>double\<close> arithmetic is rational
    arithmetic followed by a rounding that is monotone and exact on integers of up to 53 bits
    (\<open>double_rounding\<close>).

  \<^bold>\<open>Bounds.\<close> No function has fuel. Loops that may not end are partial functions into \<open>option\<close>: the
  bind loop of \<open>setup_UDP\<close> (\<open>None\<close> when it tries the same address for ever) and the two drawing loops
  (\<open>build_routes\<close> and \<open>departures\<close>, whose termination is proved). A message never exceeds
  \<open>MAXDATASIZE\<close> bytes on the wire, so the number of hops and the measure of the network's
  termination are bounded by it. The names and times of generated networks are short, so that the
  messages of a trip of up to eleven legs fit (80 bytes a hop), and in networks of up to eleven stations all
  messages do. The \<open>int\<close> arithmetic of message fields is checked against 32 bits.

  \<^bold>\<open>Not modelled.\<close> \<open>src/server.py\<close>, a second implementation in Python; the shell scripts, the sample
  data and the build file; what is printed to the terminal, except where printing reads memory;
  signals beyond what \<open>signal_handler\<close> does. The functions the two generators share word for word are
  modelled once.
\<close>

section \<open>Networks on generated files\<close>

text \<open>C2. The whole system. Take any sequence of random numbers in which all pairs keep coming, and any admissible,
  distinct sites. Then \<open>buildrandomtimetables\<close> ends with files for \<open>N\<close> stations, between any two of which there is a
  path in the matrix \<open>build_routes\<close> drew, and no bus of a station is overtaken by a later one to the same station. Start every station on its file with the stations the matrix links it to as its
  neighbours. When a browser's query for a way along a path of at most eleven legs is in flight, and each
  leg has a connection in the timetable, then in every run that goes on for as long as it can and
  spares the stations of the path, the browser is sent the text of a route found for its query. The bound on the
  legs is what the stations' 1024-byte buffers hold whatever the addresses; for networks of up to twelve
  stations it is no restriction.\<close>

theorem generated_query_answered:
  assumes "double_rounding rnd" and "2 \<le> N" and "N \<le> 676" and "atoi arg = int N" and "fair_pairs rand N 1"
    and "sites_ok N S"
  shows "\<exists>files adj k0. main_random rnd rand (\<lambda>_. True) [prog, arg] = Some (Inr files) \<and>
    build_routes rand N 1 (new2D N) (new2D N) = Some (adj, k0) \<and>
    (\<forall>a<N. \<forall>b<N. a \<noteq> b \<longrightarrow> (\<exists>is k. simple_path N adj is k \<and> is 0 = a \<and> is k = b)) \<and>
    (\<forall>W n i s es. deployed W N (rand 0 mod 10) adj files S n \<longrightarrow> up n i = Some s \<longrightarrow> server_ok s es \<longrightarrow> no_overtaking es) \<and>
    (\<forall>W is k E t c f. let label = \<lambda>j. station_label N (rand 0 mod 10) (is j) in
       deployed W N (rand 0 mod 10) adj files S (f 0) \<longrightarrow> simple_path N adj is k \<longrightarrow> k \<le> 11 \<longrightarrow> clock_text t \<longrightarrow>
       (\<forall>j\<le>k. server_ok (stop (f 0) is j) (E j)) \<longrightarrow>
       legs_ok (stop (f 0) is) E k (query_msg (label 0) (label k) t) \<longrightarrow>
       asking (f 0) (is 0) (label k) t c \<longrightarrow> full_run W (is ` {..k}) f \<longrightarrow>
       (\<exists>i. answered W (is 0) c (f i) (f (Suc i))))"
proof -
  obtain adj k0 files where r: "main_random rnd rand (\<lambda>_. True) [prog, arg] = Some (Inr files)"
    "build_routes rand N 1 (new2D N) (new2D N) = Some (adj, k0)"
    "rollout rnd rand 6 21 N (rand 0 mod 10) adj k0 files S" using random_rollout [OF assms] by blast
  have "\<forall>a<N. \<forall>b<N. a \<noteq> b \<longrightarrow> (\<exists>is k. simple_path N adj is k \<and> is 0 = a \<and> is k = b)"
    using connected_path r(3) by (simp add: rollout_def)
  then show ?thesis
    using r(1,2) rollout_answered [OF r(3)] rollout_no_overtaking [OF r(3)]
    by (intro exI [of _ files] exI [of _ adj] exI [of _ k0]) (simp add: Let_def)
qed

theorem generated_query_answered_witness:
  "\<exists>files f c. main_random (\<lambda>v. v) demo_rand (\<lambda>_. True) [''buildrandomtimetables'', ''2''] = Some (Inr files) \<and>
    full_run demo_world {0, 1} f \<and> asking (f 0) 0 (station_label 2 1 1) ''05:30'' c \<and>
    (\<exists>i. answered demo_world 0 c (f i) (f (Suc i)))"
proof -
  let ?c = "\<lparr>fd = 7, c_query = asked (station_label 2 1 1) ''05:30''\<rparr>" and ?is = "\<lambda>j::nat. j"
  obtain files adj k0 where r: "main_random (\<lambda>v. v) demo_rand (\<lambda>_. True) [''buildrandomtimetables'', ''2''] = Some (Inr files)"
    "build_routes demo_rand 2 1 (new2D 2) (new2D 2) = Some (adj, k0)"
    and all: "\<And>W is k E t c f. let label = \<lambda>j. station_label 2 1 (is j) in
       deployed W 2 1 adj files demo_site (f 0) \<longrightarrow> simple_path 2 adj is k \<longrightarrow> k \<le> 11 \<longrightarrow> clock_text t \<longrightarrow>
       (\<forall>j\<le>k. server_ok (stop (f 0) is j) (E j)) \<longrightarrow>
       legs_ok (stop (f 0) is) E k (query_msg (label 0) (label k) t) \<longrightarrow>
       asking (f 0) (is 0) (label k) t c \<longrightarrow> full_run W (is ` {..k}) f \<longrightarrow>
       (\<exists>i. answered W (is 0) c (f i) (f (Suc i)))"
    using generated_query_answered [OF two_stations, of "''buildrandomtimetables''"] unfolding demo_type by auto
  have ro: "rollout (\<lambda>v. v) demo_rand 6 21 2 1 adj k0 files demo_site" using demo_rollout r by auto
  obtain n E where n: "deployed demo_world 2 1 adj files demo_site n" "asking n 0 (station_label 2 1 1) ''05:30'' ?c"
    "\<forall>j\<le>1. server_ok (stop n ?is j) (E j)" "simple_path 2 adj ?is 1"
    "legs_ok (stop n ?is) E 1 (query_msg (station_label 2 1 0) (station_label 2 1 1) ''05:30'')"
    using demo_deployed [OF ro] by (elim exE conjE) (rule that)
  obtain f where f: "f 0 = n" "full_run demo_world {0, 1} f" using full_run_exists by blast
  have "clock_text ''05:30''" by code_simp
  moreover have "?is ` {..1} = {0, 1}" by auto
  ultimately have "\<exists>i. answered demo_world (?is 0) ?c (f i) (f (Suc i))"
    using all [of ?is demo_world f 1 "''05:30''" E ?c, unfolded Let_def] n f(2) unfolding f(1) by simp
  with r(1) n(2) f show ?thesis by (intro exI [of _ files] exI [of _ f] exI [of _ ?c]) simp
qed

text \<open>C7. The same networks, wherever they get to. On hosts whose names and addresses work, \<open>station_init\<close>, the
  start-up before the sockets, succeeds for all stations on their files and neighbours. Networks start
  there: \<open>open_sockets\<close> is not part of this theorem, and \<open>start_never_clean\<close> shows its undefined behaviour. In
  every network reachable from such stations, whatever browsers send, with the stations' own datagrams in
  flight, in any order and with any losses, all stations still up are sound, every query looking for its
  destination has passed no station twice and carries at most \<open>N\<close> hops, and datagrams cannot be handed
  over for ever.\<close>

theorem generated_network_settles:
  assumes "double_rounding rnd" and "2 \<le> N" and "N \<le> 676" and "atoi arg = int N" and "fair_pairs rand N 1"
    and "sites_ok N S"
  shows "\<exists>files adj k0. main_random rnd rand (\<lambda>_. True) [prog, arg] = Some (Inr files) \<and>
    build_routes rand N 1 (new2D N) (new2D N) = Some (adj, k0) \<and>
    (\<forall>W. (\<forall>i<N. route W (s_ip (S i)) (s_udp (S i)) = Some i \<and> benign (sys W i)) \<longrightarrow>
       (\<exists>n0. deployed W N (rand 0 mod 10) adj files S n0 \<and> flight n0 = {#})) \<and>
    (\<forall>W n0 n. deployed W N (rand 0 mod 10) adj files S n0 \<longrightarrow> flight n0 = {#} \<longrightarrow> network W n0 n \<longrightarrow>
       stations_ok W n \<and>
       (\<forall>h p d m. (h, p, d) \<in># flight n \<longrightarrow> carries d m \<longrightarrow> m_found m = 0 \<longrightarrow> distinct (m_address m) \<and> m_hops m \<le> N) \<and>
       (\<forall>f. f 0 = n \<longrightarrow> (\<exists>i. \<not> delivery W (f i) (f (Suc i)))))"
proof -
  obtain adj k0 files where r: "main_random rnd rand (\<lambda>_. True) [prog, arg] = Some (Inr files)"
    "build_routes rand N 1 (new2D N) (new2D N) = Some (adj, k0)"
    "rollout rnd rand 6 21 N (rand 0 mod 10) adj k0 files S" using random_rollout [OF assms] by blast
  have "stations_ok W n \<and>
       (\<forall>h p d m. (h, p, d) \<in># flight n \<longrightarrow> carries d m \<longrightarrow> m_found m = 0 \<longrightarrow> distinct (m_address m) \<and> m_hops m \<le> N) \<and>
       (\<forall>f. f 0 = n \<longrightarrow> (\<exists>i. \<not> delivery W (f i) (f (Suc i))))"
    if "deployed W N (rand 0 mod 10) adj files S n0" "flight n0 = {#}" "network W n0 n" for W n0 n
    using network_stations_ok [OF that(3) rollout_stations_ok [OF r(3) that(1)]] rollout_floods [OF r(3) that]
      rollout_settles [OF r(3) that(1)] that(3) by blast
  with r(1,2) rollout_deploys [OF r(3)] show ?thesis by blast
qed

theorem generated_network_settles_witness:
  "\<exists>files n0 n h p m. main_random (\<lambda>v. v) demo_rand (\<lambda>_. True) [''buildrandomtimetables'', ''2''] = Some (Inr files) \<and>
    network demo_world n0 n \<and> (h, p, wire m) \<in># flight n \<and> m_found m = 0 \<and> stations_ok demo_world n \<and>
    distinct (m_address m) \<and> m_hops m \<le> 2 \<and> (\<nexists>f. f 0 = n \<and> (\<forall>i. delivery demo_world (f i) (f (Suc i))))"
proof -
  obtain files adj k0 where r: "main_random (\<lambda>v. v) demo_rand (\<lambda>_. True) [''buildrandomtimetables'', ''2''] = Some (Inr files)"
    "build_routes demo_rand 2 1 (new2D 2) (new2D 2) = Some (adj, k0)"
    and all: "\<And>W n0 n. deployed W 2 1 adj files demo_site n0 \<Longrightarrow> flight n0 = {#} \<Longrightarrow> network W n0 n \<Longrightarrow>
       stations_ok W n \<and>
       (\<forall>h p d m. (h, p, d) \<in># flight n \<longrightarrow> carries d m \<longrightarrow> m_found m = 0 \<longrightarrow> distinct (m_address m) \<and> m_hops m \<le> 2) \<and>
       (\<forall>f. f 0 = n \<longrightarrow> (\<exists>i. \<not> delivery W (f i) (f (Suc i))))"
    using generated_network_settles [OF two_stations, of "''buildrandomtimetables''"] unfolding demo_type by auto
  have ro: "rollout (\<lambda>v. v) demo_rand 6 21 2 1 adj k0 files demo_site" using demo_rollout r by auto
  obtain n0 n c where n: "deployed demo_world 2 1 adj files demo_site n0" "flight n0 = {#}" "net_step demo_world n0 n"
    "deployed demo_world 2 1 adj files demo_site n" "asking n 0 (station_label 2 1 1) ''05:30'' c"
    using demo_deployed [OF ro] by (elim exE conjE) (rule that)
  let ?m = "query_msg (station_label 2 1 0) (station_label 2 1 1) ''05:30''"
  have "my_name (the (up n 0)) = station_label 2 1 0"
    using deployed_station [OF ro n(4), of 0] by (auto simp: station_of_def draw_job_def)
  moreover obtain s where s: "up n 0 = Some s"
    "(local_ip s, UDP_port s, wire (query_msg (my_name s) (station_label 2 1 1) ''05:30'')) \<in># flight n"
    using n(5) by (auto simp: asking_def)
  ultimately have q: "(local_ip s, UDP_port s, wire ?m) \<in># flight n" by simp
  have "clock_text ''05:30''" by code_simp
  then have "carries (wire ?m) ?m"
    using load_wire_cstr [OF query_wf] query_wf by (simp add: carries_def query_msg_def m_hops_def)
  moreover have "m_found ?m = 0" by (simp add: query_msg_def)
  moreover have net: "network demo_world n0 n" by (rule network.onward [OF network.initial n(3)])
  ultimately show ?thesis
    using all [OF n(1,2) net] q r(1)
    by (intro exI [of _ files] exI [of _ n0] exI [of _ n] exI [of _ "local_ip s"] exI [of _ "UDP_port s"] exI [of _ ?m]) blast
qed

end
